(* ===== verification/Wharf_Prelude.thy ===== *)
theory Wharf_Prelude
  imports Main "HOL-Library.AList" "HOL-Library.Char_ord" "HOL-Library.List_Lexorder"
begin

text \<open>
  Shared vocabulary of the development.

  \<^item> Go values: a byte string is a \<^typ>\<open>string\<close> (one character per byte), a
    \<^verbatim>\<open>time.Time\<close> is the number of nanoseconds since the Unix epoch, an \<^verbatim>\<open>int64\<close> is an
    \<^typ>\<open>int\<close> (where the code guards the top of the range the guard is part of the model).
  \<^item> Errors: \<open>NoRows\<close> is \<^verbatim>\<open>sql.ErrNoRows\<close>, the one error value the code compares
    against; every other error is \<open>Fail\<close> with the message of the source. A
    \<^verbatim>\<open>%w\<close> wrapper keeps the wrapped error, so it is not written out.
  \<^item> A database table with a primary key is an association list from keys to rows, read
    with \<^const>\<open>map_of\<close> and written with \<^const>\<open>AList.update\<close>.
  \<^item> A transaction runs a function from the database to an error or to a new database and a
    result, and keeps the old database when the function fails.
  \<^item> A clock is the sequence of the readings an operation takes of the Store clock, in
    milliseconds: reading \<open>i\<close> is \<open>clk i\<close>. Nothing is assumed about the readings.
\<close>

section \<open>Names for the types of the source\<close>

type_synonym bytes = string
type_synonym gotime = int
type_synonym clock = "nat \<Rightarrow> int"

datatype err = NoRows | Fail string

type_synonym 'a res = "err + 'a"

named_theorems row_simps \<open>how a row query or a table write unfolds\<close>
named_theorems op_defs \<open>the definitions of the store operations\<close>

section \<open>Time\<close>

abbreviation ms_ns :: int where "ms_ns \<equiv> 1000000"
abbreviation sec_ns :: int where "sec_ns \<equiv> 1000000000"

definition UnixMilli :: "gotime \<Rightarrow> int" where
  "UnixMilli t = t div ms_ns"

definition fromMilli :: "int \<Rightarrow> gotime" where
  "fromMilli ms = ms * ms_ns"

text \<open>The zero \<^verbatim>\<open>time.Time\<close> is the first of January of year 1.\<close>

definition zeroTime :: gotime where
  "zeroTime = - 62135596800 * sec_ns"

lemma UnixMilli_fromMilli [simp]: "UnixMilli (fromMilli ms) = ms"
  by (simp add: UnixMilli_def fromMilli_def)

lemma fromMilli_less_iff [simp]: "fromMilli a < fromMilli b \<longleftrightarrow> a < b"
  by (simp add: fromMilli_def)

lemma fromMilli_le_iff [simp]: "fromMilli a \<le> fromMilli b \<longleftrightarrow> a \<le> b"
  by (simp add: fromMilli_def)

lemma fromMilli_inject [simp]: "fromMilli a = fromMilli b \<longleftrightarrow> a = b"
  by (simp add: fromMilli_def)

lemma UnixMilli_less_imp: "UnixMilli t > ms \<Longrightarrow> t > fromMilli ms"
proof -
  assume "UnixMilli t > ms"
  then have "ms + 1 \<le> t div ms_ns" by (simp add: UnixMilli_def)
  then have "(ms + 1) * ms_ns \<le> t div ms_ns * ms_ns" by simp
  also have "\<dots> \<le> t" by simp
  finally show ?thesis by (simp add: fromMilli_def)
qed

section \<open>Results\<close>

definition res_bind :: "'a res \<Rightarrow> ('a \<Rightarrow> 'b res) \<Rightarrow> 'b res" where
  "res_bind m f = (case m of Inl e \<Rightarrow> Inl e | Inr x \<Rightarrow> f x)"

lemma res_bind_simps [simp]:
  "res_bind (Inl e) f = Inl e"
  "res_bind (Inr x) f = f x"
  by (simp_all add: res_bind_def)

lemma res_bind_Inr_iff [simp]:
  "res_bind m f = Inr y \<longleftrightarrow> (\<exists>x. m = Inr x \<and> f x = Inr y)"
  by (cases m) auto

definition is_ok :: "'a res \<Rightarrow> bool" where
  "is_ok r = (case r of Inl _ \<Rightarrow> False | Inr _ \<Rightarrow> True)"

lemma is_ok_simps [simp]: "is_ok (Inl e) = False" "is_ok (Inr x) = True"
  by (simp_all add: is_ok_def)

lemma is_ok_iff: "is_ok r \<longleftrightarrow> (\<exists>x. r = Inr x)"
  by (cases r) auto

text \<open>How a guarded computation can succeed; the bundle turns a chain of early returns into the
  conjunction of the conditions that passed.\<close>

lemma case_res_Inr_iff:
  "(case r of Inl e \<Rightarrow> Inl (m e) | Inr x \<Rightarrow> f x) = Inr y \<longleftrightarrow> (\<exists>x. r = Inr x \<and> f x = Inr y)"
  by (cases r) auto

lemma case_option_Inr_iff:
  "(case z of None \<Rightarrow> Inl m | Some x \<Rightarrow> f x) = Inr y \<longleftrightarrow> (\<exists>x. z = Some x \<and> f x = Inr y)"
  by (cases z) auto

lemma if_Inr_iff:
  "(if b then Inl m else r) = Inr y \<longleftrightarrow> \<not> b \<and> r = Inr y"
  "(if b then r else Inl m) = Inr y \<longleftrightarrow> b \<and> r = Inr y"
  by simp_all

lemmas ok_iffs = case_res_Inr_iff case_option_Inr_iff if_Inr_iff

section \<open>Transactions\<close>

definition transaction :: "('s \<Rightarrow> ('s \<times> 'a) res) \<Rightarrow> 's \<Rightarrow> 's \<times> 'a res" where
  "transaction f s = (case f s of Inl e \<Rightarrow> (s, Inl e) | Inr (s', x) \<Rightarrow> (s', Inr x))"

lemma transaction_Inl [simp]: "f s = Inl e \<Longrightarrow> transaction f s = (s, Inl e)"
  by (simp add: transaction_def)

lemma transaction_Inr [simp]: "f s = Inr (s', x) \<Longrightarrow> transaction f s = (s', Inr x)"
  by (simp add: transaction_def)

lemma transaction_ok_iff:
  "transaction f s = (s', Inr x) \<longleftrightarrow> f s = Inr (s', x)"
  by (auto simp: transaction_def split: sum.splits)

lemma transaction_error:
  "snd (transaction f s) = Inl e \<Longrightarrow> fst (transaction f s) = s"
  by (auto simp: transaction_def split: sum.splits)

lemma transaction_cases:
  obtains (fail) e where "f s = Inl e" "transaction f s = (s, Inl e)"
        | (ok) s' x where "f s = Inr (s', x)" "transaction f s = (s', Inr x)"
  by (cases "f s") auto

text \<open>
  A relation between databases that is reflexive and that every successful run satisfies is
  satisfied by the transaction: the shape in which the components state their frame lemmas.
\<close>

lemma transaction_rel:
  assumes "\<And>x. R x x" and "\<And>s' x. f s = Inr (s', x) \<Longrightarrow> R s s'"
  shows "R s (fst (transaction f s))"
  by (rule transaction_cases [of f s]) (use assms in auto)

section \<open>Statements inside an open transaction\<close>

text \<open>
  Code that runs statements in a transaction its caller opened: an error leaves what was
  written before it, and the caller decides whether to roll back.
\<close>

type_synonym ('s, 'a) prog = "'s \<Rightarrow> 's \<times> 'a res"

definition pbind :: "('s, 'a) prog \<Rightarrow> ('a \<Rightarrow> ('s, 'b) prog) \<Rightarrow> ('s, 'b) prog" where
  "pbind p f s = (case p s of (s', Inl e) \<Rightarrow> (s', Inl e) | (s', Inr x) \<Rightarrow> f x s')"

definition pret :: "'a \<Rightarrow> ('s, 'a) prog" where
  "pret x s = (s, Inr x)"

definition pfail :: "err \<Rightarrow> ('s, 'a) prog" where
  "pfail e s = (s, Inl e)"

text \<open>A query, one failing write, and a write with a result.\<close>

definition pget :: "('s \<Rightarrow> 'a res) \<Rightarrow> ('s, 'a) prog" where
  "pget q s = (s, q s)"

definition pexec :: "('s \<Rightarrow> 's res) \<Rightarrow> ('s, unit) prog" where
  "pexec w s = (case w s of Inl e \<Rightarrow> (s, Inl e) | Inr s' \<Rightarrow> (s', Inr ()))"

definition pcall :: "('s \<Rightarrow> ('s \<times> 'a) res) \<Rightarrow> ('s, 'a) prog" where
  "pcall w s = (case w s of Inl e \<Rightarrow> (s, Inl e) | Inr (s', x) \<Rightarrow> (s', Inr x))"

lemma pbind_ok:
  "pbind p f s = (s'', Inr y) \<longleftrightarrow> (\<exists>s' x. p s = (s', Inr x) \<and> f x s' = (s'', Inr y))"
  by (auto simp: pbind_def split: prod.splits sum.splits)

lemma prog_ok_simps:
  "pret x s = (s', Inr y) \<longleftrightarrow> s' = s \<and> y = x"
  "pfail e s = (s', Inr y) \<longleftrightarrow> False"
  "pget q s = (s', Inr y) \<longleftrightarrow> s' = s \<and> q s = Inr y"
  "pexec w s = (s', Inr u) \<longleftrightarrow> w s = Inr s'"
  "pcall v s = (s', Inr z) \<longleftrightarrow> v s = Inr (s', z)"
  by (auto simp: pret_def pfail_def pget_def pexec_def pcall_def split: sum.splits)

text \<open>A reflexive and transitive relation that each part keeps is kept by the whole.\<close>

lemma pbind_rel:
  assumes "\<And>a b c. R a b \<Longrightarrow> R b c \<Longrightarrow> R a c"
    and "R s (fst (p s))" and "\<And>s' x. p s = (s', Inr x) \<Longrightarrow> R s' (fst (f x s'))"
  shows "R s (fst (pbind p f s))"
  using assms by (cases "p s") (auto simp: pbind_def split: sum.splits)

lemma prog_rel:
  assumes "R s s"
  shows "R s (fst (pret x s))" "R s (fst (pfail e s))" "R s (fst (pget q s))"
    "(\<And>s'. w s = Inr s' \<Longrightarrow> R s s') \<Longrightarrow> R s (fst (pexec w s))"
    "(\<And>s' y. v s = Inr (s', y) \<Longrightarrow> R s s') \<Longrightarrow> R s (fst (pcall v s))"
  using assms by (auto simp: pret_def pfail_def pget_def pexec_def pcall_def split: sum.splits)

section \<open>Tables\<close>

type_synonym ('k, 'r) table = "('k \<times> 'r) list"

abbreviation keys :: "('k, 'r) table \<Rightarrow> 'k set" where
  "keys t \<equiv> fst ` set t"

definition unique_keys :: "('k, 'r) table \<Rightarrow> bool" where
  "unique_keys t \<longleftrightarrow> distinct (map fst t)"

lemma map_of_put [simp]: "map_of (AList.update k v t) = (map_of t)(k \<mapsto> v)"
  by (rule update_conv')

lemma map_of_del [simp]: "map_of (AList.delete k t) = (map_of t)(k := None)"
  by (rule delete_conv')

lemma unique_keys_Nil [simp]: "unique_keys []"
  by (simp add: unique_keys_def)

lemma unique_keys_put [simp, intro]: "unique_keys t \<Longrightarrow> unique_keys (AList.update k v t)"
  by (simp add: unique_keys_def distinct_update)

lemma unique_keys_del [simp, intro]: "unique_keys t \<Longrightarrow> unique_keys (AList.delete k t)"
  by (simp add: unique_keys_def distinct_delete)

lemma unique_keys_set_iff:
  "unique_keys t \<Longrightarrow> (k, r) \<in> set t \<longleftrightarrow> map_of t k = Some r"
  by (simp add: unique_keys_def map_of_eq_Some_iff)

section \<open>Lists\<close>

definition max0 :: "int list \<Rightarrow> int" where
  \<comment> \<open>SQL's \<open>COALESCE(MAX(x), 0)\<close>\<close>
  "max0 xs = (case xs of [] \<Rightarrow> 0 | x # ys \<Rightarrow> fold max ys x)"

lemma max0_Nil [simp]: "max0 [] = 0"
  by (simp add: max0_def)

lemma max0_Cons: "max0 (x # xs) = Max (set (x # xs))"
  unfolding max0_def by (simp only: list.case Max.set_eq_fold)

lemma max0_eq_Max: "xs \<noteq> [] \<Longrightarrow> max0 xs = Max (set xs)"
  by (cases xs) (simp, simp only: max0_Cons)

lemma max0_snoc: "xs \<noteq> [] \<Longrightarrow> max0 (xs @ [y]) = max (max0 xs) y"
  by (simp add: max0_eq_Max max.commute)

lemma max0_ge: "x \<in> set xs \<Longrightarrow> x \<le> max0 xs"
  by (cases xs) (simp_all add: max0_eq_Max)

lemma max0_in: "xs \<noteq> [] \<Longrightarrow> max0 xs \<in> set xs"
  by (simp add: max0_eq_Max)

lemma max0_upto [simp]: "0 \<le> n \<Longrightarrow> max0 [1..n] = n"
proof -
  assume n: "0 \<le> n"
  show ?thesis
  proof (cases "n = 0")
    case False
    with n have ne: "[1..n] \<noteq> []" by simp
    have "Max {1..n} = n" using n False by (intro Max_eqI) auto
    with max0_eq_Max [OF ne] show ?thesis by simp
  qed simp
qed

end
