(* ===== verification/Go_Json.thy ===== *)
theory Go_Json
  imports Wharf_Prelude
begin

text \<open>
  The part of Go's \<^verbatim>\<open>encoding/json\<close> the program uses: the scanner that
  \<^verbatim>\<open>json.Valid\<close> and \<^verbatim>\<open>json.Unmarshal\<close> run over the bytes (one state per character and
  an explicit stack of open arrays and objects, bounded by the package's nesting limit of
  10000), the decoding of string literals, the assignment of object members to the string
  fields of a struct (exact name first, then case-folded; \<^verbatim>\<open>null\<close> leaves a field alone; another
  type is an error; a later member overwrites an earlier one), and \<^verbatim>\<open>json.Marshal\<close> with HTML
  escaping. Bytes above 127 are copied: the texts are taken to be well-formed UTF-8, which is
  what JSON requires of them.

  The main lemma is the round trip \<open>parse_print\<close>: parsing what was marshalled gives the
  value back.
\<close>

section \<open>Values\<close>

datatype json =
    JNull
  | JBool bool
  | JNum string
  | JStr string
  | JArr "json list"
  | JObj "(string \<times> json) list"

abbreviation dq :: char where "dq \<equiv> CHR 0x22"
abbreviation bslash :: char where "bslash \<equiv> CHR 0x5C"

abbreviation code :: "char \<Rightarrow> nat" where "code c \<equiv> of_char c"

definition is_space :: "char \<Rightarrow> bool" where
  "is_space c \<longleftrightarrow> c = CHR '' '' \<or> c = CHR 0x09 \<or> c = CHR 0x0D \<or> c = CHR 0x0A"

definition is_digit :: "char \<Rightarrow> bool" where
  "is_digit c \<longleftrightarrow> 48 \<le> code c \<and> code c \<le> 57"

definition hex_val :: "char \<Rightarrow> nat option" where
  "hex_val c =
     (if 48 \<le> code c \<and> code c \<le> 57 then Some (code c - 48)
      else if 97 \<le> code c \<and> code c \<le> 102 then Some (code c - 87)
      else if 65 \<le> code c \<and> code c \<le> 70 then Some (code c - 55)
      else None)"

section \<open>String literals\<close>

definition utf8 :: "nat \<Rightarrow> string" where
  "utf8 n =
     (if n < 128 then [char_of n]
      else if n < 2048 then [char_of (192 + n div 64), char_of (128 + n mod 64)]
      else if n < 65536 then
        [char_of (224 + n div 4096), char_of (128 + n div 64 mod 64), char_of (128 + n mod 64)]
      else [char_of (240 + n div 262144), char_of (128 + n div 4096 mod 64),
            char_of (128 + n div 64 mod 64), char_of (128 + n mod 64)])"

definition hex4 :: "string \<Rightarrow> nat option" where
  "hex4 s =
     (case s of
        a # b # c # d # _ \<Rightarrow>
          (case (hex_val a, hex_val b, hex_val c, hex_val d) of
             (Some w, Some x, Some y, Some z) \<Rightarrow> Some (4096 * w + 256 * x + 16 * y + z)
           | _ \<Rightarrow> None)
      | _ \<Rightarrow> None)"

definition is_surrogate :: "nat \<Rightarrow> bool" where
  "is_surrogate n \<longleftrightarrow> 55296 \<le> n \<and> n < 57344"

definition low_surrogate :: "string \<Rightarrow> nat option" where
  \<comment> \<open>the code unit of a \<open>\u\<close> escape at the head of the text, when it is a low surrogate\<close>
  "low_surrogate s =
     (case s of
        b # u # cs \<Rightarrow>
          if b = bslash \<and> u = CHR ''u'' then
            (case hex4 cs of
               Some n \<Rightarrow> if 56320 \<le> n \<and> n < 57344 then Some n else None
             | None \<Rightarrow> None)
          else None
      | _ \<Rightarrow> None)"

definition simple_escape :: "char \<Rightarrow> char option" where
  "simple_escape c =
     (if c = dq \<or> c = bslash \<or> c = CHR ''/'' then Some c
      else if c = CHR ''b'' then Some (CHR 0x08)
      else if c = CHR ''f'' then Some (CHR 0x0C)
      else if c = CHR ''n'' then Some (CHR 0x0A)
      else if c = CHR ''r'' then Some (CHR 0x0D)
      else if c = CHR ''t'' then Some (CHR 0x09)
      else None)"

text \<open>The decoded bytes of a scanned string literal, escapes expanded.\<close>

fun unquote :: "string \<Rightarrow> string" where
  "unquote [] = []"
| "unquote (c # cs) =
     (if c \<noteq> bslash then c # unquote cs
      else case cs of
        [] \<Rightarrow> []
      | e # es \<Rightarrow>
          if e = CHR ''u'' then
            (case hex4 es of
               None \<Rightarrow> []
             | Some n \<Rightarrow>
                 if \<not> is_surrogate n then utf8 n @ unquote (drop 4 es)
                 else (case low_surrogate (drop 4 es) of
                    Some l \<Rightarrow>
                      if n < 56320
                      then utf8 (65536 + (n - 55296) * 1024 + (l - 56320)) @ unquote (drop 10 es)
                      else utf8 65533 @ unquote (drop 4 es)
                  | None \<Rightarrow> utf8 65533 @ unquote (drop 4 es)))
          else (case simple_escape e of
                  None \<Rightarrow> []
                | Some d \<Rightarrow> d # unquote es))"

section \<open>The scanner\<close>

datatype numst = NNeg | N0 | N1 | NDot | NDot0 | NE | NESign | NE0

fun num_step :: "numst \<Rightarrow> char \<Rightarrow> numst option" where
  "num_step NNeg c = (if c = CHR ''0'' then Some N0 else if is_digit c then Some N1 else None)"
| "num_step N1 c =
     (if is_digit c then Some N1 else if c = CHR ''.'' then Some NDot
      else if c = CHR ''e'' \<or> c = CHR ''E'' then Some NE else None)"
| "num_step N0 c =
     (if c = CHR ''.'' then Some NDot
      else if c = CHR ''e'' \<or> c = CHR ''E'' then Some NE else None)"
| "num_step NDot c = (if is_digit c then Some NDot0 else None)"
| "num_step NDot0 c =
     (if is_digit c then Some NDot0
      else if c = CHR ''e'' \<or> c = CHR ''E'' then Some NE else None)"
| "num_step NE c =
     (if c = CHR ''+'' \<or> c = CHR ''-'' then Some NESign
      else if is_digit c then Some NE0 else None)"
| "num_step NESign c = (if is_digit c then Some NE0 else None)"
| "num_step NE0 c = (if is_digit c then Some NE0 else None)"

definition num_done :: "numst \<Rightarrow> bool" where
  "num_done n \<longleftrightarrow> n = N0 \<or> n = N1 \<or> n = NDot0 \<or> n = NE0"

definition num_start :: "char \<Rightarrow> numst option" where
  "num_start c =
     (if c = CHR ''-'' then Some NNeg else if c = CHR ''0'' then Some N0
      else if is_digit c then Some N1 else None)"

datatype frame =
    FArr "json list"
  | FMem "(string \<times> json) list"
  | FKey "(string \<times> json) list" string

datatype mode =
    MVal
  | MValOrEnd
  | MKeyOrEnd
  | MKey
  | MColon
  | MAfter json
  | MStr bool string
  | MEsc bool string
  | MHex bool string nat
  | MNum numst string
  | MLit string json

definition maxNestingDepth :: nat where "maxNestingDepth = 10000"

definition push :: "mode \<Rightarrow> frame \<Rightarrow> frame list \<Rightarrow> (mode \<times> frame list) option" where
  "push m f st = (if length st < maxNestingDepth then Some (m, f # st) else None)"

definition begin_value :: "mode \<Rightarrow> frame list \<Rightarrow> char \<Rightarrow> (mode \<times> frame list) option" where
  "begin_value m st c =
     (if is_space c then Some (m, st)
      else if c = CHR ''{'' then push MKeyOrEnd (FMem []) st
      else if c = CHR ''['' then push MValOrEnd (FArr []) st
      else if c = dq then Some (MStr False [], st)
      else if c = CHR ''t'' then Some (MLit ''rue'' (JBool True), st)
      else if c = CHR ''f'' then Some (MLit ''alse'' (JBool False), st)
      else if c = CHR ''n'' then Some (MLit ''ull'' JNull, st)
      else (case num_start c of None \<Rightarrow> None | Some n \<Rightarrow> Some (MNum n [c], st)))"

definition end_value :: "json \<Rightarrow> frame list \<Rightarrow> char \<Rightarrow> (mode \<times> frame list) option" where
  "end_value v st c =
     (if is_space c then Some (MAfter v, st)
      else case st of
        FArr xs # st' \<Rightarrow>
          if c = CHR '','' then Some (MVal, FArr (v # xs) # st')
          else if c = CHR '']'' then Some (MAfter (JArr (rev (v # xs))), st')
          else None
      | FKey ms k # st' \<Rightarrow>
          if c = CHR '','' then Some (MKey, FMem ((k, v) # ms) # st')
          else if c = CHR ''}'' then Some (MAfter (JObj (rev ((k, v) # ms))), st')
          else None
      | _ \<Rightarrow> None)"

definition close_string :: "bool \<Rightarrow> string \<Rightarrow> frame list \<Rightarrow> (mode \<times> frame list) option" where
  "close_string key acc st =
     (if \<not> key then Some (MAfter (JStr (unquote (rev acc))), st)
      else case st of
        FMem ms # st' \<Rightarrow> Some (MColon, FKey ms (unquote (rev acc)) # st')
      | _ \<Rightarrow> None)"

fun scan :: "mode \<Rightarrow> frame list \<Rightarrow> char \<Rightarrow> (mode \<times> frame list) option" where
  "scan MVal st c = begin_value MVal st c"
| "scan MValOrEnd st c =
     (if c = CHR '']'' then
        (case st of FArr xs # st' \<Rightarrow> Some (MAfter (JArr (rev xs)), st') | _ \<Rightarrow> None)
      else begin_value MValOrEnd st c)"
| "scan MKeyOrEnd st c =
     (if c = CHR ''}'' then
        (case st of FMem ms # st' \<Rightarrow> Some (MAfter (JObj (rev ms)), st') | _ \<Rightarrow> None)
      else if is_space c then Some (MKeyOrEnd, st)
      else if c = dq then Some (MStr True [], st) else None)"
| "scan MKey st c =
     (if is_space c then Some (MKey, st)
      else if c = dq then Some (MStr True [], st) else None)"
| "scan MColon st c =
     (if is_space c then Some (MColon, st)
      else if c = CHR '':'' then Some (MVal, st) else None)"
| "scan (MAfter v) st c = end_value v st c"
| "scan (MStr key acc) st c =
     (if c = dq then close_string key acc st
      else if c = bslash then Some (MEsc key (c # acc), st)
      else if code c < 32 then None
      else Some (MStr key (c # acc), st))"
| "scan (MEsc key acc) st c =
     (if c = CHR ''u'' then Some (MHex key (c # acc) 4, st)
      else if simple_escape c = None then None
      else Some (MStr key (c # acc), st))"
| "scan (MHex key acc n) st c =
     (if hex_val c = None then None
      else if n \<le> 1 then Some (MStr key (c # acc), st)
      else Some (MHex key (c # acc) (n - 1), st))"
| "scan (MNum n acc) st c =
     (case num_step n c of
        Some n' \<Rightarrow> Some (MNum n' (c # acc), st)
      | None \<Rightarrow> if num_done n then end_value (JNum (rev acc)) st c else None)"
| "scan (MLit ls v) st c =
     (case ls of
        [] \<Rightarrow> None
      | l # ls' \<Rightarrow> if c \<noteq> l then None
                   else if ls' = [] then Some (MAfter v, st) else Some (MLit ls' v, st))"

definition at_eof :: "mode \<Rightarrow> frame list \<Rightarrow> json option" where
  "at_eof m st =
     (if st \<noteq> [] then None
      else case m of
        MAfter v \<Rightarrow> Some v
      | MNum n acc \<Rightarrow> if num_done n then Some (JNum (rev acc)) else None
      | _ \<Rightarrow> None)"

fun scan_all :: "mode \<Rightarrow> frame list \<Rightarrow> string \<Rightarrow> json option" where
  "scan_all m st [] = at_eof m st"
| "scan_all m st (c # cs) =
     (case scan m st c of None \<Rightarrow> None | Some (m', st') \<Rightarrow> scan_all m' st' cs)"

definition parse_json :: "bytes \<Rightarrow> json option" where
  "parse_json data = scan_all MVal [] data"

definition json_Valid :: "bytes \<Rightarrow> bool" where
  "json_Valid data \<longleftrightarrow> parse_json data \<noteq> None"

section \<open>Unmarshalling into string fields\<close>

fun fold_name :: "string \<Rightarrow> string" where
  "fold_name [] = []"
| "fold_name (c # cs) =
     (if 97 \<le> code c \<and> code c \<le> 122 then char_of (code c - 32) # fold_name cs
      else if c = CHR 0xC5 \<and> take 1 cs = [CHR 0xBF] then CHR ''S'' # fold_name (drop 1 cs)
      else if c = CHR 0xE2 \<and> take 2 cs = [CHR 0x84, CHR 0xAA]
      then CHR ''K'' # fold_name (drop 2 cs)
      else c # fold_name cs)"

definition match_field :: "string list \<Rightarrow> string \<Rightarrow> string option" where
  "match_field names k =
     (if k \<in> set names then Some k
      else List.find (\<lambda>n. fold_name n = fold_name k) names)"

fun assign_members ::
  "string list \<Rightarrow> (string \<times> json) list \<Rightarrow> (string \<Rightarrow> string) \<Rightarrow> (string \<Rightarrow> string) option" where
  "assign_members names [] env = Some env"
| "assign_members names ((k, v) # ms) env =
     (case match_field names k of
        None \<Rightarrow> assign_members names ms env
      | Some f \<Rightarrow>
          (case v of
             JStr s \<Rightarrow> assign_members names ms (env(f := s))
           | JNull \<Rightarrow> assign_members names ms env
           | _ \<Rightarrow> None))"

definition unmarshal_strings :: "string list \<Rightarrow> bytes \<Rightarrow> (string \<Rightarrow> string) option" where
  "unmarshal_strings names data =
     (case parse_json data of
        Some (JObj ms) \<Rightarrow> assign_members names ms (\<lambda>_. [])
      | Some JNull \<Rightarrow> Some (\<lambda>_. [])
      | _ \<Rightarrow> None)"

section \<open>Marshalling\<close>

definition hex_digit :: "nat \<Rightarrow> char" where
  "hex_digit n = ''0123456789abcdef'' ! n"

definition u00 :: "nat \<Rightarrow> string" where
  "u00 n = bslash # ''u00'' @ [hex_digit (n div 16), hex_digit (n mod 16)]"

definition html_char :: "char \<Rightarrow> bool" where
  "html_char c \<longleftrightarrow> c = CHR ''<'' \<or> c = CHR ''>'' \<or> c = CHR ''&''"

definition short_escape :: "char \<Rightarrow> char option" where
  "short_escape c =
     (if c = dq \<or> c = bslash then Some c
      else if c = CHR 0x08 then Some (CHR ''b'')
      else if c = CHR 0x0C then Some (CHR ''f'')
      else if c = CHR 0x0A then Some (CHR ''n'')
      else if c = CHR 0x0D then Some (CHR ''r'')
      else if c = CHR 0x09 then Some (CHR ''t'')
      else None)"

fun escape :: "string \<Rightarrow> string" where
  "escape [] = []"
| "escape (c # cs) =
     (case short_escape c of
        Some e \<Rightarrow> bslash # e # escape cs
      | None \<Rightarrow>
          if code c < 32 \<or> html_char c then u00 (code c) @ escape cs
          else if c = CHR 0xE2 \<and> take 2 cs = [CHR 0x80, CHR 0xA8]
          then bslash # ''u2028'' @ escape (drop 2 cs)
          else if c = CHR 0xE2 \<and> take 2 cs = [CHR 0x80, CHR 0xA9]
          then bslash # ''u2029'' @ escape (drop 2 cs)
          else c # escape cs)"

definition quote :: "string \<Rightarrow> string" where
  "quote s = dq # escape s @ [dq]"

fun commas :: "string list \<Rightarrow> string" where
  "commas [] = []"
| "commas [s] = s"
| "commas (s # t # ss) = s @ CHR '','' # commas (t # ss)"

fun print_json :: "json \<Rightarrow> string" where
  "print_json JNull = ''null''"
| "print_json (JBool b) = (if b then ''true'' else ''false'')"
| "print_json (JNum s) = s"
| "print_json (JStr s) = quote s"
| "print_json (JArr vs) = CHR ''['' # commas (map print_json vs) @ '']''"
| "print_json (JObj ms) =
     CHR ''{'' # commas (map (\<lambda>m. quote (fst m) @ CHR '':'' # print_json (snd m)) ms) @ ''}''"

text \<open>A nil pointer marshals as \<^verbatim>\<open>null\<close>; a non-negative Go integer as its decimal digits.\<close>

definition jopt :: "string option \<Rightarrow> json" where
  "jopt s = (case s of None \<Rightarrow> JNull | Some x \<Rightarrow> JStr x)"

fun digits :: "nat \<Rightarrow> string" where
  "digits n =
     (if n < 10 then [''0123456789'' ! n] else digits (n div 10) @ [''0123456789'' ! (n mod 10)])"

declare digits.simps [simp del]

definition jint :: "int \<Rightarrow> json" where
  "jint i = JNum (if i < 0 then CHR ''-'' # digits (nat (- i)) else digits (nat i))"

section \<open>Values that can be written\<close>

fun num_run :: "numst \<Rightarrow> string \<Rightarrow> numst option" where
  "num_run n [] = Some n"
| "num_run n (c # cs) = (case num_step n c of None \<Rightarrow> None | Some n' \<Rightarrow> num_run n' cs)"

definition is_number :: "string \<Rightarrow> bool" where
  "is_number s =
     (case s of
        [] \<Rightarrow> False
      | c # cs \<Rightarrow>
          (case num_start c of
             None \<Rightarrow> False
           | Some n \<Rightarrow> (case num_run n cs of None \<Rightarrow> False | Some n' \<Rightarrow> num_done n')))"

fun wf_json :: "json \<Rightarrow> bool" where
  "wf_json (JNum s) = is_number s"
| "wf_json (JArr vs) = list_all wf_json vs"
| "wf_json (JObj ms) = list_all (\<lambda>m. wf_json (snd m)) ms"
| "wf_json _ = True"

fun jdepth :: "json \<Rightarrow> nat" where
  "jdepth (JArr vs) = Suc (foldr max (map jdepth vs) 0)"
| "jdepth (JObj ms) = Suc (foldr max (map (\<lambda>m. jdepth (snd m)) ms) 0)"
| "jdepth _ = 0"

section \<open>Round trip\<close>

lemma of_char_code [simp]: "code (char_of n) = n mod 256"
  by simp

lemma hex_val_hex_digit [simp]: "n < 16 \<Longrightarrow> hex_val (hex_digit n) = Some n"
proof -
  assume "n < 16"
  moreover have "list_all (\<lambda>k. hex_val (hex_digit k) = Some k) [0..<16]" by code_simp
  ultimately show ?thesis by (simp add: list_all_iff)
qed

lemma code_less_256: "code c < 256"
  using of_char_mod_256 [of c, where 'a = nat] by (metis mod_less_divisor zero_less_numeral)

lemma hex4_u00 [simp]:
  assumes "n < 256"
  shows "hex4 (CHR ''0'' # CHR ''0'' # hex_digit (n div 16) # hex_digit (n mod 16) # r) = Some n"
proof -
  have "n div 16 < 16" "n mod 16 < 16" using assms by auto
  then show ?thesis
    by (simp add: hex4_def hex_val_def [of "CHR ''0''"])
qed

lemma html_char_code: "html_char c \<Longrightarrow> code c < 128"
  by (auto simp: html_char_def)

lemma unquote_u00:
  assumes "code c < 128"
  shows "unquote (u00 (code c) @ r) = c # unquote r"
  using assms by (simp add: u00_def is_surrogate_def utf8_def)

lemma hex4_2028 [simp]: "hex4 (''2028'' @ r) = Some 8232" "hex4 (''2029'' @ r) = Some 8233"
  by (simp_all add: hex4_def hex_val_def)

lemma utf8_2028:
  "utf8 8232 = [CHR 0xE2, CHR 0x80, CHR 0xA8]" "utf8 8233 = [CHR 0xE2, CHR 0x80, CHR 0xA9]"
  using char_of_char [of "CHR 0xE2", where 'a = nat] char_of_char [of "CHR 0x80", where 'a = nat]
    char_of_char [of "CHR 0xA8", where 'a = nat] char_of_char [of "CHR 0xA9", where 'a = nat]
  by (simp_all add: utf8_def)

lemma unquote_2028:
  "unquote (bslash # ''u2028'' @ r) = [CHR 0xE2, CHR 0x80, CHR 0xA8] @ unquote r"
  "unquote (bslash # ''u2029'' @ r) = [CHR 0xE2, CHR 0x80, CHR 0xA9] @ unquote r"
  using hex4_2028 [of r] by (simp_all add: is_surrogate_def utf8_2028)

lemma short_escape_simple:
  "short_escape c = Some e \<Longrightarrow> e \<noteq> CHR ''u'' \<and> simple_escape e = Some c"
  by (auto simp: short_escape_def simple_escape_def split: if_splits)

lemma short_escape_None: "short_escape c = None \<Longrightarrow> c \<noteq> dq \<and> c \<noteq> bslash"
  by (auto simp: short_escape_def split: if_splits)

lemma take2_eq: "take 2 cs = [a, b] \<Longrightarrow> cs = a # b # drop 2 cs"
  by (metis append_Cons append_Nil append_take_drop_id)

declare escape.simps(2) [simp del] unquote.simps(2) [simp del]

lemma escape_short: "short_escape c = Some e \<Longrightarrow> escape (c # cs) = bslash # e # escape cs"
  by (simp only: escape.simps option.case)

lemma escape_ctl:
  "short_escape c = None \<Longrightarrow> code c < 32 \<or> html_char c \<Longrightarrow>
   escape (c # cs) = u00 (code c) @ escape cs"
  by (simp only: escape.simps option.case if_True)

lemma escape_ls:
  "short_escape c = None \<Longrightarrow> \<not> (code c < 32 \<or> html_char c) \<Longrightarrow>
   c = CHR 0xE2 \<and> take 2 cs = [CHR 0x80, CHR 0xA8] \<Longrightarrow>
   escape (c # cs) = bslash # ''u2028'' @ escape (drop 2 cs)"
  by (simp only: escape.simps option.case if_True if_False simp_thms)

lemma escape_ps:
  "short_escape c = None \<Longrightarrow> \<not> (code c < 32 \<or> html_char c) \<Longrightarrow>
   c = CHR 0xE2 \<and> take 2 cs = [CHR 0x80, CHR 0xA9] \<Longrightarrow>
   escape (c # cs) = bslash # ''u2029'' @ escape (drop 2 cs)"
  by (simp only: escape.simps option.case if_True if_False simp_thms) simp

lemma escape_plain:
  "short_escape c = None \<Longrightarrow> \<not> (code c < 32 \<or> html_char c) \<Longrightarrow>
   \<not> (c = CHR 0xE2 \<and> take 2 cs = [CHR 0x80, CHR 0xA8]) \<Longrightarrow>
   \<not> (c = CHR 0xE2 \<and> take 2 cs = [CHR 0x80, CHR 0xA9]) \<Longrightarrow>
   escape (c # cs) = c # escape cs"
  by (simp only: escape.simps option.case if_False)

text \<open>The five shapes of an escaped head, each with its inverse.\<close>

lemma escape_cases:
  obtains (Nil) "s = []"
    | (short) c e cs where "s = c # cs" "short_escape c = Some e"
        "escape s = bslash # e # escape cs" "e \<noteq> CHR ''u''" "simple_escape e = Some c"
    | (ctl) c cs where "s = c # cs" "code c < 128" "escape s = u00 (code c) @ escape cs"
    | (ls) cs where "s = [CHR 0xE2, CHR 0x80, CHR 0xA8] @ cs"
        "escape s = bslash # ''u2028'' @ escape cs"
    | (ps) cs where "s = [CHR 0xE2, CHR 0x80, CHR 0xA9] @ cs"
        "escape s = bslash # ''u2029'' @ escape cs"
    | (plain) c cs where "s = c # cs" "escape s = c # escape cs"
        "c \<noteq> dq" "c \<noteq> bslash" "\<not> code c < 32"
proof (cases s)
  case Nil
  then show ?thesis by (rule that(1))
next
  case s: (Cons c cs)
  show ?thesis
  proof (cases "short_escape c")
    case (Some e)
    have "e \<noteq> CHR ''u''" "simple_escape e = Some c"
      using short_escape_simple [OF Some] by (rule conjunct1, rule conjunct2)
    then show ?thesis using escape_short [OF Some, of cs] that(2) [OF s Some] s by simp
  next
    case None
    note nq = short_escape_None [OF None]
    consider (ctl) "code c < 32 \<or> html_char c"
      | (ls) "\<not> (code c < 32 \<or> html_char c)" "c = CHR 0xE2 \<and> take 2 cs = [CHR 0x80, CHR 0xA8]"
      | (ps) "\<not> (code c < 32 \<or> html_char c)" "c = CHR 0xE2 \<and> take 2 cs = [CHR 0x80, CHR 0xA9]"
      | (plain) "\<not> (code c < 32 \<or> html_char c)"
          "\<not> (c = CHR 0xE2 \<and> take 2 cs = [CHR 0x80, CHR 0xA8])"
          "\<not> (c = CHR 0xE2 \<and> take 2 cs = [CHR 0x80, CHR 0xA9])"
      by satx
    then show ?thesis
    proof cases
      case ctl
      then have "code c < 128" using html_char_code [of c] by auto
      then show ?thesis using escape_ctl [OF None ctl, of cs] that(3) [OF s] s by simp
    next
      case ls
      then have "s = [CHR 0xE2, CHR 0x80, CHR 0xA8] @ drop 2 cs"
        using s take2_eq [of cs] by (metis append_Cons append_Nil)
      then show ?thesis by (rule that(4)) (simp only: s escape_ls [OF None ls])
    next
      case ps
      then have "s = [CHR 0xE2, CHR 0x80, CHR 0xA9] @ drop 2 cs"
        using s take2_eq [of cs] by (metis append_Cons append_Nil)
      then show ?thesis by (rule that(5)) (simp only: s escape_ps [OF None ps])
    next
      case plain
      then show ?thesis using escape_plain [OF None plain] that(6) [OF s] s nq by simp
    qed
  qed
qed

lemma unquote_plain: "c \<noteq> bslash \<Longrightarrow> unquote (c # cs) = c # unquote cs"
  by (subst unquote.simps) simp

lemma unquote_short:
  "e \<noteq> CHR ''u'' \<Longrightarrow> simple_escape e = Some c \<Longrightarrow> unquote (bslash # e # cs) = c # unquote cs"
  by (subst unquote.simps) simp

lemma unquote_escape [simp]: "unquote (escape s) = s"
proof (induction s rule: length_induct)
  case (1 s)
  then have IH: "length t < length s \<Longrightarrow> unquote (escape t) = t" for t by blast
  show ?case
  proof (cases s rule: escape_cases)
    case (short c e cs)
    then show ?thesis using IH [of cs] by (simp add: unquote_short)
  next
    case (ctl c cs)
    then show ?thesis using IH [of cs] by (simp only: unquote_u00) simp
  next
    case (ls cs)
    then show ?thesis using IH [of cs] by (simp only: unquote_2028) simp
  next
    case (ps cs)
    then show ?thesis using IH [of cs] by (simp only: unquote_2028) simp
  next
    case (plain c cs)
    then show ?thesis using IH [of cs] by (simp add: unquote_plain)
  qed simp
qed

lemma hex_val_hex_digit_None [simp]: "n < 16 \<Longrightarrow> hex_val (hex_digit n) \<noteq> None"
  by simp

lemma scan_u00:
  "code c < 128 \<Longrightarrow>
   scan_all (MStr k acc) st (u00 (code c) @ r) = scan_all (MStr k (rev (u00 (code c)) @ acc)) st r"
  by (simp add: u00_def hex_val_def [of "CHR ''0''"])

lemma scan_2028:
  "scan_all (MStr k acc) st (bslash # ''u2028'' @ r) =
   scan_all (MStr k (rev (bslash # ''u2028'') @ acc)) st r"
  "scan_all (MStr k acc) st (bslash # ''u2029'' @ r) =
   scan_all (MStr k (rev (bslash # ''u2029'') @ acc)) st r"
  by (simp_all add: hex_val_def)

lemma scan_escape:
  "scan_all (MStr k acc) st (escape s @ r) = scan_all (MStr k (rev (escape s) @ acc)) st r"
proof (induction s arbitrary: acc rule: length_induct)
  case (1 s)
  then have IH: "length t < length s \<Longrightarrow>
      scan_all (MStr k a) st (escape t @ r) = scan_all (MStr k (rev (escape t) @ a)) st r" for t a
    by blast
  show ?case
  proof (cases s rule: escape_cases)
    case (short c e cs)
    then show ?thesis using IH [of cs] by simp
  next
    case (ctl c cs)
    then show ?thesis using IH [of cs] scan_u00 [OF ctl(2), of k acc st "escape cs @ r"] by simp
  next
    case (ls cs)
    then show ?thesis using IH [of cs] scan_2028(1) [of k acc st "escape cs @ r"] by simp
  next
    case (ps cs)
    then show ?thesis using IH [of cs] scan_2028(2) [of k acc st "escape cs @ r"] by simp
  next
    case (plain c cs)
    then show ?thesis using IH [of cs] by simp
  qed simp
qed

lemma scan_quote:
  "scan_all MVal st (quote s @ r) = scan_all (MAfter (JStr s)) st r"
  "scan_all MKey (FMem ms # st) (quote s @ r) = scan_all MColon (FKey ms s # st) r"
  by (simp_all add: quote_def begin_value_def is_space_def scan_escape close_string_def)

text \<open>What may stand after a value: the end of the text or a separator.\<close>

definition separated :: "string \<Rightarrow> bool" where
  "separated r \<longleftrightarrow> r = [] \<or> hd r \<in> {CHR '','', CHR '']'', CHR ''}''}"

lemma separated_Cons [simp]:
  "separated (CHR '','' # r)" "separated (CHR '']'' # r)" "separated (CHR ''}'' # r)"
  "separated []"
  by (simp_all add: separated_def)

lemma num_step_separator: "c \<in> {CHR '','', CHR '']'', CHR ''}''} \<Longrightarrow> num_step n c = None"
  by (cases n) (auto simp: is_digit_def)

lemma scan_num_end:
  "num_done n \<Longrightarrow> separated r \<Longrightarrow>
   scan_all (MNum n acc) st r = scan_all (MAfter (JNum (rev acc))) st r"
  by (cases r) (simp_all add: separated_def at_eof_def num_step_separator)

lemma scan_num_run:
  "num_run n s = Some n' \<Longrightarrow>
   scan_all (MNum n acc) st (s @ r) = scan_all (MNum n' (rev s @ acc)) st r"
  by (induction s arbitrary: n acc) (auto split: option.splits)

lemma num_start_class: "num_start c = Some n \<Longrightarrow> c = CHR ''-'' \<or> is_digit c"
  by (auto simp: num_start_def is_digit_def split: if_splits)

lemma begin_number:
  assumes "num_start c = Some n"
  shows "begin_value m st c = Some (MNum n [c], st)"
proof -
  have "\<not> is_space c \<and> c \<noteq> CHR ''{'' \<and> c \<noteq> CHR ''['' \<and> c \<noteq> dq \<and> c \<noteq> CHR ''t'' \<and> c \<noteq> CHR ''f'' \<and>
    c \<noteq> CHR ''n''"
    using num_start_class [OF assms] by (auto simp: is_digit_def is_space_def)
  then show ?thesis using assms by (simp add: begin_value_def)
qed

lemma scan_number:
  assumes "is_number s" "separated r"
  shows "scan_all MVal st (s @ r) = scan_all (MAfter (JNum s)) st r"
proof -
  obtain c cs n n' where s: "s = c # cs" and c: "num_start c = Some n"
    and n': "num_run n cs = Some n'" "num_done n'"
    using assms(1) by (auto simp: is_number_def split: list.splits option.splits)
  show ?thesis
    using scan_num_run [OF n'(1)] scan_num_end [OF n'(2) assms(2)]
    by (simp add: s begin_number [OF c])
qed

text \<open>The reading of one value, as the induction needs it.\<close>

definition reads :: "json \<Rightarrow> bool" where
  "reads v \<longleftrightarrow>
     (\<forall>st r. wf_json v \<longrightarrow> length st + jdepth v \<le> maxNestingDepth \<longrightarrow> separated r \<longrightarrow>
        scan_all MVal st (print_json v @ r) = scan_all (MAfter v) st r)"

lemma readsD:
  "reads v \<Longrightarrow> wf_json v \<Longrightarrow> length st + jdepth v \<le> maxNestingDepth \<Longrightarrow> separated r \<Longrightarrow>
   scan_all MVal st (print_json v @ r) = scan_all (MAfter v) st r"
  by (simp add: reads_def)

lemma print_json_first:
  "wf_json v \<Longrightarrow> \<exists>c cs. print_json v = c # cs \<and> \<not> is_space c \<and> c \<noteq> CHR '']''"
  by (cases v)
    (auto simp: quote_def is_space_def is_number_def is_digit_def split: list.splits option.splits
      dest!: num_start_class)

lemma begin_value_mode: "\<not> is_space c \<Longrightarrow> begin_value m st c = begin_value m' st c"
  by (simp add: begin_value_def push_def)

lemma scan_first_element:
  "wf_json v \<Longrightarrow>
   scan_all MValOrEnd st (print_json v @ r) = scan_all MVal st (print_json v @ r)"
  using print_json_first [of v] begin_value_mode [of _ MValOrEnd st MVal] by auto

lemma scan_elements:
  assumes "vs \<noteq> []" "list_all wf_json vs" "\<forall>v \<in> set vs. reads v"
    "length st + Suc (foldr max (map jdepth vs) 0) \<le> maxNestingDepth"
  shows "scan_all MVal (FArr xs # st) (commas (map print_json vs) @ CHR '']'' # r) =
         scan_all (MAfter (JArr (rev xs @ vs))) st r"
  using assms
proof (induction vs arbitrary: xs rule: list_nonempty_induct)
  case (single v)
  then show ?case
    using readsD [of v "FArr xs # st" "CHR '']'' # r"] by (simp add: end_value_def is_space_def)
next
  case (cons v vs)
  obtain w ws where vs: "vs = w # ws" using cons.hyps by (cases vs) auto
  have "scan_all MVal (FArr xs # st) (print_json v @ CHR '','' # commas (map print_json vs) @ CHR '']'' # r)
      = scan_all (MAfter v) (FArr xs # st) (CHR '','' # commas (map print_json vs) @ CHR '']'' # r)"
    using cons.prems by (intro readsD) auto
  also have "\<dots> = scan_all MVal (FArr (v # xs) # st) (commas (map print_json vs) @ CHR '']'' # r)"
    by (simp add: end_value_def is_space_def)
  also have "\<dots> = scan_all (MAfter (JArr (rev (v # xs) @ vs))) st r"
    using cons.prems by (intro cons.IH) auto
  finally show ?case by (simp add: vs)
qed

abbreviation print_member :: "string \<times> json \<Rightarrow> string" where
  "print_member m \<equiv> quote (fst m) @ CHR '':'' # print_json (snd m)"

lemma scan_member:
  assumes "reads v" "wf_json v" "length st + Suc (jdepth v) \<le> maxNestingDepth" "separated r"
  shows "scan_all MKey (FMem ms # st) (print_member (k, v) @ r) =
         scan_all (MAfter v) (FKey ms k # st) r"
  using readsD [OF assms(1,2) _ assms(4), of "FKey ms k # st"] assms(3)
  by (simp add: scan_quote is_space_def)

lemma scan_members:
  assumes "ns \<noteq> []" "list_all (\<lambda>m. wf_json (snd m)) ns" "\<forall>m \<in> set ns. reads (snd m)"
    "length st + Suc (foldr max (map (\<lambda>m. jdepth (snd m)) ns) 0) \<le> maxNestingDepth"
  shows "scan_all MKey (FMem ms # st) (commas (map print_member ns) @ CHR ''}'' # r) =
         scan_all (MAfter (JObj (rev ms @ ns))) st r"
  using assms
proof (induction ns arbitrary: ms rule: list_nonempty_induct)
  case (single m)
  then show ?case
    using scan_member [of "snd m" st "CHR ''}'' # r" ms "fst m"]
    by (simp add: end_value_def is_space_def)
next
  case (cons m ns)
  obtain n ns' where ns: "ns = n # ns'" using cons.hyps by (cases ns) auto
  let ?r = "CHR '','' # commas (map print_member ns) @ CHR ''}'' # r"
  have "scan_all MKey (FMem ms # st) (print_member (fst m, snd m) @ ?r)
      = scan_all (MAfter (snd m)) (FKey ms (fst m) # st) ?r"
    using cons.prems by (intro scan_member) auto
  also have "\<dots> = scan_all MKey (FMem (m # ms) # st) (commas (map print_member ns) @ CHR ''}'' # r)"
    by (simp add: end_value_def is_space_def)
  also have "\<dots> = scan_all (MAfter (JObj (rev (m # ms) @ ns))) st r"
    using cons.prems by (intro cons.IH) auto
  finally show ?case by (simp add: ns)
qed

lemma scan_array:
  assumes "\<And>v. v \<in> set vs \<Longrightarrow> reads v"
  shows "reads (JArr vs)"
  unfolding reads_def
proof (intro allI impI)
  fix st :: "frame list" and r :: string
  assume wf: "wf_json (JArr vs)" and d: "length st + jdepth (JArr vs) \<le> maxNestingDepth"
    and r: "separated r"
  have open_arr: "scan_all MVal st (CHR ''['' # t) = scan_all MValOrEnd (FArr [] # st) t" for t
    using d by (simp add: begin_value_def is_space_def push_def)
  show "scan_all MVal st (print_json (JArr vs) @ r) = scan_all (MAfter (JArr vs)) st r"
  proof (cases vs)
    case Nil
    then show ?thesis by (simp add: open_arr del: scan_all.simps(2)) simp
  next
    case (Cons v ws)
    have "\<exists>t. commas (map print_json vs) = print_json v @ t"
      using Cons by (cases ws) auto
    then have "scan_all MValOrEnd (FArr [] # st) (commas (map print_json vs) @ CHR '']'' # r)
        = scan_all MVal (FArr [] # st) (commas (map print_json vs) @ CHR '']'' # r)"
      using wf Cons scan_first_element [of v] by auto
    also have "\<dots> = scan_all (MAfter (JArr (rev [] @ vs))) st r"
      using assms wf d Cons by (intro scan_elements) auto
    finally show ?thesis by (simp add: open_arr del: scan_all.simps(2))
  qed
qed

lemma scan_object:
  assumes "\<And>m. m \<in> set ms \<Longrightarrow> reads (snd m)"
  shows "reads (JObj ms)"
  unfolding reads_def
proof (intro allI impI)
  fix st :: "frame list" and r :: string
  assume wf: "wf_json (JObj ms)" and d: "length st + jdepth (JObj ms) \<le> maxNestingDepth"
    and r: "separated r"
  have open_obj: "scan_all MVal st (CHR ''{'' # t) = scan_all MKeyOrEnd (FMem [] # st) t" for t
    using d by (simp add: begin_value_def is_space_def push_def)
  show "scan_all MVal st (print_json (JObj ms) @ r) = scan_all (MAfter (JObj ms)) st r"
  proof (cases ms)
    case Nil
    then show ?thesis by (simp add: open_obj del: scan_all.simps(2)) simp
  next
    case (Cons m ns)
    have "\<exists>t. commas (map print_member ms) = dq # t"
      using Cons by (cases ns) (auto simp: quote_def)
    then have "scan_all MKeyOrEnd (FMem [] # st) (commas (map print_member ms) @ CHR ''}'' # r)
        = scan_all MKey (FMem [] # st) (commas (map print_member ms) @ CHR ''}'' # r)"
      by (auto simp: is_space_def)
    also have "\<dots> = scan_all (MAfter (JObj (rev [] @ ms))) st r"
      using assms wf d Cons by (intro scan_members) auto
    finally show ?thesis by (simp add: open_obj del: scan_all.simps(2))
  qed
qed

lemma scan_scalar:
  "reads JNull" "reads (JBool b)" "reads (JNum s)" "reads (JStr s)"
  by (simp_all add: reads_def begin_value_def is_space_def scan_number scan_quote)

lemma reads_all: "reads v"
proof (induction v)
  case (JArr vs)
  then show ?case by (rule scan_array)
next
  case (JObj ms)
  then have "reads (snd m)" if "m \<in> set ms" for m
    using that by (cases m) (auto simp: snds.simps)
  then show ?case by (rule scan_object)
qed (rule scan_scalar)+

lemma parse_print:
  "wf_json v \<Longrightarrow> jdepth v \<le> maxNestingDepth \<Longrightarrow> parse_json (print_json v) = Some v"
  using readsD [OF reads_all, of v "[]" "[]"] by (simp add: parse_json_def at_eof_def)

end
