(* ===== verification/Store_Types.thy ===== *)
theory Store_Types
  imports Go_Json
begin

text \<open>
  The data of the SQLite event store: the Go structs of \<^verbatim>\<open>store/store.go\<close> the operations
  exchange, one row record per table of the schema in \<^verbatim>\<open>store/sqlite/store.go\<close> (function
  \<^verbatim>\<open>init\<close>), the \<^verbatim>\<open>CHECK\<close> constraint of each table as a predicate on rows, and the
  database record \<open>db\<close> that holds the tables. Statuses and kinds keep the strings of the
  source. A nullable column is an \<open>option\<close>; a constraint is written so that it fails
  exactly when SQL's three-valued condition is false (an unknown condition passes).
\<close>

section \<open>Structs\<close>

record PendingEvent =
  pe_Type :: string
  pe_Time :: gotime
  pe_Payload :: bytes

record Event =
  e_SessionID :: string
  e_Seq :: int
  e_Type :: string
  e_Time :: gotime
  e_Payload :: bytes

record CommandAuthority =
  ca_ConnectionEpoch :: int
  ca_CredentialGeneration :: int

record SettingsWriter =
  w_ConnectionEpoch :: int
  w_CredentialGeneration :: int
  w_LeaseID :: string

record AttentionBlocker =
  bl_Kind :: string
  bl_Reason :: "string option"
  bl_ExpiresAt :: "gotime option"
  bl_BlockingSessionID :: "string option"
  bl_Operation :: "string option"

record SessionAttentionSummary =
  su_SessionID :: string
  su_LatestSeq :: int
  su_State :: string
  su_Permission :: "(string \<times> string) option"
  su_TerminalOutcome :: "string option"
  su_LatestChangeSeq :: "int option"
  su_Blocker :: "AttentionBlocker option"
  su_SummaryVersion :: int
  su_LastDurableEventAt :: "gotime option"
  su_LastClientCommandAt :: "gotime option"
  su_StateOfProjection :: string

section \<open>Rows\<close>

record event_row =
  ev_session :: string
  ev_seq :: int
  ev_type :: string
  ev_payload :: bytes
  ev_time_ms :: int
  ev_created_ms :: int

record summary_row =
  sm_latest_seq :: int
  sm_state :: string
  sm_permission_id :: "string option"
  sm_permission_status :: "string option"
  sm_terminal_outcome :: "string option"
  sm_latest_change_seq :: "int option"
  sm_blocker_kind :: "string option"
  sm_blocker_reason :: "string option"
  sm_blocker_expires_ns :: "int option"
  sm_blocking_session :: "string option"
  sm_blocker_operation :: "string option"
  sm_summary_version :: int
  sm_last_durable_ms :: "int option"
  sm_last_client_ms :: "int option"
  sm_projection_state :: string
  sm_created_ms :: int
  sm_updated_ms :: int

record connection_row =
  cn_epoch :: int
  cn_fence :: int
  cn_active_gen :: int
  cn_high_watermark :: int
  cn_active_expires_ms :: int
  cn_pending_gen :: "int option"
  cn_pending_expires_ms :: "int option"
  cn_prior_gen :: "int option"
  cn_rotation_id :: "string option"
  cn_revoked_ms :: "int option"
  cn_terminal_ms :: "int option"
  cn_created_ms :: int
  cn_updated_ms :: int

record pending_row =
  pc_type :: string
  pc_event_seq :: int
  pc_status :: string
  pc_expires_ns :: int
  pc_created_ms :: int
  pc_updated_ms :: int

record settings_cap_row =
  sc_event_seq :: int
  sc_fingerprint :: string
  sc_model :: string
  sc_reasoning :: "string option"
  sc_permission_mode :: string
  sc_version :: int
  sc_writer :: SettingsWriter
  sc_created_ms :: int
  sc_updated_ms :: int

record settings_row =
  st_request_fingerprint :: string
  st_requested_model :: "string option"
  st_requested_reasoning :: "string option"
  st_requested_permission_mode :: "string option"
  st_reservation_version :: int
  st_delivery_deadline_ms :: int
  st_operation_deadline_ms :: "int option"
  st_writer :: SettingsWriter
  st_reserved_event_seq :: int
  st_reserved_fingerprint :: string
  st_reserved_model :: string
  st_reserved_reasoning :: "string option"
  st_reserved_permission_mode :: string
  st_status :: string
  st_terminal_seq :: "int option"
  st_created_ms :: int
  st_updated_ms :: int

record run_cap_row =
  rcc_event_seq :: int
  rcc_version :: int
  rcc_interrupt :: bool
  rcc_stop :: bool
  rcc_writer :: SettingsWriter
  rcc_created_ms :: int
  rcc_updated_ms :: int

record run_row =
  rc_operation :: string
  rc_capability_version :: int
  rc_reservation_version :: int
  rc_pre_state :: string
  rc_pre_state_seq :: int
  rc_writer :: SettingsWriter
  rc_deadline_ms :: int
  rc_status :: string
  rc_terminal_seq :: "int option"
  rc_created_ms :: int
  rc_updated_ms :: int

record file_cap_row =
  frc_event_seq :: int
  frc_fingerprint :: string
  frc_writer :: SettingsWriter
  frc_created_ms :: int
  frc_updated_ms :: int

record file_row =
  fr_message_id :: string
  fr_capability_fingerprint :: string
  fr_request_fingerprint :: string
  fr_reference_count :: int
  fr_reservation_version :: int
  fr_delivery_deadline_ms :: int
  fr_writer_epoch :: "int option"
  fr_writer_gen :: "int option"
  fr_writer_lease :: "string option"
  fr_status :: string
  fr_terminal_seq :: "int option"
  fr_created_ms :: int
  fr_updated_ms :: int

record proposal_row =
  pr_event_seq :: int
  pr_created_ms :: int

record attempt_row =
  at_attach_id :: string
  at_bootstrap :: string
  at_target :: string
  at_provider :: string
  at_domain :: string
  at_version :: int
  at_digest :: bytes
  at_key_version :: int
  at_expires_ns :: int
  at_outcome :: string
  at_issued_gen :: "int option"
  at_created_ms :: int

record attachment_row =
  ac_bootstrap :: string
  ac_target :: string
  ac_status :: string
  ac_delivery_state :: string
  ac_delivery_version :: int
  ac_queue_reason :: "string option"
  ac_expires_ns :: "int option"
  ac_canceled_ms :: "int option"
  ac_blocking_session :: "string option"
  ac_lineage_ref :: string
  ac_created_ms :: int
  ac_updated_ms :: int

record lease_row =
  wl_worker :: string
  wl_session :: string
  wl_epoch :: int
  wl_gen :: int
  wl_lease_id :: string
  wl_child_parent :: "bytes option"
  wl_child_digest :: "bytes option"
  wl_child_expires_ns :: "int option"
  wl_status :: string
  wl_version :: int
  wl_expires_ns :: int
  wl_created_ms :: int
  wl_updated_ms :: int

section \<open>The database\<close>

record db =
  session_events :: "event_row list"
  session_attention_summaries :: "(string, summary_row) table"
  migration_state :: string
  migration_checkpoint :: string
  session_adapter_connections :: "(string, connection_row) table"
  session_settings_live_writers :: "(string, SettingsWriter) table"
  session_pending_commands :: "(string \<times> string, pending_row) table"
  session_settings_capabilities :: "(string, settings_cap_row) table"
  session_settings_commands :: "(string \<times> string, settings_row) table"
  session_run_control_capabilities :: "(string, run_cap_row) table"
  session_run_controls :: "(string \<times> string, run_row) table"
  session_file_reference_capabilities :: "(string, file_cap_row) table"
  session_file_reference_commands :: "(string \<times> string, file_row) table"
  session_event_proposals :: "(string \<times> string, proposal_row) table"
  session_attach_attempts :: "(bytes, attempt_row) table"
  session_attachments :: "(string, attachment_row) table"
  session_workspace_leases :: "(bytes, lease_row) table"
  main_next_fence :: int
  side_next_fence :: int

text \<open>What \<^verbatim>\<open>init\<close> leaves in a new file: empty tables, a complete migration marker and
  both fence allocators at 1.\<close>

definition initial_db :: db where
  "initial_db =
     \<lparr>session_events = [], session_attention_summaries = [], migration_state = ''complete'',
      migration_checkpoint = [], session_adapter_connections = [], session_settings_live_writers = [],
      session_pending_commands = [], session_settings_capabilities = [],
      session_settings_commands = [], session_run_control_capabilities = [],
      session_run_controls = [], session_file_reference_capabilities = [],
      session_file_reference_commands = [], session_event_proposals = [],
      session_attach_attempts = [], session_attachments = [], session_workspace_leases = [],
      main_next_fence = 1, side_next_fence = 1\<rparr>"

section \<open>Constraints\<close>

text \<open>SQL's \<^verbatim>\<open>length\<close> of a text: its characters up to the first NUL.\<close>

definition sql_length :: "string \<Rightarrow> nat" where
  "sql_length s =
     length (filter (\<lambda>c. \<not> (128 \<le> code c \<and> code c < 192)) (takeWhile (\<lambda>c. c \<noteq> CHR 0x00) s))"

definition len_between :: "string \<Rightarrow> nat \<Rightarrow> nat \<Rightarrow> bool" where
  "len_between s lo hi \<longleftrightarrow> lo \<le> sql_length s \<and> sql_length s \<le> hi"

definition opt_all :: "('a \<Rightarrow> bool) \<Rightarrow> 'a option \<Rightarrow> bool" where
  "opt_all P x = (case x of None \<Rightarrow> True | Some y \<Rightarrow> P y)"

lemma opt_all_simps [simp]: "opt_all P None" "opt_all P (Some x) = P x"
  by (simp_all add: opt_all_def)

definition sha256_text :: "string \<Rightarrow> bool" where
  "sha256_text s \<longleftrightarrow> sql_length s = 71 \<and> take 7 s = ''sha256:''"

definition attention_states :: "string list" where
  "attention_states =
     [''starting'', ''ready'', ''busy'', ''waiting_permission'', ''recovering'', ''ended'', ''error'']"

definition check_event_row :: "event_row \<Rightarrow> bool" where
  "check_event_row r \<longleftrightarrow> ev_seq r > 0"

definition check_blocker :: "summary_row \<Rightarrow> bool" where
  "check_blocker r =
     (case sm_blocker_kind r of
        None \<Rightarrow> sm_blocker_operation r = None \<or>
          (sm_blocker_reason r = None \<and> sm_blocker_expires_ns r = None \<and> sm_blocking_session r = None)
      | Some k \<Rightarrow>
          (k = ''queued'' \<and> sm_blocker_operation r = None) \<or>
          (k = ''outcome_unknown'' \<and> sm_blocker_reason r = None \<and> sm_blocker_expires_ns r = None \<and>
             sm_blocking_session r = None) \<or>
          (k \<in> {''reauthorization_required'', ''new_run_required''} \<and> sm_blocker_reason r = None \<and>
             sm_blocker_expires_ns r = None \<and> sm_blocking_session r = None \<and>
             sm_blocker_operation r = None))"

definition check_summary_row :: "string \<Rightarrow> summary_row \<Rightarrow> bool" where
  "check_summary_row sid r \<longleftrightarrow>
     len_between sid 1 255 \<and> sm_latest_seq r \<ge> 0 \<and> sm_state r \<in> set attention_states \<and>
     sm_summary_version r \<ge> 0 \<and> sm_projection_state r \<in> {''complete'', ''incomplete''} \<and>
     opt_all (\<lambda>c. c > 0 \<and> c \<le> sm_latest_seq r) (sm_latest_change_seq r) \<and>
     opt_all (\<lambda>p. len_between p 1 255) (sm_permission_id r) \<and>
     opt_all (\<lambda>s. s = ''pending'') (sm_permission_status r) \<and>
     opt_all (\<lambda>t. len_between t 1 128) (sm_terminal_outcome r) \<and>
     opt_all (\<lambda>b. len_between b 1 255) (sm_blocking_session r) \<and>
     opt_all (\<lambda>b. len_between b 1 128) (sm_blocker_reason r) \<and>
     opt_all (\<lambda>b. len_between b 1 128) (sm_blocker_operation r) \<and>
     check_blocker r"

definition check_connection_row :: "string \<Rightarrow> connection_row \<Rightarrow> bool" where
  "check_connection_row sid r \<longleftrightarrow>
     len_between sid 1 255 \<and> cn_epoch r \<ge> 0 \<and> cn_fence r \<ge> 0 \<and> cn_active_gen r > 0 \<and>
     cn_high_watermark r > 0 \<and>
     opt_all (\<lambda>g. g > 0) (cn_pending_gen r) \<and> opt_all (\<lambda>g. g > 0) (cn_prior_gen r) \<and>
     opt_all (\<lambda>i. len_between i 1 255) (cn_rotation_id r) \<and>
     cn_active_expires_ms r > cn_created_ms r \<and>
     ((cn_pending_gen r = None \<and> cn_pending_expires_ms r = None \<and> cn_rotation_id r = None) \<or>
      (cn_pending_gen r \<noteq> None \<and> cn_pending_expires_ms r \<noteq> None \<and> cn_rotation_id r \<noteq> None)) \<and>
     cn_active_gen r \<le> cn_high_watermark r \<and>
     opt_all (\<lambda>g. g \<le> cn_high_watermark r) (cn_pending_gen r) \<and>
     opt_all (\<lambda>g. g \<le> cn_high_watermark r) (cn_prior_gen r) \<and>
     opt_all (\<lambda>g. g \<noteq> cn_active_gen r) (cn_pending_gen r) \<and>
     opt_all (\<lambda>g. g \<noteq> cn_active_gen r) (cn_prior_gen r) \<and>
     opt_all (\<lambda>g. opt_all (\<lambda>h. g \<noteq> h) (cn_prior_gen r)) (cn_pending_gen r) \<and>
     opt_all (\<lambda>t. t \<ge> cn_created_ms r) (cn_revoked_ms r) \<and>
     opt_all (\<lambda>t. t \<ge> cn_created_ms r) (cn_terminal_ms r)"

definition check_writer :: "SettingsWriter \<Rightarrow> bool" where
  "check_writer w \<longleftrightarrow>
     w_ConnectionEpoch w > 0 \<and> w_CredentialGeneration w > 0 \<and> len_between (w_LeaseID w) 1 255"

definition encrypted_command_types :: "string list" where
  "encrypted_command_types =
     [''session.send'', ''session.interrupt'', ''session.stop'', ''permission.respond'',
      ''session.settings.change'', ''session.membership.change'', ''session.file.read'',
      ''session.file.list'']"

definition ValidEncryptedCommandType :: "string \<Rightarrow> bool" where
  "ValidEncryptedCommandType kind \<longleftrightarrow> kind \<in> set encrypted_command_types"

definition check_pending_row :: "string \<times> string \<Rightarrow> pending_row \<Rightarrow> bool" where
  "check_pending_row k r \<longleftrightarrow>
     len_between (fst k) 1 255 \<and> len_between (snd k) 1 256 \<and>
     pc_type r \<in> set encrypted_command_types \<and> pc_event_seq r > 0 \<and>
     pc_status r \<in> {''pending'', ''received'', ''completed'', ''outcome_unknown''} \<and>
     pc_expires_ns r > pc_created_ms r * ms_ns \<and>
     pc_expires_ns r \<le> (pc_created_ms r + 30000) * ms_ns"

definition check_settings_cap_row :: "string \<Rightarrow> settings_cap_row \<Rightarrow> bool" where
  "check_settings_cap_row sid r \<longleftrightarrow>
     len_between sid 1 255 \<and> sha256_text (sc_fingerprint r) \<and> len_between (sc_model r) 1 128 \<and>
     opt_all (\<lambda>x. len_between x 1 128) (sc_reasoning r) \<and> len_between (sc_permission_mode r) 1 128 \<and>
     sc_version r > 0 \<and> check_writer (sc_writer r)"

definition settings_nonterminal :: "string list" where
  "settings_nonterminal = [''delivery_pending'', ''pending'', ''recovery_pending'']"

definition settings_terminal :: "string list" where
  "settings_terminal =
     [''applied'', ''rejected'', ''timeout'', ''unsupported'', ''stale_capability'', ''outcome_unknown'',
      ''mismatched_effective'']"

definition check_settings_row :: "string \<times> string \<Rightarrow> settings_row \<Rightarrow> bool" where
  "check_settings_row k r \<longleftrightarrow>
     len_between (fst k) 1 255 \<and> len_between (snd k) 1 256 \<and> sha256_text (st_request_fingerprint r) \<and>
     opt_all (\<lambda>x. len_between x 1 128) (st_requested_model r) \<and>
     opt_all (\<lambda>x. len_between x 1 128) (st_requested_reasoning r) \<and>
     opt_all (\<lambda>x. len_between x 1 128) (st_requested_permission_mode r) \<and>
     st_reservation_version r > 0 \<and> check_writer (st_writer r) \<and>
     sha256_text (st_reserved_fingerprint r) \<and> len_between (st_reserved_model r) 1 128 \<and>
     opt_all (\<lambda>x. len_between x 1 128) (st_reserved_reasoning r) \<and>
     len_between (st_reserved_permission_mode r) 1 128 \<and>
     st_status r \<in> set (settings_nonterminal @ settings_terminal) \<and>
     (st_requested_model r \<noteq> None \<or> st_requested_reasoning r \<noteq> None \<or>
      st_requested_permission_mode r \<noteq> None) \<and>
     ((st_status r = ''delivery_pending'' \<and> st_operation_deadline_ms r = None \<and>
         st_terminal_seq r = None) \<or>
      (st_status r \<in> {''pending'', ''recovery_pending''} \<and> st_operation_deadline_ms r \<noteq> None \<and>
         st_terminal_seq r = None) \<or>
      (st_status r \<in> set settings_terminal \<and> st_terminal_seq r \<noteq> None)) \<and>
     st_delivery_deadline_ms r > st_created_ms r \<and>
     st_delivery_deadline_ms r \<le> st_created_ms r + 5000 \<and>
     opt_all (\<lambda>d. d > st_created_ms r \<and> d \<le> st_created_ms r + 35000) (st_operation_deadline_ms r)"

definition check_run_cap_row :: "string \<Rightarrow> run_cap_row \<Rightarrow> bool" where
  "check_run_cap_row sid r \<longleftrightarrow>
     len_between sid 1 255 \<and> rcc_version r > 0 \<and> check_writer (rcc_writer r)"

definition run_pre_states :: "string list" where
  "run_pre_states = [''starting'', ''ready'', ''busy'', ''waiting_permission'', ''recovering'']"

definition check_run_row :: "string \<times> string \<Rightarrow> run_row \<Rightarrow> bool" where
  "check_run_row k r \<longleftrightarrow>
     len_between (fst k) 1 255 \<and> len_between (snd k) 1 256 \<and>
     rc_operation r \<in> {''interrupt'', ''stop''} \<and> rc_capability_version r > 0 \<and>
     rc_reservation_version r > 0 \<and> rc_pre_state r \<in> set run_pre_states \<and> rc_pre_state_seq r > 0 \<and>
     check_writer (rc_writer r) \<and>
     rc_status r \<in> {''pending'', ''completed'', ''rejected'', ''timeout'', ''unsupported'', ''outcome_unknown''} \<and>
     rc_deadline_ms r > rc_created_ms r \<and> rc_deadline_ms r \<le> rc_created_ms r + 30000 \<and>
     (rc_operation r = ''interrupt'' \<longrightarrow> rc_pre_state r = ''busy'') \<and>
     (rc_status r = ''pending'' \<longleftrightarrow> rc_terminal_seq r = None)"

definition check_file_cap_row :: "string \<Rightarrow> file_cap_row \<Rightarrow> bool" where
  "check_file_cap_row sid r \<longleftrightarrow>
     len_between sid 1 255 \<and> sql_length (frc_fingerprint r) = 71 \<and> check_writer (frc_writer r)"

definition check_file_row :: "string \<times> string \<Rightarrow> file_row \<Rightarrow> bool" where
  "check_file_row k r \<longleftrightarrow>
     len_between (fst k) 1 255 \<and> len_between (snd k) 1 256 \<and> len_between (fr_message_id r) 1 256 \<and>
     sql_length (fr_capability_fingerprint r) = 71 \<and> sql_length (fr_request_fingerprint r) = 71 \<and>
     fr_reference_count r \<ge> 1 \<and> fr_reference_count r \<le> 8 \<and> fr_reservation_version r > 0 \<and>
     fr_delivery_deadline_ms r > fr_created_ms r \<and>
     fr_delivery_deadline_ms r \<le> fr_created_ms r + 600000 \<and>
     ((fr_status r = ''delivery_pending'' \<and> fr_writer_epoch r = None \<and> fr_writer_gen r = None \<and>
         fr_writer_lease r = None \<and> fr_terminal_seq r = None) \<or>
      (fr_status r = ''pending'' \<and> fr_writer_epoch r \<noteq> None \<and> fr_writer_gen r \<noteq> None \<and>
         fr_writer_lease r \<noteq> None \<and> fr_terminal_seq r = None) \<or>
      (fr_status r \<in> {''delivered'', ''rejected'', ''outcome_unknown''} \<and> fr_terminal_seq r \<noteq> None))"

definition check_proposal_row :: "string \<times> string \<Rightarrow> proposal_row \<Rightarrow> bool" where
  "check_proposal_row k r \<longleftrightarrow>
     len_between (fst k) 1 255 \<and> len_between (snd k) 1 255 \<and> pr_event_seq r > 0 \<and> pr_created_ms r > 0"

definition check_attempt_row :: "bytes \<Rightarrow> attempt_row \<Rightarrow> bool" where
  "check_attempt_row jti r \<longleftrightarrow>
     length jti = 32 \<and> len_between (at_attach_id r) 1 255 \<and> len_between (at_bootstrap r) 1 255 \<and>
     len_between (at_target r) 1 255 \<and> len_between (at_provider r) 1 128 \<and>
     at_domain r = ''agentwharf.attach-request.v1'' \<and> at_version r = 1 \<and> length (at_digest r) = 32 \<and>
     at_key_version r > 0 \<and> at_expires_ns r > at_created_ms r * ms_ns \<and> at_created_ms r > 0 \<and>
     at_bootstrap r \<noteq> at_target r \<and>
     ((at_outcome r = ''accepted'' \<and> opt_all (\<lambda>g. g > 0) (at_issued_gen r)) \<or>
      (at_outcome r = ''rejected'' \<and> at_issued_gen r = None))"

definition check_attachment_row :: "string \<Rightarrow> attachment_row \<Rightarrow> bool" where
  "check_attachment_row aid r \<longleftrightarrow>
     len_between aid 1 255 \<and> len_between (ac_bootstrap r) 1 255 \<and> len_between (ac_target r) 1 255 \<and>
     ac_status r \<in> {''join_pending'', ''queued'', ''start_received'', ''reauthorization_required'', ''canceled''} \<and>
     ac_delivery_state r \<in> {''pending'', ''received'', ''completed'', ''outcome_unknown''} \<and>
     ac_delivery_version r \<ge> 0 \<and> opt_all (\<lambda>q. len_between q 1 128) (ac_queue_reason r) \<and>
     opt_all (\<lambda>b. len_between b 1 255) (ac_blocking_session r) \<and> len_between (ac_lineage_ref r) 1 255 \<and>
     ac_bootstrap r \<noteq> ac_target r \<and> opt_all (\<lambda>b. b \<noteq> ac_target r) (ac_blocking_session r) \<and>
     opt_all (\<lambda>x. x > ac_created_ms r * ms_ns) (ac_expires_ns r) \<and>
     opt_all (\<lambda>x. x \<ge> ac_created_ms r) (ac_canceled_ms r)"

definition check_lease_row :: "bytes \<Rightarrow> lease_row \<Rightarrow> bool" where
  "check_lease_row key r \<longleftrightarrow>
     length key = 32 \<and> len_between (wl_worker r) 1 255 \<and> len_between (wl_session r) 1 255 \<and>
     wl_epoch r > 0 \<and> wl_gen r > 0 \<and> len_between (wl_lease_id r) 1 255 \<and>
     opt_all (\<lambda>x. length x = 32) (wl_child_parent r) \<and> opt_all (\<lambda>x. length x = 32) (wl_child_digest r) \<and>
     wl_status r \<in> {''reserved'', ''start_received'', ''quarantined'', ''released''} \<and> wl_version r > 0 \<and>
     wl_created_ms r > 0 \<and> wl_updated_ms r \<ge> wl_created_ms r \<and>
     wl_expires_ns r > wl_created_ms r * ms_ns \<and>
     ((wl_child_parent r = None \<and> wl_child_digest r = None \<and> wl_child_expires_ns r = None) \<or>
      (wl_child_parent r \<noteq> None \<and> wl_child_digest r \<noteq> None \<and> wl_child_expires_ns r \<noteq> None))"

section \<open>Table writes\<close>

text \<open>Constraint failures of the engine; \<open>has_event\<close> is the target of the foreign keys.\<close>

abbreviation constraint_failed :: err where
  "constraint_failed \<equiv> Fail ''constraint failed''"

definition event_exists :: "event_row list \<Rightarrow> string \<Rightarrow> int \<Rightarrow> bool" where
  "event_exists es sid n \<longleftrightarrow> (\<exists>r \<in> set es. ev_session r = sid \<and> ev_seq r = n)"

abbreviation has_event :: "db \<Rightarrow> string \<Rightarrow> int \<Rightarrow> bool" where
  "has_event d \<equiv> event_exists (session_events d)"

text \<open>The value of \<^verbatim>\<open>SELECT COALESCE(MAX(seq), 0) ... WHERE session_id = ?\<close>.\<close>

definition max_seq :: "event_row list \<Rightarrow> string \<Rightarrow> int" where
  "max_seq es sid = max0 (map ev_seq (filter (\<lambda>r. ev_session r = sid) es))"

abbreviation latest_seq :: "db \<Rightarrow> string \<Rightarrow> int" where
  "latest_seq d \<equiv> max_seq (session_events d)"

definition insert_event :: "event_row \<Rightarrow> db \<Rightarrow> db res" where
  "insert_event r d =
     (if \<not> check_event_row r \<or> has_event d (ev_session r) (ev_seq r) then Inl constraint_failed
      else Inr (d\<lparr>session_events := session_events d @ [r]\<rparr>))"

definition put_summary :: "string \<Rightarrow> summary_row \<Rightarrow> db \<Rightarrow> db res" where
  "put_summary sid r d =
     (if \<not> check_summary_row sid r then Inl constraint_failed
      else Inr (d\<lparr>session_attention_summaries :=
                   AList.update sid r (session_attention_summaries d)\<rparr>))"

text \<open>\<^verbatim>\<open>INSERT OR IGNORE\<close>: a row that violates a constraint is skipped.\<close>

definition insert_or_ignore_connection :: "string \<Rightarrow> connection_row \<Rightarrow> db \<Rightarrow> db" where
  "insert_or_ignore_connection sid r d =
     (if \<not> check_connection_row sid r \<or> map_of (session_adapter_connections d) sid \<noteq> None then d
      else d\<lparr>session_adapter_connections :=
               AList.update sid r (session_adapter_connections d)\<rparr>)"

text \<open>
  An update of a connection row also runs the trigger
  \<^verbatim>\<open>session_adapter_connections_advance_fence\<close>: a changed accepted fence must grow and must
  already have been allocated.
\<close>

definition update_connection :: "string \<Rightarrow> connection_row \<Rightarrow> db \<Rightarrow> db res" where
  "update_connection sid r d =
     (case map_of (session_adapter_connections d) sid of
        None \<Rightarrow> Inr d
      | Some old \<Rightarrow>
          if cn_fence r \<noteq> cn_fence old \<and> (cn_fence r \<le> cn_fence old \<or> cn_fence r \<ge> main_next_fence d)
          then Inl (Fail ''adapter accepted fence is not allocator-owned'')
          else if \<not> check_connection_row sid r then Inl constraint_failed
          else Inr (d\<lparr>session_adapter_connections :=
                       AList.update sid r (session_adapter_connections d)\<rparr>))"

text \<open>Writes of the ledgers, with their foreign keys and partial unique indexes.\<close>

definition put_live_writer :: "string \<Rightarrow> SettingsWriter \<Rightarrow> db \<Rightarrow> db res" where
  "put_live_writer sid w d =
     (if \<not> len_between sid 1 255 \<or> \<not> check_writer w then Inl constraint_failed
      else Inr (d\<lparr>session_settings_live_writers :=
                   AList.update sid w (session_settings_live_writers d)\<rparr>))"

definition put_pending :: "string \<times> string \<Rightarrow> pending_row \<Rightarrow> db \<Rightarrow> db res" where
  "put_pending k r d =
     (if \<not> check_pending_row k r \<or> \<not> has_event d (fst k) (pc_event_seq r) then Inl constraint_failed
      else Inr (d\<lparr>session_pending_commands := AList.update k r (session_pending_commands d)\<rparr>))"

definition insert_pending :: "string \<times> string \<Rightarrow> pending_row \<Rightarrow> db \<Rightarrow> db res" where
  "insert_pending k r d =
     (if map_of (session_pending_commands d) k \<noteq> None then Inl constraint_failed
      else put_pending k r d)"

definition put_settings_cap :: "string \<Rightarrow> settings_cap_row \<Rightarrow> db \<Rightarrow> db res" where
  "put_settings_cap sid r d =
     (if \<not> check_settings_cap_row sid r \<or> \<not> has_event d sid (sc_event_seq r) then Inl constraint_failed
      else Inr (d\<lparr>session_settings_capabilities :=
                   AList.update sid r (session_settings_capabilities d)\<rparr>))"

definition other_active ::
  "('r \<Rightarrow> bool) \<Rightarrow> (string \<times> string, 'r) table \<Rightarrow> string \<times> string \<Rightarrow> bool" where
  "other_active P t k \<longleftrightarrow> (\<exists>(k', r) \<in> set t. k' \<noteq> k \<and> fst k' = fst k \<and> P r)"

abbreviation settings_active :: "settings_row \<Rightarrow> bool" where
  "settings_active r \<equiv> st_status r \<in> set settings_nonterminal"

abbreviation run_active :: "run_row \<Rightarrow> bool" where
  "run_active r \<equiv> rc_status r = ''pending''"

abbreviation file_active :: "file_row \<Rightarrow> bool" where
  "file_active r \<equiv> fr_status r = ''delivery_pending'' \<or> fr_status r = ''pending''"

definition put_settings :: "string \<times> string \<Rightarrow> settings_row \<Rightarrow> db \<Rightarrow> db res" where
  "put_settings k r d =
     (if \<not> check_settings_row k r \<or> \<not> opt_all (has_event d (fst k)) (st_terminal_seq r) \<or>
         \<not> has_event d (fst k) (st_reserved_event_seq r) \<or>
         (settings_active r \<and> other_active settings_active (session_settings_commands d) k)
      then Inl constraint_failed
      else Inr (d\<lparr>session_settings_commands := AList.update k r (session_settings_commands d)\<rparr>))"

definition put_run_cap :: "string \<Rightarrow> run_cap_row \<Rightarrow> db \<Rightarrow> db res" where
  "put_run_cap sid r d =
     (if \<not> check_run_cap_row sid r \<or> \<not> has_event d sid (rcc_event_seq r) then Inl constraint_failed
      else Inr (d\<lparr>session_run_control_capabilities :=
                   AList.update sid r (session_run_control_capabilities d)\<rparr>))"

definition put_run :: "string \<times> string \<Rightarrow> run_row \<Rightarrow> db \<Rightarrow> db res" where
  "put_run k r d =
     (if \<not> check_run_row k r \<or> \<not> opt_all (has_event d (fst k)) (rc_terminal_seq r) \<or>
         (run_active r \<and> other_active run_active (session_run_controls d) k)
      then Inl constraint_failed
      else Inr (d\<lparr>session_run_controls := AList.update k r (session_run_controls d)\<rparr>))"

definition put_file_cap :: "string \<Rightarrow> file_cap_row \<Rightarrow> db \<Rightarrow> db res" where
  "put_file_cap sid r d =
     (if \<not> check_file_cap_row sid r \<or> \<not> has_event d sid (frc_event_seq r) then Inl constraint_failed
      else Inr (d\<lparr>session_file_reference_capabilities :=
                   AList.update sid r (session_file_reference_capabilities d)\<rparr>))"

definition put_file :: "string \<times> string \<Rightarrow> file_row \<Rightarrow> db \<Rightarrow> db res" where
  "put_file k r d =
     (if \<not> check_file_row k r \<or> \<not> opt_all (has_event d (fst k)) (fr_terminal_seq r) \<or>
         (file_active r \<and> other_active file_active (session_file_reference_commands d) k)
      then Inl constraint_failed
      else Inr (d\<lparr>session_file_reference_commands :=
                   AList.update k r (session_file_reference_commands d)\<rparr>))"

definition insert_proposal :: "string \<times> string \<Rightarrow> proposal_row \<Rightarrow> db \<Rightarrow> db res" where
  "insert_proposal k r d =
     (if \<not> check_proposal_row k r \<or> \<not> has_event d (fst k) (pr_event_seq r) \<or>
         map_of (session_event_proposals d) k \<noteq> None \<or>
         (\<exists>(k', r') \<in> set (session_event_proposals d). fst k' = fst k \<and> pr_event_seq r' = pr_event_seq r)
      then Inl constraint_failed
      else Inr (d\<lparr>session_event_proposals := AList.update k r (session_event_proposals d)\<rparr>))"

definition insert_attempt :: "bytes \<Rightarrow> attempt_row \<Rightarrow> db \<Rightarrow> db res" where
  "insert_attempt jti r d =
     (if \<not> check_attempt_row jti r \<or> map_of (session_attach_attempts d) jti \<noteq> None
      then Inl constraint_failed
      else Inr (d\<lparr>session_attach_attempts := AList.update jti r (session_attach_attempts d)\<rparr>))"

definition put_attachment :: "string \<Rightarrow> attachment_row \<Rightarrow> db \<Rightarrow> db res" where
  "put_attachment aid r d =
     (if \<not> check_attachment_row aid r \<or>
         (\<exists>(a, r') \<in> set (session_attachments d). a \<noteq> aid \<and> ac_target r' = ac_target r)
      then Inl constraint_failed
      else Inr (d\<lparr>session_attachments := AList.update aid r (session_attachments d)\<rparr>))"

definition insert_attachment :: "string \<Rightarrow> attachment_row \<Rightarrow> db \<Rightarrow> db res" where
  "insert_attachment aid r d =
     (if map_of (session_attachments d) aid \<noteq> None then Inl constraint_failed
      else put_attachment aid r d)"

definition put_lease :: "bytes \<Rightarrow> lease_row \<Rightarrow> db \<Rightarrow> db res" where
  "put_lease key r d =
     (if \<not> check_lease_row key r then Inl constraint_failed
      else Inr (d\<lparr>session_workspace_leases := AList.update key r (session_workspace_leases d)\<rparr>))"

text \<open>\<^verbatim>\<open>INSERT OR IGNORE\<close>: a row that violates a constraint is not inserted and is no error.\<close>

definition or_ignore :: "db res \<Rightarrow> db \<Rightarrow> db" where
  "or_ignore w d = (case w of Inl e \<Rightarrow> d | Inr d' \<Rightarrow> d')"

definition insert_lease :: "bytes \<Rightarrow> lease_row \<Rightarrow> db \<Rightarrow> db res" where
  "insert_lease key r d =
     (if map_of (session_workspace_leases d) key \<noteq> None then Inl constraint_failed else put_lease key r d)"

end
