(* ===== verification/Attention.thy ===== *)
theory Attention
  imports Store_Types
begin

text \<open>
  The attention projection of the SQLite store (\<^verbatim>\<open>store/sqlite/store.go\<close>): reading and
  writing one summary row, the projection of one event onto the summary, the ledger upsert, the
  snapshot and the keyset page over live sessions, and the migration backfill.
\<close>

section \<open>Summary rows\<close>

definition validConnectionID :: "string \<Rightarrow> bool" where
  "validConnectionID value \<longleftrightarrow> length value > 0 \<and> length value \<le> 255"

definition querySQLiteAttentionSummary :: "string \<Rightarrow> summary_row \<Rightarrow> SessionAttentionSummary res" where
  "querySQLiteAttentionSummary sid r =
     (if \<not> validConnectionID sid \<or> sm_latest_seq r < 0 \<or> sm_summary_version r < 0 \<or>
         (sm_projection_state r \<noteq> ''complete'' \<and> sm_projection_state r \<noteq> ''incomplete'') \<or>
         sm_created_ms r < 1 \<or> sm_updated_ms r < sm_created_ms r
      then Inl (Fail ''attention summary row is invalid'')
      else if (sm_permission_id r = None) \<noteq> (sm_permission_status r = None) \<or>
         (sm_permission_id r \<noteq> None \<and>
            (sm_permission_status r \<noteq> Some ''pending'' \<or>
             \<not> opt_all validConnectionID (sm_permission_id r)))
      then Inl (Fail ''attention permission row is invalid'')
      else if sm_blocker_kind r = None \<and>
         (sm_blocker_reason r \<noteq> None \<or> sm_blocker_expires_ns r \<noteq> None \<or>
          sm_blocking_session r \<noteq> None \<or> sm_blocker_operation r \<noteq> None)
      then Inl (Fail ''attention blocker row is invalid'')
      else Inr \<lparr>su_SessionID = sid, su_LatestSeq = sm_latest_seq r, su_State = sm_state r,
        su_Permission =
          (case (sm_permission_id r, sm_permission_status r) of
             (Some i, Some s) \<Rightarrow> Some (i, s)
           | _ \<Rightarrow> None),
        su_TerminalOutcome = sm_terminal_outcome r, su_LatestChangeSeq = sm_latest_change_seq r,
        su_Blocker =
          (case sm_blocker_kind r of
             None \<Rightarrow> None
           | Some k \<Rightarrow> Some \<lparr>bl_Kind = k, bl_Reason = sm_blocker_reason r,
               bl_ExpiresAt = sm_blocker_expires_ns r, bl_BlockingSessionID = sm_blocking_session r,
               bl_Operation = sm_blocker_operation r\<rparr>),
        su_SummaryVersion = sm_summary_version r,
        su_LastDurableEventAt = map_option fromMilli (sm_last_durable_ms r),
        su_LastClientCommandAt = map_option fromMilli (sm_last_client_ms r),
        su_StateOfProjection = sm_projection_state r\<rparr>)"

definition load_summary :: "db \<Rightarrow> string \<Rightarrow> SessionAttentionSummary res" where
  "load_summary d sid =
     (case map_of (session_attention_summaries d) sid of
        None \<Rightarrow> Inl NoRows
      | Some r \<Rightarrow> querySQLiteAttentionSummary sid r)"

definition summary_to_row :: "SessionAttentionSummary \<Rightarrow> int \<Rightarrow> int \<Rightarrow> summary_row" where
  "summary_to_row s created now =
     \<lparr>sm_latest_seq = su_LatestSeq s, sm_state = su_State s,
      sm_permission_id = map_option fst (su_Permission s),
      sm_permission_status = map_option snd (su_Permission s),
      sm_terminal_outcome = su_TerminalOutcome s, sm_latest_change_seq = su_LatestChangeSeq s,
      sm_blocker_kind = map_option bl_Kind (su_Blocker s),
      sm_blocker_reason = Option.bind (su_Blocker s) bl_Reason,
      sm_blocker_expires_ns = Option.bind (su_Blocker s) bl_ExpiresAt,
      sm_blocking_session = Option.bind (su_Blocker s) bl_BlockingSessionID,
      sm_blocker_operation = Option.bind (su_Blocker s) bl_Operation,
      sm_summary_version = su_SummaryVersion s,
      sm_last_durable_ms = map_option UnixMilli (su_LastDurableEventAt s),
      sm_last_client_ms = map_option UnixMilli (su_LastClientCommandAt s),
      sm_projection_state = su_StateOfProjection s, sm_created_ms = created, sm_updated_ms = now\<rparr>"

definition upsertSQLiteAttentionSummary :: "SessionAttentionSummary \<Rightarrow> int \<Rightarrow> db \<Rightarrow> db res" where
  "upsertSQLiteAttentionSummary s now d =
     (if \<not> validConnectionID (su_SessionID s) \<or> su_LatestSeq s < 0 \<or> su_SummaryVersion s < 0 \<or>
         (su_StateOfProjection s \<noteq> ''complete'' \<and> su_StateOfProjection s \<noteq> ''incomplete'')
      then Inl (Fail ''invalid attention summary'')
      else
        let created = (case map_of (session_attention_summaries d) (su_SessionID s) of
                         None \<Rightarrow> now | Some old \<Rightarrow> sm_created_ms old)
        in put_summary (su_SessionID s) (summary_to_row s created now) d)"

definition fresh_summary :: "string \<Rightarrow> SessionAttentionSummary" where
  "fresh_summary sid =
     \<lparr>su_SessionID = sid, su_LatestSeq = 0, su_State = ''starting'', su_Permission = None,
      su_TerminalOutcome = None, su_LatestChangeSeq = None, su_Blocker = None, su_SummaryVersion = 0,
      su_LastDurableEventAt = None, su_LastClientCommandAt = None,
      su_StateOfProjection = ''incomplete''\<rparr>"

definition upsertSQLiteAttentionLedger ::
  "string \<Rightarrow> AttentionBlocker option \<Rightarrow> int option \<Rightarrow> int \<Rightarrow> db \<Rightarrow> db res" where
  "upsertSQLiteAttentionLedger sid blocker clientAtMS now d =
     (case load_summary d sid of
        Inl (Fail e) \<Rightarrow> Inl (Fail e)
      | r \<Rightarrow>
          let s = (case r of
                     Inr s \<Rightarrow> s\<lparr>su_SummaryVersion := su_SummaryVersion s + 1\<rparr>
                   | Inl _ \<Rightarrow> (fresh_summary sid)\<lparr>su_SummaryVersion := 1\<rparr>);
              s = s\<lparr>su_Blocker := blocker\<rparr>;
              s = (case clientAtMS of
                     None \<Rightarrow> s
                   | Some ms \<Rightarrow> s\<lparr>su_LastClientCommandAt := Some (fromMilli ms)\<rparr>)
          in upsertSQLiteAttentionSummary s now d)"

section \<open>The projection of one event\<close>

record sqliteAttentionProjection =
  p_state :: "string option"
  p_stateObserved :: bool
  p_permissionID :: "string option"
  p_permissionDecisionID :: "string option"
  p_permissionChange :: bool
  p_terminalOutcome :: "string option"
  p_incomplete :: bool
  p_terminal :: bool

definition no_projection :: sqliteAttentionProjection where
  "no_projection = \<lparr>p_state = None, p_stateObserved = False, p_permissionID = None,
     p_permissionDecisionID = None, p_permissionChange = False, p_terminalOutcome = None,
     p_incomplete = False, p_terminal = False\<rparr>"

definition sqliteAttentionEventProjection :: "PendingEvent \<Rightarrow> sqliteAttentionProjection" where
  "sqliteAttentionEventProjection ev =
     (if pe_Type ev = ''permission.request'' then
        (case unmarshal_strings [''request_id''] (pe_Payload ev) of
           None \<Rightarrow> no_projection\<lparr>p_incomplete := True\<rparr>
         | Some p \<Rightarrow>
             if \<not> validConnectionID (p ''request_id'') then no_projection\<lparr>p_incomplete := True\<rparr>
             else no_projection\<lparr>p_permissionID := Some (p ''request_id''), p_permissionChange := True\<rparr>)
      else if pe_Type ev = ''permission.decision'' then
        (case unmarshal_strings [''request_id'', ''decision''] (pe_Payload ev) of
           None \<Rightarrow> no_projection\<lparr>p_incomplete := True\<rparr>
         | Some p \<Rightarrow>
             if \<not> validConnectionID (p ''request_id'') \<or>
                (p ''decision'' \<noteq> ''approve'' \<and> p ''decision'' \<noteq> ''deny'' \<and> p ''decision'' \<noteq> ''expired'')
             then no_projection\<lparr>p_incomplete := True\<rparr>
             else no_projection\<lparr>p_permissionDecisionID := Some (p ''request_id''),
                                p_permissionChange := True\<rparr>)
      else if pe_Type ev = ''session.error'' then
        no_projection\<lparr>p_state := Some ''error'', p_stateObserved := True,
                      p_terminalOutcome := Some ''error'', p_terminal := True\<rparr>
      else if pe_Type ev \<noteq> ''session.state'' then no_projection
      else
        (case unmarshal_strings [''state''] (pe_Payload ev) of
           None \<Rightarrow> no_projection\<lparr>p_stateObserved := True, p_incomplete := True\<rparr>
         | Some p \<Rightarrow>
             let st = (if p ''state'' = ''working'' then ''busy'' else p ''state'') in
             if st \<notin> set attention_states
             then no_projection\<lparr>p_stateObserved := True, p_incomplete := True\<rparr>
             else if st = ''ended'' \<or> st = ''error''
             then no_projection\<lparr>p_stateObserved := True, p_state := Some st, p_terminal := True,
                                p_terminalOutcome := Some st\<rparr>
             else no_projection\<lparr>p_stateObserved := True, p_state := Some st\<rparr>))"

definition apply_projection ::
  "bool \<Rightarrow> int \<Rightarrow> sqliteAttentionProjection \<Rightarrow> int \<Rightarrow> SessionAttentionSummary \<Rightarrow> SessionAttentionSummary"
where
  "apply_projection created seq pr now s =
     (let incomplete = p_incomplete pr \<or> (su_LatestSeq s > 0 \<and> seq \<noteq> su_LatestSeq s + 1);
          s = s\<lparr>su_LatestSeq := seq\<rparr>;
          s = (case p_state pr of
                 None \<Rightarrow> s
               | Some st \<Rightarrow> s\<lparr>su_State := st, su_LatestChangeSeq := Some seq\<rparr>);
          s = (if \<not> p_permissionChange pr then s
               else case p_permissionID pr of
                 Some i \<Rightarrow> s\<lparr>su_Permission := Some (i, ''pending'')\<rparr>
               | None \<Rightarrow>
                   if su_Permission s \<noteq> None \<and> p_permissionDecisionID pr \<noteq> None \<and>
                      map_option fst (su_Permission s) = p_permissionDecisionID pr
                   then s\<lparr>su_Permission := None\<rparr> else s);
          s = (if p_stateObserved pr \<and> p_state pr \<noteq> None then
                 (if p_state pr = Some ''ended'' \<or> p_state pr = Some ''error'' then
                    s\<lparr>su_TerminalOutcome :=
                        (if p_terminalOutcome pr \<noteq> None then p_terminalOutcome pr else p_state pr)\<rparr>
                  else s\<lparr>su_TerminalOutcome := None\<rparr>)
               else if su_TerminalOutcome s = None \<and> p_terminalOutcome pr \<noteq> None
               then s\<lparr>su_TerminalOutcome := p_terminalOutcome pr\<rparr>
               else s);
          incomplete = incomplete \<or>
            (su_LatestSeq s = 1 \<and> (\<not> p_stateObserved pr \<or> p_state pr = None));
          s = s\<lparr>su_StateOfProjection :=
                (if (\<not> created \<and> su_StateOfProjection s = ''incomplete'') \<or> incomplete \<or>
                    (p_stateObserved pr \<and> p_state pr = None)
                 then ''incomplete'' else ''complete'')\<rparr>
      in s\<lparr>su_LastDurableEventAt := Some (fromMilli now)\<rparr>)"

definition projectSQLiteAttentionEvent ::
  "string \<Rightarrow> int \<Rightarrow> PendingEvent \<Rightarrow> int \<Rightarrow> db \<Rightarrow> (db \<times> bool) res" where
  "projectSQLiteAttentionEvent sid seq ev now d =
     (case load_summary d sid of
        Inl (Fail e) \<Rightarrow> Inl (Fail e)
      | r \<Rightarrow>
          let (created, s) = (case r of Inr s \<Rightarrow> (False, s) | Inl _ \<Rightarrow> (True, fresh_summary sid));
              pr = sqliteAttentionEventProjection ev
          in res_bind (upsertSQLiteAttentionSummary (apply_projection created seq pr now s) now d)
               (\<lambda>d'. Inr (d', p_terminal pr)))"

text \<open>The update that fences a session whose terminal event is durable.\<close>

definition fence_terminal :: "string \<Rightarrow> int \<Rightarrow> db \<Rightarrow> db res" where
  "fence_terminal sid now d =
     (case map_of (session_adapter_connections d) sid of
        None \<Rightarrow> Inr d
      | Some c \<Rightarrow>
          if cn_terminal_ms c \<noteq> None then Inr d
          else update_connection sid
                 (c\<lparr>cn_revoked_ms := Some now, cn_terminal_ms := Some now, cn_updated_ms := now\<rparr>) d)"

section \<open>Reads\<close>

text \<open>A row loop that stops with the first error of its scan function.\<close>

fun scan_rows :: "('r \<Rightarrow> 'a res) \<Rightarrow> 'r list \<Rightarrow> 'a list res" where
  "scan_rows f [] = Inr []"
| "scan_rows f (r # rs) = res_bind (f r) (\<lambda>x. res_bind (scan_rows f rs) (\<lambda>xs. Inr (x # xs)))"

definition attentionMigrationPending :: "db \<Rightarrow> bool res" where
  "attentionMigrationPending d =
     (if migration_state d \<noteq> ''pending'' \<and> migration_state d \<noteq> ''complete''
      then Inl (Fail ''sqlite attention migration marker is invalid'')
      else Inr (migration_state d = ''pending''))"

fun snapshot_ids_error :: "string list \<Rightarrow> string list \<Rightarrow> err option" where
  "snapshot_ids_error seen [] = None"
| "snapshot_ids_error seen (sid # sids) =
     (if \<not> validConnectionID sid then Some (Fail ''attention snapshot session ID is invalid'')
      else if sid \<in> set seen then Some (Fail ''attention snapshot session IDs must be unique'')
      else snapshot_ids_error (sid # seen) sids)"

definition AttentionSnapshot :: "string list \<Rightarrow> db \<Rightarrow> SessionAttentionSummary list res" where
  "AttentionSnapshot sids d =
     (if length sids = 0 \<or> length sids > 100
      then Inl (Fail ''attention snapshot session IDs are out of range'')
      else case snapshot_ids_error [] sids of
        Some e \<Rightarrow> Inl e
      | None \<Rightarrow>
          res_bind (attentionMigrationPending d) (\<lambda>pending.
            if pending then Inr (map fresh_summary sids)
            else scan_rows (\<lambda>(sid, r). querySQLiteAttentionSummary sid r)
                   (sort_key fst
                      (filter (\<lambda>(sid, r). sid \<in> set sids) (session_attention_summaries d)))))"

record AttentionSummaryPageRequest =
  pq_AfterSessionID :: string
  pq_Limit :: int

record AttentionSummaryPage_rec =
  pg_Summaries :: "SessionAttentionSummary list"
  pg_NextAfterSessionID :: "string option"
  pg_SnapshotAt :: gotime

definition MaxAttentionSummaryPageSize :: int where "MaxAttentionSummaryPageSize = 100"

definition live_authority :: "db \<Rightarrow> int \<Rightarrow> string \<Rightarrow> bool" where
  "live_authority d now sid =
     (case map_of (session_adapter_connections d) sid of
        None \<Rightarrow> False
      | Some c \<Rightarrow> cn_active_expires_ms c > now \<and> cn_revoked_ms c = None \<and> cn_terminal_ms c = None)"

definition page_rows :: "db \<Rightarrow> int \<Rightarrow> string \<Rightarrow> nat \<Rightarrow> (string \<times> summary_row) list" where
  "page_rows d now after n =
     take n (sort_key fst (filter (\<lambda>(sid, r). after < sid \<and> live_authority d now sid)
                              (session_attention_summaries d)))"

fun page_loop ::
  "nat \<Rightarrow> (string \<times> summary_row) list \<Rightarrow> SessionAttentionSummary list \<Rightarrow>
   (SessionAttentionSummary list \<times> string option) res" where
  "page_loop limit [] acc = Inr (acc, None)"
| "page_loop limit (r # rs) acc =
     res_bind (querySQLiteAttentionSummary (fst r) (snd r)) (\<lambda>s.
       if length acc = limit then Inr (acc, Some (su_SessionID (last acc)))
       else page_loop limit rs (acc @ [s]))"

definition AttentionSummaryPage ::
  "AttentionSummaryPageRequest \<Rightarrow> clock \<Rightarrow> db \<Rightarrow> AttentionSummaryPage_rec res" where
  "AttentionSummaryPage request clk d =
     (if pq_Limit request < 1 \<or> pq_Limit request > MaxAttentionSummaryPageSize
      then Inl (Fail ''attention summary page limit is out of range'')
      else if pq_AfterSessionID request \<noteq> [] \<and> \<not> validConnectionID (pq_AfterSessionID request)
      then Inl (Fail ''attention summary page cursor is invalid'')
      else res_bind (attentionMigrationPending d) (\<lambda>pending.
        if pending then Inl (Fail ''attention summary page is unavailable during migration'')
        else res_bind
          (page_loop (nat (pq_Limit request))
             (page_rows d (clk 1) (pq_AfterSessionID request) (nat (pq_Limit request + 1))) [])
          (\<lambda>(summaries, cursor).
             Inr \<lparr>pg_Summaries = summaries, pg_NextAfterSessionID = cursor,
                  pg_SnapshotAt = fromMilli (clk 0)\<rparr>)))"

section \<open>Migration backfill\<close>

record AttentionBackfillResult =
  bf_Checkpoint :: string
  bf_Processed :: int
  bf_Done :: bool

definition maxSQLiteAttentionBackfillBatch :: int where "maxSQLiteAttentionBackfillBatch = 256"

definition backfill_sessions :: "db \<Rightarrow> string \<Rightarrow> nat \<Rightarrow> string list" where
  "backfill_sessions d checkpoint n =
     take n (sort (remdups (filter (\<lambda>sid. checkpoint < sid)
       (map ev_session (session_events d) @ map (ac_target \<circ> snd) (session_attachments d) @
        map fst (session_adapter_connections d)))))"

definition backfill_summary :: "db \<Rightarrow> string \<Rightarrow> SessionAttentionSummary res" where
  "backfill_summary d sid =
     (case load_summary d sid of
        Inl NoRows \<Rightarrow> Inr ((fresh_summary sid)\<lparr>su_LatestSeq := latest_seq d sid\<rparr>)
      | Inl (Fail e) \<Rightarrow> Inl (Fail e)
      | Inr s \<Rightarrow> Inr (s\<lparr>su_LatestSeq := max (su_LatestSeq s) (latest_seq d sid),
                       su_StateOfProjection := ''incomplete''\<rparr>))"

definition backfill_fence :: "string \<Rightarrow> int \<Rightarrow> db \<Rightarrow> db res" where
  "backfill_fence sid now d =
     (case map_of (session_adapter_connections d) sid of
        None \<Rightarrow> Inr d
      | Some c \<Rightarrow> update_connection sid
          (c\<lparr>cn_revoked_ms := Some (case cn_revoked_ms c of None \<Rightarrow> now | Some t \<Rightarrow> t),
             cn_terminal_ms := Some (case cn_terminal_ms c of None \<Rightarrow> now | Some t \<Rightarrow> t),
             cn_updated_ms := now\<rparr>) d)"

fun backfill_loop :: "int \<Rightarrow> string list \<Rightarrow> db \<Rightarrow> db res" where
  "backfill_loop now [] d = Inr d"
| "backfill_loop now (sid # sids) d =
     res_bind (backfill_summary d sid) (\<lambda>s.
     res_bind (upsertSQLiteAttentionSummary s now d) (\<lambda>d.
     res_bind (backfill_fence sid now d) (\<lambda>d.
     backfill_loop now sids d)))"

definition BackfillAttentionBatch_tx ::
  "int \<Rightarrow> clock \<Rightarrow> db \<Rightarrow> (db \<times> AttentionBackfillResult) res" where
  "BackfillAttentionBatch_tx limit clk d =
     (if migration_state d \<noteq> ''pending'' then Inl (Fail ''sqlite attention migration is not pending'')
      else
        let found = backfill_sessions d (migration_checkpoint d) (nat (limit + 1)) in
        if \<not> list_all validConnectionID found
        then Inl (Fail ''sqlite attention backfill session is invalid'')
        else
          let finished = int (length found) \<le> limit;
              sids = take (nat limit) found;
              checkpoint = (if sids = [] then migration_checkpoint d else last sids)
          in res_bind (backfill_loop (clk 0) sids d) (\<lambda>d.
               if sql_length checkpoint > 255 then Inl constraint_failed
               else Inr (d\<lparr>migration_state := (if finished then ''complete'' else ''pending''),
                         migration_checkpoint := checkpoint\<rparr>,
                     \<lparr>bf_Checkpoint = checkpoint, bf_Processed = int (length sids),
                      bf_Done = finished\<rparr>)))"

definition BackfillAttentionBatch ::
  "int \<Rightarrow> clock \<Rightarrow> db \<Rightarrow> db \<times> AttentionBackfillResult res" where
  "BackfillAttentionBatch limit clk d =
     (if limit < 1 \<or> limit > maxSQLiteAttentionBackfillBatch
      then (d, Inl (Fail ''sqlite attention backfill batch size is out of range''))
      else transaction (BackfillAttentionBatch_tx limit clk) d)"

section \<open>What a write can touch\<close>

lemma put_summary_frame:
  "put_summary sid r d = Inr d' \<Longrightarrow>
   d' = d\<lparr>session_attention_summaries := AList.update sid r (session_attention_summaries d)\<rparr> \<and>
   check_summary_row sid r"
  by (auto simp: put_summary_def split: if_splits)

lemma upsert_frame:
  assumes "upsertSQLiteAttentionSummary s now d = Inr d'"
  obtains c where
    "d' = d\<lparr>session_attention_summaries :=
              AList.update (su_SessionID s) (summary_to_row s c now) (session_attention_summaries d)\<rparr>"
    "check_summary_row (su_SessionID s) (summary_to_row s c now)"
    "c = (case map_of (session_attention_summaries d) (su_SessionID s) of
            None \<Rightarrow> now | Some old \<Rightarrow> sm_created_ms old)"
  using assms
  by (auto simp: upsertSQLiteAttentionSummary_def Let_def dest!: put_summary_frame split: if_splits)

lemma load_summary_id: "load_summary d sid = Inr s \<Longrightarrow> su_SessionID s = sid"
  by (auto simp: load_summary_def querySQLiteAttentionSummary_def split: option.splits if_splits)

lemma ledger_frame:
  assumes "upsertSQLiteAttentionLedger sid b c now d = Inr d'"
  obtains r where
    "d' = d\<lparr>session_attention_summaries := AList.update sid r (session_attention_summaries d)\<rparr>"
proof (cases "load_summary d sid")
  case (Inl e)
  with assms show ?thesis
    by (cases e; cases c)
      (auto simp: upsertSQLiteAttentionLedger_def fresh_summary_def Let_def elim!: upsert_frame intro: that)
next
  case (Inr s)
  with assms load_summary_id [OF Inr] show ?thesis
    by (cases c)
      (auto simp: upsertSQLiteAttentionLedger_def Let_def elim!: upsert_frame intro: that)
qed

lemma apply_projection_simps [simp]:
  "su_SessionID (apply_projection c n pr now s) = su_SessionID s"
  "su_LatestSeq (apply_projection c n pr now s) = n"
  "su_SummaryVersion (apply_projection c n pr now s) = su_SummaryVersion s"
  "su_Blocker (apply_projection c n pr now s) = su_Blocker s"
  "su_LastDurableEventAt (apply_projection c n pr now s) = Some (fromMilli now)"
  by (simp_all add: apply_projection_def Let_def split: option.splits)

lemma project_frame:
  assumes "projectSQLiteAttentionEvent sid n ev now d = Inr (d', t)"
  obtains r where
    "d' = d\<lparr>session_attention_summaries := AList.update sid r (session_attention_summaries d)\<rparr>"
    "sm_latest_seq r = n" "check_summary_row sid r" "t = p_terminal (sqliteAttentionEventProjection ev)"
proof (cases "load_summary d sid")
  case (Inl e)
  with assms show ?thesis
    by (cases e)
      (auto simp: projectSQLiteAttentionEvent_def Let_def fresh_summary_def summary_to_row_def
        elim!: upsert_frame intro: that)
next
  case (Inr s)
  with assms load_summary_id [OF Inr] show ?thesis
    by (auto simp: projectSQLiteAttentionEvent_def Let_def summary_to_row_def elim!: upsert_frame intro: that)
qed

lemma update_connection_frame:
  assumes "update_connection sid c d = Inr d'"
  obtains (same) "d' = d" "map_of (session_adapter_connections d) sid = None"
    | (row) old where "map_of (session_adapter_connections d) sid = Some old"
        "check_connection_row sid c"
        "cn_fence c = cn_fence old \<or> (cn_fence old < cn_fence c \<and> cn_fence c < main_next_fence d)"
        "d' = d\<lparr>session_adapter_connections := AList.update sid c (session_adapter_connections d)\<rparr>"
  using assms
  by (auto simp: update_connection_def split: option.splits if_splits intro: that)

lemma fence_terminal_frame:
  "fence_terminal sid now d = Inr d' \<Longrightarrow>
   \<exists>t. d' = d\<lparr>session_adapter_connections := t\<rparr>"
  by (auto simp: fence_terminal_def split: option.splits if_splits elim!: update_connection_frame)
    (metis db.surjective db.update_convs(5))+

end
