(* ===== verification/Events.thy ===== *)
theory Events
  imports Attention
begin

text \<open>
  The event log of the SQLite store: \<^verbatim>\<open>Append\<close>, \<^verbatim>\<open>Replay\<close>, \<^verbatim>\<open>LatestSeq\<close>, \<^verbatim>\<open>History\<close>
  (\<^verbatim>\<open>store/sqlite/store.go\<close>), \<^verbatim>\<open>Bootstrap\<close> (\<^verbatim>\<open>store/sqlite/bootstrap.go\<close>) and the
  lifecycle-event insertion the ledgers share. The log of a session is the subsequence of its
  rows; \<open>numbered\<close> says every log is numbered from 1 without gaps, and \<open>log_step\<close> is what
  every operation of the store keeps of the log: rows are only added at the end, and a numbered
  log stays numbered.
\<close>

section \<open>Operations\<close>

fun append_loop ::
  "string \<Rightarrow> int \<Rightarrow> int \<Rightarrow> clock \<Rightarrow> nat \<Rightarrow> PendingEvent list \<Rightarrow> db \<Rightarrow> db res" where
  "append_loop sid seq created clk i [] d = Inr d"
| "append_loop sid seq created clk i (ev # evs) d =
     res_bind (insert_event \<lparr>ev_session = sid, ev_seq = seq, ev_type = pe_Type ev,
                  ev_payload = pe_Payload ev, ev_time_ms = UnixMilli (pe_Time ev),
                  ev_created_ms = created\<rparr> d) (\<lambda>d.
     res_bind (projectSQLiteAttentionEvent sid seq ev (clk i) d) (\<lambda>(d, terminal).
     res_bind (if terminal then fence_terminal sid (clk i) d else Inr d) (\<lambda>d.
     append_loop sid (seq + 1) created clk (Suc i) evs d)))"

definition Append_tx :: "string \<Rightarrow> PendingEvent list \<Rightarrow> clock \<Rightarrow> db \<Rightarrow> (db \<times> int) res" where
  "Append_tx sid evs clk d =
     (let firstSeq = latest_seq d sid + 1
      in res_bind (append_loop sid firstSeq (clk 0) clk 1 evs d) (\<lambda>d. Inr (d, firstSeq)))"

definition Append :: "string \<Rightarrow> PendingEvent list \<Rightarrow> clock \<Rightarrow> db \<Rightarrow> db \<times> int res" where
  "Append sid evs clk d =
     (if evs = [] then (d, Inr 0) else transaction (Append_tx sid evs clk) d)"

definition row_event :: "event_row \<Rightarrow> Event" where
  "row_event r = \<lparr>e_SessionID = ev_session r, e_Seq = ev_seq r, e_Type = ev_type r,
                  e_Time = fromMilli (ev_time_ms r), e_Payload = ev_payload r\<rparr>"

text \<open>The rows of a session in ascending sequence order.\<close>

definition session_rows :: "db \<Rightarrow> string \<Rightarrow> event_row list" where
  "session_rows d sid = sort_key ev_seq (filter (\<lambda>r. ev_session r = sid) (session_events d))"

text \<open>The callback runs on its own state and may refuse an event, which ends the replay.\<close>

fun replay_loop :: "('s \<Rightarrow> Event \<Rightarrow> 's \<times> err option) \<Rightarrow> event_row list \<Rightarrow> 's \<Rightarrow> 's \<times> unit res" where
  "replay_loop fn [] s = (s, Inr ())"
| "replay_loop fn (r # rs) s =
     (case fn s (row_event r) of
        (s', Some e) \<Rightarrow> (s', Inl e)
      | (s', None) \<Rightarrow> replay_loop fn rs s')"

definition Replay ::
  "string \<Rightarrow> int \<Rightarrow> ('s \<Rightarrow> Event \<Rightarrow> 's \<times> err option) option \<Rightarrow> db \<Rightarrow> 's \<Rightarrow> 's \<times> unit res" where
  "Replay sid afterSeq fn d s =
     (case fn of
        None \<Rightarrow> (s, Inl (Fail ''replay callback is nil''))
      | Some f \<Rightarrow> replay_loop f (filter (\<lambda>r. ev_seq r > afterSeq) (session_rows d sid)) s)"

definition LatestSeq :: "string \<Rightarrow> db \<Rightarrow> int res" where
  "LatestSeq sid d = Inr (latest_seq d sid)"

record HistoryPage =
  hp_Events :: "Event list"
  hp_LatestSeq :: int
  hp_NextBeforeSeq :: "int option"
  hp_RetentionState :: string

definition maxHistoryPageSize :: int where "maxHistoryPageSize = 100"

definition min0 :: "int list \<Rightarrow> int" where
  "min0 xs = (case xs of [] \<Rightarrow> 0 | x # ys \<Rightarrow> fold min ys x)"

definition History :: "string \<Rightarrow> int option \<Rightarrow> int \<Rightarrow> db \<Rightarrow> HistoryPage res" where
  "History sid beforeSeq limit d =
     (if limit < 1 \<or> limit > maxHistoryPageSize
      then Inl (Fail ''history limit must be between 1 and 100'')
      else
        let log = filter (\<lambda>r. ev_session r = sid) (session_events d);
            latestSeq = max0 (map ev_seq log);
            earliestSeq = min0 (map ev_seq log);
            eventCount = int (length log);
            rows = rev (case beforeSeq of
                          None \<Rightarrow> session_rows d sid
                        | Some b \<Rightarrow> filter (\<lambda>r. ev_seq r < b) (session_rows d sid));
            events = map row_event (take (nat (limit + 1)) rows);
            retention = (if eventCount > 0 \<and> (earliestSeq > 1 \<or> eventCount \<noteq> latestSeq - earliestSeq + 1)
                         then ''retention_gap'' else ''complete'');
            (next_before, events) =
              (if int (length events) > limit
               then (Some (e_Seq (events ! nat (limit - 1))), take (nat limit) events)
               else (None, events))
        in Inr \<lparr>hp_Events = rev events, hp_LatestSeq = latestSeq, hp_NextBeforeSeq = next_before,
                hp_RetentionState = retention\<rparr>)"

definition BootstrapEventTypes :: "string list" where
  "BootstrapEventTypes =
     [''session.state'', ''session.settings.capabilities'', ''session.settings.effective'',
      ''session.run.capabilities'', ''session.run.outcome'', ''session.file_references.capabilities'',
      ''permission.request'', ''permission.decision'']"

definition latest_of_type :: "db \<Rightarrow> string \<Rightarrow> int \<Rightarrow> string \<Rightarrow> event_row list" where
  "latest_of_type d sid throughSeq ty =
     take 1 (rev (filter (\<lambda>r. ev_type r = ty \<and> ev_seq r \<le> throughSeq) (session_rows d sid)))"

definition Bootstrap :: "string \<Rightarrow> int \<Rightarrow> db \<Rightarrow> Event list res" where
  "Bootstrap sid throughSeq d =
     Inr (sort_key e_Seq
            (map row_event (concat (map (latest_of_type d sid throughSeq) BootstrapEventTypes))))"

text \<open>The insertion of a Store-written lifecycle event inside another transaction.\<close>

definition appendRunControlEventExecutor ::
  "string \<Rightarrow> string \<Rightarrow> bytes \<Rightarrow> int \<Rightarrow> db \<Rightarrow> (db \<times> int) res" where
  "appendRunControlEventExecutor sid eventType payload now d =
     (let seq = latest_seq d sid + 1
      in res_bind (insert_event \<lparr>ev_session = sid, ev_seq = seq, ev_type = eventType,
                     ev_payload = payload, ev_time_ms = now, ev_created_ms = now\<rparr> d)
           (\<lambda>d. Inr (d, seq)))"

section \<open>Numbered logs\<close>

definition rows_of :: "event_row list \<Rightarrow> string \<Rightarrow> event_row list" where
  "rows_of es sid = filter (\<lambda>r. ev_session r = sid) es"

abbreviation log_of :: "db \<Rightarrow> string \<Rightarrow> event_row list" where
  "log_of d \<equiv> rows_of (session_events d)"

definition numbered_log :: "event_row list \<Rightarrow> bool" where
  "numbered_log es \<longleftrightarrow> (\<forall>sid. map ev_seq (rows_of es sid) = [1..int (length (rows_of es sid))])"

abbreviation numbered :: "db \<Rightarrow> bool" where
  "numbered d \<equiv> numbered_log (session_events d)"

definition log_step :: "db \<Rightarrow> db \<Rightarrow> bool" where
  "log_step d d' \<longleftrightarrow>
     (\<exists>rs. session_events d' = session_events d @ rs) \<and> (numbered d \<longrightarrow> numbered d')"

definition event_row_of :: "string \<Rightarrow> int \<Rightarrow> int \<Rightarrow> PendingEvent \<Rightarrow> event_row" where
  "event_row_of sid seq created ev =
     \<lparr>ev_session = sid, ev_seq = seq, ev_type = pe_Type ev, ev_payload = pe_Payload ev,
      ev_time_ms = UnixMilli (pe_Time ev), ev_created_ms = created\<rparr>"

fun event_rows :: "string \<Rightarrow> int \<Rightarrow> int \<Rightarrow> PendingEvent list \<Rightarrow> event_row list" where
  "event_rows sid n created [] = []"
| "event_rows sid n created (ev # evs) =
     event_row_of sid n created ev # event_rows sid (n + 1) created evs"

section \<open>The log under insertion\<close>

lemma log_of_snoc:
  "session_events d' = session_events d @ rs \<Longrightarrow>
   log_of d' sid = log_of d sid @ filter (\<lambda>r. ev_session r = sid) rs"
  by (simp add: rows_of_def)

lemma latest_seq_log: "latest_seq d sid = max0 (map ev_seq (log_of d sid))"
  by (simp add: max_seq_def rows_of_def)

lemma latest_seq_cong: "session_events d' = session_events d \<Longrightarrow> latest_seq d' sid = latest_seq d sid"
  by (simp add: max_seq_def)

lemma numbered_cong: "session_events d' = session_events d \<Longrightarrow> numbered d' = numbered d"
  by (simp add: numbered_log_def rows_of_def)

lemma numbered_latest: "numbered d \<Longrightarrow> latest_seq d sid = int (length (log_of d sid))"
  by (simp add: numbered_log_def latest_seq_log)

lemma log_step_refl [simp, intro]: "log_step d d"
  by (simp add: log_step_def)

lemma log_step_trans [trans]: "log_step a b \<Longrightarrow> log_step b c \<Longrightarrow> log_step a c"
  by (auto simp: log_step_def)

lemma log_step_same: "session_events d' = session_events d \<Longrightarrow> log_step d d'"
  using numbered_cong [of d' d] by (simp add: log_step_def)

lemma upto_append: "0 \<le> n \<Longrightarrow> [1..n] @ [n + 1..n + int k] = [1..n + int k]"
  using upto_split1 [of 1 "n + 1" "n + int k"] by (cases "k = 0") simp_all

lemma numbered_append:
  assumes d: "numbered d" and ev: "session_events d' = session_events d @ rs"
    and one: "\<forall>r \<in> set rs. ev_session r = sid"
    and rs: "map ev_seq rs = [latest_seq d sid + 1..latest_seq d sid + int (length rs)]"
  shows "numbered d'"
  unfolding numbered_log_def
proof
  fix s
  let ?n = "int (length (log_of d s))"
  have base: "map ev_seq (log_of d s) = [1..?n]" using d by (simp add: numbered_log_def)
  show "map ev_seq (log_of d' s) = [1..int (length (log_of d' s))]"
  proof (cases "s = sid")
    case True
    then have log: "log_of d' s = log_of d s @ rs"
      using one by (simp add: log_of_snoc [OF ev])
    have new: "map ev_seq rs = [?n + 1..?n + int (length rs)]"
      using rs True by (simp only: numbered_latest [OF d])
    have "map ev_seq (log_of d' s) = [1..?n] @ [?n + 1..?n + int (length rs)]"
      by (simp only: log map_append base new)
    also have "\<dots> = [1..?n + int (length rs)]" by (rule upto_append) simp
    finally show ?thesis unfolding log length_append of_nat_add .
  next
    case False
    then have "log_of d' s = log_of d s"
      using one by (simp add: log_of_snoc [OF ev] filter_empty_conv)
    then show ?thesis using base by (simp only:)
  qed
qed

lemma log_step_append:
  assumes "session_events d' = session_events d @ rs" "\<forall>r \<in> set rs. ev_session r = sid"
    "map ev_seq rs = [latest_seq d sid + 1..latest_seq d sid + int (length rs)]"
  shows "log_step d d'"
  unfolding log_step_def using assms numbered_append [OF _ assms] by blast

lemma insert_event_frame:
  "insert_event r d = Inr d' \<Longrightarrow> d' = d\<lparr>session_events := session_events d @ [r]\<rparr> \<and> 0 < ev_seq r"
  by (auto simp: insert_event_def check_event_row_def split: if_splits)

lemma insert_event_log_step:
  assumes "insert_event r d = Inr d'" "ev_seq r = latest_seq d (ev_session r) + 1"
  shows "log_step d d'"
proof -
  have "session_events d' = session_events d @ [r]"
    using insert_event_frame [OF assms(1)] by simp
  then show ?thesis
    by (rule log_step_append [where sid = "ev_session r"]) (simp_all add: assms(2))
qed

lemma lifecycle_event_frame:
  "appendRunControlEventExecutor sid ty payload now d = Inr (d', n) \<Longrightarrow>
   n = latest_seq d sid + 1 \<and>
   d' = d\<lparr>session_events := session_events d @ [\<lparr>ev_session = sid, ev_seq = n, ev_type = ty,
            ev_payload = payload, ev_time_ms = now, ev_created_ms = now\<rparr>]\<rparr>"
  by (auto simp: appendRunControlEventExecutor_def Let_def dest!: insert_event_frame)

lemma lifecycle_event_log_step:
  "appendRunControlEventExecutor sid ty payload now d = Inr (d', n) \<Longrightarrow> log_step d d'"
  by (auto simp: appendRunControlEventExecutor_def Let_def dest!: insert_event_log_step)

section \<open>Append\<close>

lemma event_rows_simps [simp]:
  "length (event_rows sid n c evs) = length evs"
  "map ev_seq (event_rows sid n c evs) = [n..n + int (length evs) - 1]"
  "\<forall>r \<in> set (event_rows sid n c evs). ev_session r = sid"
proof -
  show "length (event_rows sid n c evs) = length evs" by (induction evs arbitrary: n) auto
  show "map ev_seq (event_rows sid n c evs) = [n..n + int (length evs) - 1]"
    by (induction evs arbitrary: n) (auto simp: event_row_of_def upto_rec1 algebra_simps)
  show "\<forall>r \<in> set (event_rows sid n c evs). ev_session r = sid"
    by (induction evs arbitrary: n) (auto simp: event_row_of_def)
qed

lemma append_loop_events:
  "append_loop sid n c clk i evs d = Inr d' \<Longrightarrow>
   session_events d' = session_events d @ event_rows sid n c evs"
proof (induction evs arbitrary: n i d)
  case (Cons ev evs)
  obtain d1 d2 t d3 where step: "insert_event (event_row_of sid n c ev) d = Inr d1"
    "projectSQLiteAttentionEvent sid n ev (clk i) d1 = Inr (d2, t)"
    "(if t then fence_terminal sid (clk i) d2 else Inr d2) = Inr d3"
    "append_loop sid (n + 1) c clk (Suc i) evs d3 = Inr d'"
    using Cons.prems by (auto simp: event_row_of_def)
  have "session_events d3 = session_events d2"
    using step(3) by (auto split: if_splits dest!: fence_terminal_frame)
  also have "\<dots> = session_events d1" by (rule project_frame [OF step(2)]) simp
  also have "\<dots> = session_events d @ [event_row_of sid n c ev]"
    using insert_event_frame [OF step(1)] by simp
  finally show ?case using Cons.IH [OF step(4)] by simp
qed simp

lemma Append_ok:
  "Append sid evs clk d = (d', Inr n) \<Longrightarrow> evs \<noteq> [] \<Longrightarrow>
   n = latest_seq d sid + 1 \<and>
   session_events d' = session_events d @ event_rows sid n (clk 0) evs"
  by (auto simp: Append_def Append_tx_def Let_def transaction_ok_iff dest: append_loop_events)

lemma Append_error: "Append sid evs clk d = (d', Inl e) \<Longrightarrow> d' = d"
  by (cases "Append_tx sid evs clk d") (auto simp: Append_def split: if_splits)

lemma Append_log_step: "log_step d (fst (Append sid evs clk d))"
proof (cases "evs = []")
  case False
  obtain d' r where a: "Append sid evs clk d = (d', r)" by force
  show ?thesis
  proof (cases r)
    case (Inr n)
    then have ok: "n = latest_seq d sid + 1"
      "session_events d' = session_events d @ event_rows sid n (clk 0) evs"
      using Append_ok [of sid evs clk d d' n] a False by auto
    then show ?thesis
      using log_step_append [OF ok(2) event_rows_simps(3)] by (simp add: a)
  next
    case (Inl e)
    then show ?thesis using a Append_error [of sid evs clk d d' e] by auto
  qed
qed (simp add: Append_def)

section \<open>Replay\<close>

lemma log_seq_le_latest: "r \<in> set (log_of d sid) \<Longrightarrow> ev_seq r \<le> latest_seq d sid"
  by (simp add: latest_seq_log max0_ge)

lemma session_rows_filter:
  "filter P (session_rows d sid) = sort_key ev_seq (filter P (log_of d sid))"
  by (simp add: session_rows_def rows_of_def filter_sort)

lemma sorted_seqs: "map ev_seq rs = [a..b] \<Longrightarrow> sort_key ev_seq rs = rs"
  by (rule sort_key_id_if_sorted) simp

lemma session_rows_numbered: "numbered d \<Longrightarrow> session_rows d sid = log_of d sid"
  using sorted_seqs [of "log_of d sid" 1] by (simp add: numbered_log_def session_rows_def rows_of_def)

text \<open>Exactly the appended events are after the old end of the log.\<close>

lemma rows_after_append:
  assumes "session_events d' = session_events d @ event_rows sid (latest_seq d sid + 1) c evs"
  shows "filter (\<lambda>r. ev_seq r > latest_seq d sid) (session_rows d' sid) =
         event_rows sid (latest_seq d sid + 1) c evs"
proof -
  let ?new = "event_rows sid (latest_seq d sid + 1) c evs"
  have "log_of d' sid = log_of d sid @ ?new"
    using event_rows_simps(3) [of sid "latest_seq d sid + 1" c evs]
    by (simp add: log_of_snoc [OF assms])
  moreover have "filter (\<lambda>r. ev_seq r > latest_seq d sid) (log_of d sid) = []"
    using log_seq_le_latest [of _ d sid] by (auto simp: filter_empty_conv not_less)
  moreover have "ev_seq r > latest_seq d sid" if "r \<in> set ?new" for r
  proof -
    have "ev_seq r \<in> set (map ev_seq ?new)" using that unfolding set_map by (rule imageI)
    then show ?thesis unfolding event_rows_simps(2) by simp
  qed
  ultimately have "filter (\<lambda>r. ev_seq r > latest_seq d sid) (log_of d' sid) = ?new" by simp
  then show ?thesis by (simp add: session_rows_filter sorted_seqs)
qed

section \<open>History\<close>

lemma filter_prefix:
  "map f xs = [1..int (length xs)] \<Longrightarrow> filter (\<lambda>x. f x < b) xs = take (nat (b - 1)) xs"
proof (induction xs rule: rev_induct)
  case (snoc x xs)
  have "[1..int (length (xs @ [x]))] = [1..int (length xs)] @ [int (length xs) + 1]"
    using upto_rec2 [of 1 "int (length xs) + 1"] by (simp add: add.commute)
  then have "map f xs = [1..int (length xs)]" "f x = int (length xs) + 1"
    using snoc.prems by simp_all
  then show ?case using snoc.IH by auto
qed simp

text \<open>The rows before a cursor, as a prefix of a numbered log.\<close>

definition before_count :: "int option \<Rightarrow> nat \<Rightarrow> nat" where
  "before_count b n = (case b of None \<Rightarrow> n | Some x \<Rightarrow> min n (nat (x - 1)))"

lemma rows_before:
  assumes "numbered d"
  shows "(case b of None \<Rightarrow> session_rows d sid
          | Some x \<Rightarrow> filter (\<lambda>r. ev_seq r < x) (session_rows d sid)) =
         take (before_count b (length (log_of d sid))) (log_of d sid)"
  using assms filter_prefix [of ev_seq "log_of d sid"]
  by (auto simp: session_rows_numbered before_count_def numbered_log_def min_def split: option.splits)

lemma take_rev_page: "rev (take k (rev xs)) = drop (length xs - k) xs"
  by (simp add: take_rev)

lemma seq_nth:
  assumes "numbered d" "i < length (log_of d sid)"
  shows "ev_seq (log_of d sid ! i) = int i + 1"
proof -
  have "map ev_seq (log_of d sid) ! i = [1..int (length (log_of d sid))] ! i"
    using assms(1) by (simp add: numbered_log_def)
  then show ?thesis using assms(2) by simp
qed

lemma min0_upto: "0 < n \<Longrightarrow> min0 [1..n] = 1"
proof -
  assume "0 < n"
  then have "[1..n] = 1 # [2..n]" by (simp add: upto_rec1)
  moreover have "fold min ys (1::int) = 1" if "\<forall>y \<in> set ys. 1 \<le> y" for ys
    using that by (induction ys) (auto simp: min_def)
  ultimately show ?thesis by (simp add: min0_def)
qed

lemma page_slice:
  fixes f :: "'a \<Rightarrow> 'b"
  assumes "m \<le> length xs" "1 \<le> limit"
  defines "page \<equiv> map f (take (nat (limit + 1)) (rev (take m xs)))"
  shows "int m > limit \<Longrightarrow> int (length page) > limit"
    and "int m > limit \<Longrightarrow> page ! nat (limit - 1) = f (xs ! nat (int m - limit))"
    and "int m > limit \<Longrightarrow> rev (take (nat limit) page) = map f (drop (m - nat limit) (take m xs))"
    and "\<not> int m > limit \<Longrightarrow> rev page = map f (drop (m - nat limit) (take m xs))"
    and "\<not> int m > limit \<Longrightarrow> \<not> int (length page) > limit"
proof -
  have len: "length page = min m (nat (limit + 1))" using assms(1) by (simp add: page_def)
  { assume big: "int m > limit"
    show "int (length page) > limit" using big len assms(2) by auto
    have idx: "m - Suc (nat (limit - 1)) = nat (int m - limit)" using big assms(2) by auto
    have bound: "nat (limit - 1) < m" "nat (limit - 1) < nat (limit + 1)" using big assms(2) by auto
    then have "page ! nat (limit - 1) = f (rev (take m xs) ! nat (limit - 1))"
      using assms(1) by (simp add: page_def)
    also have "rev (take m xs) ! nat (limit - 1) = take m xs ! (m - Suc (nat (limit - 1)))"
      using bound assms(1) by (simp add: rev_nth)
    also have "\<dots> = xs ! nat (int m - limit)" using idx bound by (simp del: nat_diff_distrib)
    finally show "page ! nat (limit - 1) = f (xs ! nat (int m - limit))" .
    have "min (nat limit) (nat (limit + 1)) = nat limit" by (simp add: min_def)
    then have "take (nat limit) page = map f (take (nat limit) (rev (take m xs)))"
      by (simp add: page_def take_map)
    then show "rev (take (nat limit) page) = map f (drop (m - nat limit) (take m xs))"
      using assms(1) take_rev_page [of "nat limit" "take m xs"]
      by (simp add: rev_map min_def) }
  { assume small: "\<not> int m > limit"
    then have "m \<le> nat (limit + 1)" "m - nat limit = 0" by auto
    then show "rev page = map f (drop (m - nat limit) (take m xs))"
      using assms(1) by (simp add: page_def rev_map [symmetric])
    show "\<not> int (length page) > limit" using small len by auto }
qed

lemma History_page:
  fixes sid :: string and b :: "int option"
  assumes d: "numbered d" and lim: "1 \<le> limit" "limit \<le> 100"
  defines "log \<equiv> log_of d sid"
  defines "m \<equiv> before_count b (length log)"
  shows "History sid b limit d =
    Inr \<lparr>hp_Events = map row_event (drop (m - nat limit) (take m log)), hp_LatestSeq = int (length log),
         hp_NextBeforeSeq = (if int m > limit then Some (int m - limit + 1) else None),
         hp_RetentionState = ''complete''\<rparr>"
proof -
  have log: "filter (\<lambda>r. ev_session r = sid) (session_events d) = log" by (simp add: log_def rows_of_def)
  have seqs: "map ev_seq log = [1..int (length log)]" using d by (simp add: log_def numbered_log_def)
  have latest: "max0 (map ev_seq log) = int (length log)" by (simp add: seqs)
  have gap: "\<not> (int (length log) > 0 \<and> (min0 (map ev_seq log) > 1 \<or>
      int (length log) \<noteq> int (length log) - min0 (map ev_seq log) + 1))"
    using min0_upto [of "int (length log)"] unfolding seqs by auto
  have m: "m \<le> length log" by (auto simp: m_def before_count_def split: option.splits)
  note rows = rows_before [OF d, of sid b, folded log_def, folded m_def]
  have ok: "\<not> (limit < 1 \<or> limit > maxHistoryPageSize)" using lim by (simp add: maxHistoryPageSize_def)
  show ?thesis
  proof (cases "int m > limit")
    case True
    have "nat (int m - limit) < length log" using True m lim by auto
    then have "e_Seq (row_event (log ! nat (int m - limit))) = int m - limit + 1"
      using seq_nth [OF d, of "nat (int m - limit)" sid] True by (simp add: row_event_def log_def)
    then show ?thesis
      unfolding History_def Let_def log rows latest
      using True ok gap page_slice(1-3) [OF m lim(1), of row_event] by (simp only: if_False if_True prod.case simp_thms)
  next
    case False
    then show ?thesis
      unfolding History_def Let_def log rows latest
      using ok gap page_slice(4-5) [OF m lim(1) False, of row_event] by (simp only: if_False if_True prod.case simp_thms)
  qed
qed

text \<open>A reader that follows the cursor until a page has none.\<close>

fun history_walk :: "nat \<Rightarrow> string \<Rightarrow> int option \<Rightarrow> int \<Rightarrow> db \<Rightarrow> Event list option" where
  "history_walk 0 sid b limit d = None"
| "history_walk (Suc fuel) sid b limit d =
     (case History sid b limit d of
        Inl e \<Rightarrow> None
      | Inr page \<Rightarrow>
          (case hp_NextBeforeSeq page of
             None \<Rightarrow> Some (hp_Events page)
           | Some b' \<Rightarrow>
               (case history_walk fuel sid (Some b') limit d of
                  None \<Rightarrow> None
                | Some es \<Rightarrow> Some (es @ hp_Events page))))"

lemma history_walk_prefix:
  assumes d: "numbered d" and lim: "1 \<le> limit" "limit \<le> 100"
    and fuel: "before_count b (length (log_of d sid)) < fuel"
  shows "history_walk fuel sid b limit d =
         Some (map row_event (take (before_count b (length (log_of d sid))) (log_of d sid)))"
  using fuel
proof (induction fuel arbitrary: b)
  case (Suc fuel)
  define log where "log = log_of d sid"
  define m where "m = before_count b (length log)"
  have page: "History sid b limit d =
    Inr \<lparr>hp_Events = map row_event (drop (m - nat limit) (take m log)), hp_LatestSeq = int (length log),
         hp_NextBeforeSeq = (if int m > limit then Some (int m - limit + 1) else None),
         hp_RetentionState = ''complete''\<rparr>"
    unfolding m_def log_def using d lim by (rule History_page)
  show ?case
  proof (cases "int m > limit")
    case False
    then have "m - nat limit = 0" by simp
    then show ?thesis using False page by (simp add: m_def log_def)
  next
    case True
    have m: "m \<le> length log" by (auto simp: m_def before_count_def split: option.splits)
    have next_count: "before_count (Some (int m - limit + 1)) (length log) = m - nat limit"
      using True lim m by (auto simp: before_count_def)
    have "history_walk fuel sid (Some (int m - limit + 1)) limit d =
          Some (map row_event (take (m - nat limit) log))"
      using Suc.IH [of "Some (int m - limit + 1)"] next_count Suc.prems True lim
      by (simp add: m_def log_def)
    moreover have "take (m - nat limit) log @ drop (m - nat limit) (take m log) = take m log"
      using append_take_drop_id [of "m - nat limit" "take m log"] by (simp add: min_def)
    ultimately show ?thesis
      using True page by (simp add: m_def [symmetric] log_def [symmetric] map_append [symmetric]
          del: map_append)
  qed
qed simp

section \<open>Bootstrap\<close>

lemma latest_of_type_set:
  assumes d: "numbered d"
  shows "set (latest_of_type d sid q ty) =
    {r \<in> set (log_of d sid). ev_type r = ty \<and> ev_seq r \<le> q \<and>
       (\<forall>r' \<in> set (log_of d sid). ev_type r' = ty \<and> ev_seq r' \<le> q \<longrightarrow> ev_seq r' \<le> ev_seq r)}"
    (is "_ = ?S")
proof -
  let ?P = "\<lambda>r. ev_type r = ty \<and> ev_seq r \<le> q"
  define xs where "xs = filter ?P (log_of d sid)"
  have distinct: "inj_on ev_seq (set (log_of d sid))" and sorted: "sorted_wrt (<) (map ev_seq (log_of d sid))"
    using d by (auto simp: numbered_log_def sorted_wrt_upto distinct_map [symmetric]
        intro: distinct_map [THEN iffD1, THEN conjunct2])
  have xs_sorted: "sorted_wrt (\<lambda>a b. ev_seq a < ev_seq b) xs"
    using sorted by (auto simp: xs_def sorted_wrt_map intro: sorted_wrt_filter)
  have rows: "latest_of_type d sid q ty = take 1 (rev xs)"
    by (simp add: latest_of_type_def session_rows_numbered [OF d] xs_def)
  show ?thesis
  proof (cases xs rule: rev_cases)
    case Nil
    then have "?S = {}" by (auto simp: xs_def filter_empty_conv)
    with Nil rows show ?thesis by simp
  next
    case (snoc ys y)
    then have "y \<in> set xs" by simp
    then have y: "y \<in> set (log_of d sid)" "?P y" by (simp_all add: xs_def)
    have below: "ev_seq r \<le> ev_seq y" if "r \<in> set (log_of d sid)" "?P r" for r
    proof -
      have "r \<in> set xs" using that by (simp add: xs_def)
      then show ?thesis using snoc xs_sorted by (auto simp: sorted_wrt_append)
    qed
    have "r = y" if "r \<in> ?S" for r
      using that y below [of r] inj_onD [OF distinct, of r y] by auto
    then have "?S = {y}" using y below by blast
    with snoc rows show ?thesis by simp
  qed
qed

lemma bootstrap_distinct:
  assumes d: "numbered d"
  shows "distinct (map e_Seq (map row_event (concat (map (latest_of_type d sid q) BootstrapEventTypes))))"
proof -
  have inj: "inj_on ev_seq (set (log_of d sid))"
    using d distinct_map [of ev_seq "log_of d sid"] by (simp add: numbered_log_def)
  have each: "distinct (map ev_seq (concat (map (latest_of_type d sid q) tys)))" if "distinct tys" for tys
    using that
  proof (induction tys)
    case (Cons ty tys)
    have "ev_seq ` set (latest_of_type d sid q ty) \<inter>
        ev_seq ` (\<Union>t \<in> set tys. set (latest_of_type d sid q t)) = {}"
      using Cons.prems inj_onD [OF inj] by (force simp: latest_of_type_set [OF d])
    moreover have "distinct (map ev_seq (latest_of_type d sid q ty))"
      by (cases "rev (filter (\<lambda>r. ev_type r = ty \<and> ev_seq r \<le> q) (session_rows d sid))")
        (simp_all add: latest_of_type_def)
    ultimately show ?case using Cons by auto
  qed simp
  show ?thesis using each [of BootstrapEventTypes]
    by (simp add: row_event_def comp_def BootstrapEventTypes_def del: concat_map_singleton)
qed

section \<open>Properties\<close>

lemma latest_after_append:
  assumes "session_events d' = session_events d @ event_rows sid (latest_seq d sid + 1) c evs"
    "evs \<noteq> []"
  shows "latest_seq d' sid = latest_seq d sid + int (length evs)"
proof -
  let ?l = "latest_seq d sid" and ?k = "int (length evs)"
  let ?xs = "map ev_seq (log_of d sid)" and ?ys = "[?l + 1..?l + ?k]"
  have log: "map ev_seq (log_of d' sid) = ?xs @ ?ys"
    using event_rows_simps(2,3) [of sid "?l + 1" c evs]
    by (simp add: log_of_snoc [OF assms(1)])
  have ne: "?xs @ ?ys \<noteq> []" using assms(2) by (cases evs) auto
  have "Max (set (?xs @ ?ys)) = ?l + ?k"
  proof (rule Max_eqI)
    show "x \<le> ?l + ?k" if "x \<in> set (?xs @ ?ys)" for x
      using that by (auto dest: log_seq_le_latest)
    show "?l + ?k \<in> set (?xs @ ?ys)" using assms(2) by (cases evs) auto
  qed simp
  then show ?thesis unfolding latest_seq_log [of d'] log using max0_eq_Max [OF ne] by simp
qed

lemma log_after_append:
  assumes "session_events d' = session_events d @ event_rows sid n c evs"
  shows "log_of d' s = log_of d s @ (if s = sid then event_rows sid n c evs else [])"
  using event_rows_simps(3) [of sid n c evs]
  by (auto simp: log_of_snoc [OF assms] filter_empty_conv)

text \<open>
  A successful \<open>Append\<close> of a batch numbers its events from the end of the
  session's log on, stores exactly them in order behind the old log, moves the latest sequence
  number by the size of the batch, and leaves the log of every other session alone.
\<close>

theorem Append_contiguous:
  assumes "Append sid evs clk d = (d', Inr n)" "evs \<noteq> []"
  shows "n = latest_seq d sid + 1 \<and>
    log_of d' sid = log_of d sid @ event_rows sid n (clk 0) evs \<and>
    map ev_seq (event_rows sid n (clk 0) evs) = [n..n + int (length evs) - 1] \<and>
    latest_seq d' sid = n + int (length evs) - 1 \<and>
    (\<forall>s. s \<noteq> sid \<longrightarrow> log_of d' s = log_of d s)"
  using Append_ok [OF assms] latest_after_append [of d' d sid "clk 0" evs]
    log_after_append [of d' d sid n "clk 0" evs] assms(2)
  by (simp add: event_rows_simps(2))

definition demo_event :: PendingEvent where
  "demo_event = \<lparr>pe_Type = ''session.state'', pe_Time = 5000000,
     pe_Payload = print_json (JObj [(''state'', JStr ''ready'')])\<rparr>"

theorem Append_contiguous_witness:
  "\<exists>d'. Append ''s'' [demo_event, demo_event] (\<lambda>_. 7) initial_db = (d', Inr 1) \<and>
        latest_seq d' ''s'' = 2"
proof -
  have "snd (Append ''s'' [demo_event, demo_event] (\<lambda>_. 7) initial_db) = Inr 1" by code_simp
  then obtain d' where a: "Append ''s'' [demo_event, demo_event] (\<lambda>_. 7) initial_db = (d', Inr 1)"
    by (metis prod.collapse)
  then show ?thesis using Append_contiguous [OF a] by simp
qed

text \<open>The events a reader of the appended batch expects, and their delivery to a callback.\<close>

fun stored_events :: "string \<Rightarrow> int \<Rightarrow> PendingEvent list \<Rightarrow> Event list" where
  "stored_events sid n [] = []"
| "stored_events sid n (ev # evs) =
     \<lparr>e_SessionID = sid, e_Seq = n, e_Type = pe_Type ev,
      e_Time = fromMilli (UnixMilli (pe_Time ev)), e_Payload = pe_Payload ev\<rparr> #
     stored_events sid (n + 1) evs"

fun deliver :: "('s \<Rightarrow> Event \<Rightarrow> 's \<times> err option) \<Rightarrow> Event list \<Rightarrow> 's \<Rightarrow> 's \<times> unit res" where
  "deliver fn [] s = (s, Inr ())"
| "deliver fn (e # es) s =
     (case fn s e of (s', None) \<Rightarrow> deliver fn es s' | (s', Some x) \<Rightarrow> (s', Inl x))"

lemma stored_events_rows: "map row_event (event_rows sid n c evs) = stored_events sid n evs"
  by (induction evs arbitrary: n) (simp_all add: row_event_def event_row_of_def)

lemma replay_loop_deliver: "replay_loop fn rs s = deliver fn (map row_event rs) s"
  by (induction rs arbitrary: s) (auto split: prod.splits option.splits)

text \<open>
  Replaying from just before the first sequence number an \<open>Append\<close> returned hands
  the callback exactly the events of that batch, in order, numbered from that number, with the
  payloads as given and the times cut to milliseconds; the replay ends at the first event the
  callback refuses, with the callback's error.
\<close>

theorem Replay_after_Append:
  assumes "Append sid evs clk d = (d', Inr n)" "evs \<noteq> []"
  shows "Replay sid (n - 1) (Some fn) d' s = deliver fn (stored_events sid n evs) s"
  using Append_ok [OF assms] rows_after_append [of d' d sid "clk 0" evs]
  by (simp add: Replay_def replay_loop_deliver stored_events_rows)

theorem Replay_after_Append_witness:
  "\<exists>d'. Append ''s'' [demo_event] (\<lambda>_. 7) initial_db = (d', Inr 1) \<and>
        Replay ''s'' 0 (Some (\<lambda>s e. (s @ [e_Seq e], None))) d' [] = ([1], Inr ())"
proof -
  have "snd (Append ''s'' [demo_event] (\<lambda>_. 7) initial_db) = Inr 1" by code_simp
  then obtain d' where a: "Append ''s'' [demo_event] (\<lambda>_. 7) initial_db = (d', Inr 1)"
    by (metis prod.collapse)
  then show ?thesis
    using Replay_after_Append [OF a, where fn = "\<lambda>s e. (s @ [e_Seq e], None)" and s = "[]"]
    by simp
qed

text \<open>
  C28: on a store whose logs are numbered, a reader that starts without a cursor and
  follows \<^verbatim>\<open>NextBeforeSeq\<close> from page to page gets, after finitely many pages, every event of the
  session exactly once and in order, for every page size the code admits.
\<close>

theorem History_complete:
  assumes "numbered d" "1 \<le> limit" "limit \<le> 100" "length (log_of d sid) < fuel"
  shows "history_walk fuel sid None limit d = Some (map row_event (log_of d sid))"
  using history_walk_prefix [of d limit None sid fuel] assms by (simp add: before_count_def)

definition demo_db :: db where
  "demo_db = fst (Append ''s'' [demo_event, demo_event, demo_event] (\<lambda>_. 7) initial_db)"

lemma initial_numbered: "numbered initial_db"
  by (simp add: numbered_log_def rows_of_def initial_db_def)

lemma demo_numbered: "numbered demo_db"
  using Append_log_step [of initial_db "''s''" "[demo_event, demo_event, demo_event]" "\<lambda>_. 7"]
  by (simp add: demo_db_def log_step_def initial_numbered)

theorem History_complete_witness:
  "history_walk 4 ''s'' None 2 demo_db = Some (map row_event (log_of demo_db ''s'')) \<and>
   length (log_of demo_db ''s'') = 3"
proof -
  have "length (log_of demo_db ''s'') = 3" by code_simp
  then show ?thesis using History_complete [OF demo_numbered, of 2 "''s''" 4] by simp
qed

text \<open>
  C29: \<open>Bootstrap\<close> of a numbered log returns, in strictly ascending sequence order, for
  each of the control-event types the latest event up to the watermark, and nothing else.
\<close>

theorem Bootstrap_latest:
  assumes d: "numbered d" and b: "Bootstrap sid q d = Inr es"
  shows "sorted_wrt (<) (map e_Seq es) \<and>
    set es = row_event ` {r \<in> set (log_of d sid). ev_type r \<in> set BootstrapEventTypes \<and> ev_seq r \<le> q \<and>
      (\<forall>r' \<in> set (log_of d sid). ev_type r' = ev_type r \<and> ev_seq r' \<le> q \<longrightarrow> ev_seq r' \<le> ev_seq r)}"
proof -
  let ?rows = "concat (map (latest_of_type d sid q) BootstrapEventTypes)"
  have es: "es = sort_key e_Seq (map row_event ?rows)" using b by (simp add: Bootstrap_def)
  have set_rows: "set ?rows = {r \<in> set (log_of d sid). ev_type r \<in> set BootstrapEventTypes \<and> ev_seq r \<le> q \<and>
      (\<forall>r' \<in> set (log_of d sid). ev_type r' = ev_type r \<and> ev_seq r' \<le> q \<longrightarrow> ev_seq r' \<le> ev_seq r)}"
    by (auto simp: latest_of_type_set [OF d])
  have "distinct (map e_Seq (map row_event ?rows))"
    by (rule bootstrap_distinct [OF d])
  then have "distinct (map e_Seq es)" by (simp only: es distinct_map [of e_Seq] distinct_sort set_sort)
  moreover have "sorted (map e_Seq es)" by (simp add: es)
  ultimately have "sorted_wrt (<) (map e_Seq es)" by (simp add: strict_sorted_iff)
  then show ?thesis using set_rows by (simp add: es)
qed

theorem Bootstrap_latest_witness:
  "\<exists>es. Bootstrap ''s'' 2 demo_db = Inr es \<and> sorted_wrt (<) (map e_Seq es) \<and> map e_Seq es = [2]"
proof -
  have "case Bootstrap ''s'' 2 demo_db of Inr es \<Rightarrow> map e_Seq es = [2] | Inl e \<Rightarrow> False" by code_simp
  then obtain es where b: "Bootstrap ''s'' 2 demo_db = Inr es" "map e_Seq es = [2]"
    by (cases "Bootstrap ''s'' 2 demo_db") auto
  moreover have "sorted_wrt (<) (map e_Seq es)"
    using Bootstrap_latest [OF demo_numbered b(1)] by (rule conjunct1)
  ultimately show ?thesis by (intro exI [of _ es] conjI)
qed

end
