(* ===== verification/Store_Step.thy ===== *)
theory Store_Step
  imports Events
begin

text \<open>
  What every operation of the store keeps. \<open>wf\<close> is the well-formedness invariant of the
  database: numbered logs, allocator-owned fences, and in every table unique keys, rows that
  satisfy the table's constraint and its foreign keys, and at most one active reservation per
  session. \<open>store_step\<close> relates the databases before and after a write: the log is only
  extended, rows of the ledgers only move forward, and \<open>wf\<close> is kept. It is reflexive and
  transitive, so an operation keeps it when each of its writes does; the lemmas below give it
  for every single write, and the components compose them.
\<close>

section \<open>Tables\<close>

definition tbl_ok :: "('k \<Rightarrow> 'r \<Rightarrow> bool) \<Rightarrow> ('k, 'r) table \<Rightarrow> bool" where
  "tbl_ok chk t \<longleftrightarrow> unique_keys t \<and> (\<forall>(k, r) \<in> set t. chk k r)"

definition one_active :: "('r \<Rightarrow> bool) \<Rightarrow> (string \<times> string, 'r) table \<Rightarrow> bool" where
  "one_active act t \<longleftrightarrow> (\<forall>(k, r) \<in> set t. act r \<longrightarrow> \<not> other_active act t k)"

definition tab_step :: "('r \<Rightarrow> 'r \<Rightarrow> bool) \<Rightarrow> ('k, 'r) table \<Rightarrow> ('k, 'r) table \<Rightarrow> bool" where
  "tab_step P t t' \<longleftrightarrow>
     (\<forall>k r. map_of t k = Some r \<longrightarrow> (\<exists>r'. map_of t' k = Some r' \<and> P r r'))"

lemma set_update_subset:
  "(k', r') \<in> set (AList.update k r t) \<Longrightarrow> (k' = k \<and> r' = r) \<or> (k', r') \<in> set t"
  by (induction t) (auto split: if_splits)

lemma set_delete_subset: "x \<in> set (AList.delete k t) \<Longrightarrow> x \<in> set t"
  by (simp add: AList.delete_eq)

lemma tbl_ok_put: "tbl_ok chk t \<Longrightarrow> chk k r \<Longrightarrow> tbl_ok chk (AList.update k r t)"
  by (auto simp: tbl_ok_def dest!: set_update_subset)

lemma tbl_ok_del: "tbl_ok chk t \<Longrightarrow> tbl_ok chk (AList.delete k t)"
  by (auto simp: tbl_ok_def dest!: set_delete_subset)

lemma tbl_ok_mono: "tbl_ok chk t \<Longrightarrow> (\<And>k r. chk k r \<Longrightarrow> chk' k r) \<Longrightarrow> tbl_ok chk' t"
  by (auto simp: tbl_ok_def)

lemma tbl_okD: "tbl_ok chk t \<Longrightarrow> map_of t k = Some r \<Longrightarrow> chk k r"
  by (auto simp: tbl_ok_def dest!: map_of_SomeD)

lemma update_set_eq:
  "unique_keys t \<Longrightarrow> set (AList.update k r t) = insert (k, r) {x \<in> set t. fst x \<noteq> k}"
  unfolding unique_keys_def by (induction t) (auto simp: image_iff)

lemma one_active_put:
  assumes "one_active act t" "unique_keys t" "act r \<Longrightarrow> \<not> other_active act t k"
  shows "one_active act (AList.update k r t)"
  using assms unfolding one_active_def other_active_def update_set_eq [OF assms(2)]
  by fastforce

lemma tab_step_refl: "(\<And>r. P r r) \<Longrightarrow> tab_step P t t"
  by (simp add: tab_step_def)

lemma tab_step_trans:
  "tab_step P t t' \<Longrightarrow> tab_step P t' t'' \<Longrightarrow> (\<And>a b c. P a b \<Longrightarrow> P b c \<Longrightarrow> P a c) \<Longrightarrow> tab_step P t t''"
  unfolding tab_step_def by meson

lemma tab_step_put:
  "(\<And>r. P r r) \<Longrightarrow> (\<And>old. map_of t k = Some old \<Longrightarrow> P old r) \<Longrightarrow> tab_step P t (AList.update k r t)"
  by (auto simp: tab_step_def)

section \<open>Progress of rows\<close>

definition conn_prog :: "connection_row \<Rightarrow> connection_row \<Rightarrow> bool" where
  "conn_prog c c' \<longleftrightarrow>
     cn_created_ms c' = cn_created_ms c \<and> cn_epoch c \<le> cn_epoch c' \<and> cn_fence c \<le> cn_fence c' \<and>
     cn_high_watermark c \<le> cn_high_watermark c' \<and>
     (cn_terminal_ms c \<noteq> None \<longrightarrow> cn_terminal_ms c' \<noteq> None) \<and>
     (cn_revoked_ms c \<noteq> None \<longrightarrow> cn_revoked_ms c' \<noteq> None) \<and>
     (cn_epoch c' = cn_epoch c \<longrightarrow> cn_active_gen c' = cn_active_gen c \<and> cn_fence c' = cn_fence c)"

definition command_rank :: "string \<Rightarrow> nat" where
  "command_rank s = (if s = ''pending'' then 0 else if s = ''received'' then 1 else 2)"

definition pending_prog :: "pending_row \<Rightarrow> pending_row \<Rightarrow> bool" where
  "pending_prog r r' \<longleftrightarrow>
     pc_type r' = pc_type r \<and> pc_event_seq r' = pc_event_seq r \<and> pc_expires_ns r' = pc_expires_ns r \<and>
     (r' = r \<or> command_rank (pc_status r) < command_rank (pc_status r'))"

text \<open>A settled reservation never changes again.\<close>

definition settles :: "('r \<Rightarrow> bool) \<Rightarrow> 'r \<Rightarrow> 'r \<Rightarrow> bool" where
  "settles act r r' \<longleftrightarrow> r' = r \<or> act r"

definition attach_prog :: "attachment_row \<Rightarrow> attachment_row \<Rightarrow> bool" where
  "attach_prog r r' \<longleftrightarrow>
     ac_bootstrap r' = ac_bootstrap r \<and> ac_target r' = ac_target r \<and>
     ac_lineage_ref r' = ac_lineage_ref r \<and>
     (r' = r \<or> ac_delivery_version r < ac_delivery_version r') \<and>
     (ac_status r = ''canceled'' \<longrightarrow> r' = r) \<and>
     (ac_status r = ''start_received'' \<longrightarrow> ac_status r' = ''start_received'') \<and>
     (ac_status r \<noteq> ''join_pending'' \<longrightarrow> ac_status r' \<noteq> ''join_pending'')"

definition lease_prog :: "lease_row \<Rightarrow> lease_row \<Rightarrow> bool" where
  "lease_prog r r' \<longleftrightarrow> r' = r \<or> wl_version r < wl_version r'"

lemma prog_refl [simp]:
  "conn_prog c c" "pending_prog p p" "settles act r r" "attach_prog a a" "lease_prog l l"
  by (simp_all add: conn_prog_def pending_prog_def settles_def attach_prog_def lease_prog_def)

lemma prog_trans:
  "conn_prog a b \<Longrightarrow> conn_prog b c \<Longrightarrow> conn_prog a c"
  "pending_prog p q \<Longrightarrow> pending_prog q r \<Longrightarrow> pending_prog p r"
  "settles act x y \<Longrightarrow> settles act y z \<Longrightarrow> settles act x z"
  "attach_prog e f \<Longrightarrow> attach_prog f g \<Longrightarrow> attach_prog e g"
  "lease_prog l m \<Longrightarrow> lease_prog m n \<Longrightarrow> lease_prog l n"
  by (auto simp: conn_prog_def pending_prog_def settles_def attach_prog_def lease_prog_def)

section \<open>Well-formed databases\<close>

definition fences_ok :: "db \<Rightarrow> bool" where
  "fences_ok d \<longleftrightarrow>
     1 \<le> main_next_fence d \<and> main_next_fence d \<le> side_next_fence d \<and>
     (\<forall>(sid, c) \<in> set (session_adapter_connections d).
        cn_fence c < main_next_fence d \<and> (cn_epoch c = 0 \<longleftrightarrow> cn_fence c = 0))"

definition pending_ok :: "event_row list \<Rightarrow> string \<times> string \<Rightarrow> pending_row \<Rightarrow> bool" where
  "pending_ok es k r \<longleftrightarrow> check_pending_row k r \<and> event_exists es (fst k) (pc_event_seq r)"

definition settings_ok :: "event_row list \<Rightarrow> string \<times> string \<Rightarrow> settings_row \<Rightarrow> bool" where
  "settings_ok es k r \<longleftrightarrow>
     check_settings_row k r \<and> opt_all (event_exists es (fst k)) (st_terminal_seq r) \<and>
     event_exists es (fst k) (st_reserved_event_seq r)"

definition run_ok :: "event_row list \<Rightarrow> string \<times> string \<Rightarrow> run_row \<Rightarrow> bool" where
  "run_ok es k r \<longleftrightarrow> check_run_row k r \<and> opt_all (event_exists es (fst k)) (rc_terminal_seq r)"

definition file_ok :: "event_row list \<Rightarrow> string \<times> string \<Rightarrow> file_row \<Rightarrow> bool" where
  "file_ok es k r \<longleftrightarrow> check_file_row k r \<and> opt_all (event_exists es (fst k)) (fr_terminal_seq r)"

definition proposal_ok :: "event_row list \<Rightarrow> string \<times> string \<Rightarrow> proposal_row \<Rightarrow> bool" where
  "proposal_ok es k r \<longleftrightarrow> check_proposal_row k r \<and> event_exists es (fst k) (pr_event_seq r)"

text \<open>A session is the target of at most one attachment.\<close>

definition one_target :: "(string, attachment_row) table \<Rightarrow> bool" where
  "one_target t \<longleftrightarrow>
     (\<forall>(a, r) \<in> set t. \<forall>(a', r') \<in> set t. ac_target r = ac_target r' \<longrightarrow> a = a')"

definition ledgers_ok :: "db \<Rightarrow> bool" where
  "ledgers_ok d \<longleftrightarrow>
     tbl_ok (pending_ok (session_events d)) (session_pending_commands d) \<and>
     tbl_ok (settings_ok (session_events d)) (session_settings_commands d) \<and>
     one_active settings_active (session_settings_commands d) \<and>
     tbl_ok (run_ok (session_events d)) (session_run_controls d) \<and>
     one_active run_active (session_run_controls d) \<and>
     tbl_ok (file_ok (session_events d)) (session_file_reference_commands d) \<and>
     one_active file_active (session_file_reference_commands d) \<and>
     tbl_ok (proposal_ok (session_events d)) (session_event_proposals d)"

definition plain_ok :: "db \<Rightarrow> bool" where
  "plain_ok d \<longleftrightarrow>
     tbl_ok check_summary_row (session_attention_summaries d) \<and>
     tbl_ok check_connection_row (session_adapter_connections d) \<and>
     tbl_ok check_attachment_row (session_attachments d) \<and> one_target (session_attachments d) \<and>
     tbl_ok check_lease_row (session_workspace_leases d) \<and>
     tbl_ok check_attempt_row (session_attach_attempts d)"

definition wf :: "db \<Rightarrow> bool" where
  "wf d \<longleftrightarrow> numbered d \<and> fences_ok d \<and> ledgers_ok d \<and> plain_ok d"

definition ledger_step :: "db \<Rightarrow> db \<Rightarrow> bool" where
  "ledger_step d d' \<longleftrightarrow>
     tab_step conn_prog (session_adapter_connections d) (session_adapter_connections d') \<and>
     main_next_fence d \<le> main_next_fence d' \<and> side_next_fence d \<le> side_next_fence d' \<and>
     tab_step pending_prog (session_pending_commands d) (session_pending_commands d') \<and>
     tab_step (settles settings_active) (session_settings_commands d) (session_settings_commands d') \<and>
     tab_step (settles run_active) (session_run_controls d) (session_run_controls d') \<and>
     tab_step (settles file_active) (session_file_reference_commands d)
       (session_file_reference_commands d') \<and>
     tab_step (=) (session_event_proposals d) (session_event_proposals d') \<and>
     tab_step attach_prog (session_attachments d) (session_attachments d') \<and>
     tab_step lease_prog (session_workspace_leases d) (session_workspace_leases d')"

definition extends_log :: "db \<Rightarrow> db \<Rightarrow> bool" where
  "extends_log d d' \<longleftrightarrow> (\<exists>rs. session_events d' = session_events d @ rs)"

definition store_step :: "db \<Rightarrow> db \<Rightarrow> bool" where
  "store_step d d' \<longleftrightarrow> extends_log d d' \<and> ledger_step d d' \<and> (wf d \<longrightarrow> wf d')"

section \<open>Composition\<close>

lemma ledger_step_refl: "ledger_step d d"
  by (simp add: ledger_step_def tab_step_refl)

lemma ledger_step_trans: "ledger_step a b \<Longrightarrow> ledger_step b c \<Longrightarrow> ledger_step a c"
  unfolding ledger_step_def
  by (intro conjI) (auto intro: tab_step_trans prog_trans order_trans)

lemma store_step_refl [simp, intro]: "store_step d d"
  by (auto simp: store_step_def extends_log_def ledger_step_refl)

lemma store_step_trans [trans]: "store_step a b \<Longrightarrow> store_step b c \<Longrightarrow> store_step a c"
  unfolding store_step_def extends_log_def by (auto intro: ledger_step_trans)

lemma transaction_step:
  "(\<And>d' x. f d = Inr (d', x) \<Longrightarrow> store_step d d') \<Longrightarrow> store_step d (fst (transaction f d))"
  by (rule transaction_rel [where R = store_step]) auto

lemma pbind_step:
  assumes "store_step d (fst (p d))" "\<And>d' x. p d = (d', Inr x) \<Longrightarrow> store_step d' (fst (f x d'))"
  shows "store_step d (fst (pbind p f d))"
  by (rule pbind_rel [where R = store_step]) (auto intro: assms store_step_trans)

lemma prog_step [simp, intro]:
  "store_step d (fst (pret x d))" "store_step d (fst (pfail e d))" "store_step d (fst (pget q d))"
  by (rule prog_rel [where R = store_step], simp)+

lemma pexec_step: "(\<And>d'. w d = Inr d' \<Longrightarrow> store_step d d') \<Longrightarrow> store_step d (fst (pexec w d))"
  by (rule prog_rel [where R = store_step]) auto

lemma pcall_step: "(\<And>d' x. w d = Inr (d', x) \<Longrightarrow> store_step d d') \<Longrightarrow> store_step d (fst (pcall w d))"
  by (rule prog_rel [where R = store_step]) auto

text \<open>Foreign keys and constraints that only look at the log survive its extension.\<close>

lemma event_exists_append: "event_exists es sid n \<Longrightarrow> event_exists (es @ rs) sid n"
  by (auto simp: event_exists_def)

lemma opt_all_mono: "(\<And>x. P x \<Longrightarrow> Q x) \<Longrightarrow> opt_all P y \<Longrightarrow> opt_all Q y"
  by (cases y) auto

lemma rows_ok_append:
  "pending_ok es k p \<Longrightarrow> pending_ok (es @ rs) k p" "settings_ok es k s \<Longrightarrow> settings_ok (es @ rs) k s"
  "run_ok es k r \<Longrightarrow> run_ok (es @ rs) k r" "file_ok es k f \<Longrightarrow> file_ok (es @ rs) k f"
  "proposal_ok es k q \<Longrightarrow> proposal_ok (es @ rs) k q"
  by (auto simp: pending_ok_def settings_ok_def run_ok_def file_ok_def proposal_ok_def
      intro: event_exists_append elim: opt_all_mono [rotated])

section \<open>Single writes\<close>

lemma ledgers_ok_append:
  "ledgers_ok d \<Longrightarrow> ledgers_ok (d\<lparr>session_events := session_events d @ rs\<rparr>)"
  by (auto simp: ledgers_ok_def intro: tbl_ok_mono rows_ok_append)

lemma store_step_event:
  assumes "insert_event r d = Inr d'" "ev_seq r = latest_seq d (ev_session r) + 1"
  shows "store_step d d'"
proof -
  have d': "d' = d\<lparr>session_events := session_events d @ [r]\<rparr>"
    using insert_event_frame [OF assms(1)] by simp
  have "numbered d \<longrightarrow> numbered d'"
    using insert_event_log_step [OF assms] by (simp add: log_step_def)
  then show ?thesis
    by (simp add: store_step_def extends_log_def ledger_step_def tab_step_refl wf_def fences_ok_def
        plain_ok_def d' ledgers_ok_append)
qed

lemma store_step_lifecycle:
  "appendRunControlEventExecutor sid ty payload now d = Inr (d', n) \<Longrightarrow> store_step d d'"
  by (auto simp: appendRunControlEventExecutor_def Let_def dest!: store_step_event)

lemmas step_unfold =
  store_step_def extends_log_def ledger_step_def wf_def ledgers_ok_def plain_ok_def fences_ok_def

lemma store_step_summary:
  "put_summary sid r d = Inr d' \<Longrightarrow> store_step d d'"
  by (drule put_summary_frame) (simp add: step_unfold tab_step_refl tbl_ok_put)

lemma store_step_upsert:
  "upsertSQLiteAttentionSummary s now d = Inr d' \<Longrightarrow> store_step d d'"
  by (auto simp: upsertSQLiteAttentionSummary_def Let_def dest: store_step_summary split: if_splits)

lemma store_step_ledger:
  "upsertSQLiteAttentionLedger sid b c now d = Inr d' \<Longrightarrow> store_step d d'"
  by (auto simp: upsertSQLiteAttentionLedger_def Let_def dest: store_step_upsert
      split: sum.splits err.splits option.splits)

lemma store_step_project:
  "projectSQLiteAttentionEvent sid n ev now d = Inr (d', t) \<Longrightarrow> store_step d d'"
  by (auto simp: projectSQLiteAttentionEvent_def Let_def dest: store_step_upsert
      split: sum.splits err.splits)

lemma wf_connection:
  assumes "wf d" "map_of (session_adapter_connections d) sid = Some c"
  shows "(cn_epoch c = 0 \<longleftrightarrow> cn_fence c = 0)" "cn_fence c < main_next_fence d"
    "check_connection_row sid c"
  using assms(1) map_of_SomeD [OF assms(2)]
  by (auto simp: wf_def fences_ok_def plain_ok_def tbl_ok_def)

lemma store_step_connection:
  assumes u: "update_connection sid c' d = Inr d'"
    and prog: "\<And>c. map_of (session_adapter_connections d) sid = Some c \<Longrightarrow>
      cn_created_ms c' = cn_created_ms c \<and> cn_epoch c \<le> cn_epoch c' \<and>
      cn_high_watermark c \<le> cn_high_watermark c' \<and>
      (cn_terminal_ms c \<noteq> None \<longrightarrow> cn_terminal_ms c' \<noteq> None) \<and>
      (cn_revoked_ms c \<noteq> None \<longrightarrow> cn_revoked_ms c' \<noteq> None) \<and>
      (cn_epoch c' = cn_epoch c \<longrightarrow> cn_active_gen c' = cn_active_gen c \<and> cn_fence c' = cn_fence c)"
    and zero: "\<And>c. map_of (session_adapter_connections d) sid = Some c \<Longrightarrow> wf d \<Longrightarrow>
      (cn_epoch c' = 0 \<longleftrightarrow> cn_fence c' = 0)"
  shows "store_step d d'"
  using u
proof (cases rule: update_connection_frame)
  case (row c)
  let ?t = "AList.update sid c' (session_adapter_connections d)"
  have p: "conn_prog c c'" using prog [OF row(1)] row(3) by (auto simp: conn_prog_def)
  then have "tab_step conn_prog (session_adapter_connections d) ?t"
    using row(1) by (intro tab_step_put) auto
  then have "ledger_step d d'" using row(4) by (simp add: ledger_step_def tab_step_refl)
  moreover have "fences_ok d'" if "wf d"
  proof -
    have "cn_fence c' < main_next_fence d \<and> (cn_epoch c' = 0 \<longleftrightarrow> cn_fence c' = 0)"
      using zero [OF row(1) that] row(3) wf_connection(2) [OF that row(1)] by auto
    then show ?thesis
      using that row(4) by (auto simp: wf_def fences_ok_def dest!: set_update_subset)
  qed
  moreover have "plain_ok d'" if "wf d"
    using that row(2,4) by (simp add: wf_def plain_ok_def tbl_ok_put)
  ultimately show ?thesis
    using row(4) by (simp add: store_step_def extends_log_def wf_def ledgers_ok_def)
qed simp

lemma store_step_new_connection:
  assumes "cn_epoch c = 0" "cn_fence c = 0"
  shows "store_step d (insert_or_ignore_connection sid c d)"
proof (cases "\<not> check_connection_row sid c \<or> map_of (session_adapter_connections d) sid \<noteq> None")
  case False
  let ?t = "AList.update sid c (session_adapter_connections d)"
  have "tab_step conn_prog (session_adapter_connections d) ?t"
    using False by (intro tab_step_put) auto
  moreover have "fences_ok d \<Longrightarrow> \<forall>(s, r) \<in> set ?t. cn_fence r < main_next_fence d \<and> (cn_epoch r = 0 \<longleftrightarrow> cn_fence r = 0)"
    using assms by (auto simp: fences_ok_def dest!: set_update_subset)
  ultimately show ?thesis
    using False by (simp add: insert_or_ignore_connection_def step_unfold tab_step_refl tbl_ok_put)
qed (auto simp: insert_or_ignore_connection_def)

lemma store_step_side: "side_next_fence d \<le> n \<Longrightarrow> store_step d (d\<lparr>side_next_fence := n\<rparr>)"
  by (auto simp: step_unfold tab_step_refl)

lemma store_step_main:
  "main_next_fence d \<le> n \<Longrightarrow> (main_next_fence d \<le> side_next_fence d \<Longrightarrow> n \<le> side_next_fence d) \<Longrightarrow>
   store_step d (d\<lparr>main_next_fence := n\<rparr>)"
  by (auto simp: step_unfold tab_step_refl)

lemma store_step_untracked [simp, intro]:
  "store_step d (d\<lparr>session_settings_live_writers := a\<rparr>)"
  "store_step d (d\<lparr>session_settings_capabilities := b\<rparr>)"
  "store_step d (d\<lparr>session_run_control_capabilities := e\<rparr>)"
  "store_step d (d\<lparr>session_file_reference_capabilities := f\<rparr>)"
  "store_step d (d\<lparr>migration_state := g, migration_checkpoint := h\<rparr>)"
  by (simp_all add: step_unfold tab_step_refl)

lemma store_step_live_writer: "put_live_writer sid w d = Inr d' \<Longrightarrow> store_step d d'"
  by (auto simp: put_live_writer_def split: if_splits)

lemma store_step_caps:
  "put_settings_cap sid r d = Inr d' \<Longrightarrow> store_step d d'"
  "put_run_cap sid s d = Inr d' \<Longrightarrow> store_step d d'"
  "put_file_cap sid t d = Inr d' \<Longrightarrow> store_step d d'"
  by (auto simp: put_settings_cap_def put_run_cap_def put_file_cap_def split: if_splits)

lemma store_step_pending:
  assumes "put_pending k r d = Inr d'"
    and "\<And>old. map_of (session_pending_commands d) k = Some old \<Longrightarrow> pending_prog old r"
  shows "store_step d d'"
  using assms tab_step_put [of pending_prog "session_pending_commands d" k r]
  by (auto simp: put_pending_def step_unfold tab_step_refl pending_ok_def intro!: tbl_ok_put
      split: if_splits)

lemma store_step_insert_pending: "insert_pending k r d = Inr d' \<Longrightarrow> store_step d d'"
  by (auto simp: insert_pending_def split: if_splits intro: store_step_pending)

lemma tbl_ok_unique: "tbl_ok chk t \<Longrightarrow> unique_keys t"
  by (simp add: tbl_ok_def)

lemma store_step_settings:
  assumes "put_settings k r d = Inr d'"
    and "\<And>old. map_of (session_settings_commands d) k = Some old \<Longrightarrow> settings_active old"
  shows "store_step d d'"
proof -
  let ?t = "AList.update k r (session_settings_commands d)"
  have d': "d' = d\<lparr>session_settings_commands := ?t\<rparr>" and ok: "settings_ok (session_events d) k r"
    and act: "settings_active r \<Longrightarrow> \<not> other_active settings_active (session_settings_commands d) k"
    using assms(1) by (auto simp: put_settings_def settings_ok_def split: if_splits)
  have "tab_step (settles settings_active) (session_settings_commands d) ?t"
    using assms(2) by (intro tab_step_put) (auto simp: settles_def)
  then show ?thesis
    using ok by (auto simp: step_unfold tab_step_refl d' intro!: tbl_ok_put one_active_put act
        intro: tbl_ok_unique)
qed

lemma store_step_run:
  assumes "put_run k r d = Inr d'"
    and "\<And>old. map_of (session_run_controls d) k = Some old \<Longrightarrow> run_active old"
  shows "store_step d d'"
proof -
  let ?t = "AList.update k r (session_run_controls d)"
  have d': "d' = d\<lparr>session_run_controls := ?t\<rparr>" and ok: "run_ok (session_events d) k r"
    and act: "run_active r \<Longrightarrow> \<not> other_active run_active (session_run_controls d) k"
    using assms(1) by (auto simp: put_run_def run_ok_def split: if_splits)
  have "tab_step (settles run_active) (session_run_controls d) ?t"
    using assms(2) by (intro tab_step_put) (auto simp: settles_def)
  then show ?thesis
    using ok by (auto simp: step_unfold tab_step_refl d' intro!: tbl_ok_put one_active_put act
        intro: tbl_ok_unique)
qed

lemma store_step_file:
  assumes "put_file k r d = Inr d'"
    and "\<And>old. map_of (session_file_reference_commands d) k = Some old \<Longrightarrow> file_active old"
  shows "store_step d d'"
proof -
  let ?t = "AList.update k r (session_file_reference_commands d)"
  have d': "d' = d\<lparr>session_file_reference_commands := ?t\<rparr>" and ok: "file_ok (session_events d) k r"
    and act: "file_active r \<Longrightarrow> \<not> other_active file_active (session_file_reference_commands d) k"
    using assms(1) by (auto simp: put_file_def file_ok_def split: if_splits)
  have "tab_step (settles file_active) (session_file_reference_commands d) ?t"
    using assms(2) by (intro tab_step_put) (auto simp: settles_def)
  then show ?thesis
    using ok by (auto simp: step_unfold tab_step_refl d' intro!: tbl_ok_put one_active_put act
        intro: tbl_ok_unique)
qed

lemma store_step_proposal: "insert_proposal k r d = Inr d' \<Longrightarrow> store_step d d'"
  using tab_step_put [of "(=)" "session_event_proposals d" k r]
  by (auto simp: insert_proposal_def step_unfold tab_step_refl proposal_ok_def intro!: tbl_ok_put
      split: if_splits)

lemma store_step_attempt: "insert_attempt jti r d = Inr d' \<Longrightarrow> store_step d d'"
  by (auto simp: insert_attempt_def step_unfold tab_step_refl intro!: tbl_ok_put split: if_splits)

lemma tbl_ok_filter: "tbl_ok chk t \<Longrightarrow> tbl_ok chk (filter P t)"
  by (auto simp: tbl_ok_def unique_keys_def intro: distinct_map_filter)

lemma store_step_drop_attempts:
  "store_step d (d\<lparr>session_attach_attempts := filter P (session_attach_attempts d)\<rparr>)"
  by (auto simp: step_unfold tab_step_refl intro: tbl_ok_filter)

lemma one_target_put:
  assumes "one_target t" "\<forall>(a, r') \<in> set t. a \<noteq> aid \<longrightarrow> ac_target r' \<noteq> ac_target r"
  shows "one_target (AList.update aid r t)"
proof -
  have "a = a'" if "(a, x) \<in> set (AList.update aid r t)" "(a', x') \<in> set (AList.update aid r t)"
    "ac_target x = ac_target x'" for a x a' x'
    using set_update_subset [OF that(1)] set_update_subset [OF that(2)]
  proof (elim disjE conjE)
    assume "(a, x) \<in> set t" "(a', x') \<in> set t"
    then show ?thesis using assms(1) that(3) unfolding one_target_def by fast
  qed (use assms(2) that(3) in force)+
  then show ?thesis unfolding one_target_def by blast
qed

lemma store_step_attachment:
  assumes "put_attachment aid r d = Inr d'"
    and "\<And>old. map_of (session_attachments d) aid = Some old \<Longrightarrow> attach_prog old r"
  shows "store_step d d'"
  using assms tab_step_put [of attach_prog "session_attachments d" aid r]
  by (auto simp: put_attachment_def step_unfold tab_step_refl intro!: tbl_ok_put one_target_put
      split: if_splits)

lemma store_step_insert_attachment: "insert_attachment aid r d = Inr d' \<Longrightarrow> store_step d d'"
  by (auto simp: insert_attachment_def split: if_splits intro: store_step_attachment)

lemma store_step_lease:
  assumes "put_lease key r d = Inr d'"
    and "\<And>old. map_of (session_workspace_leases d) key = Some old \<Longrightarrow> lease_prog old r"
  shows "store_step d d'"
  using assms tab_step_put [of lease_prog "session_workspace_leases d" key r]
  by (auto simp: put_lease_def step_unfold tab_step_refl intro!: tbl_ok_put split: if_splits)

lemma store_step_insert_lease: "insert_lease key r d = Inr d' \<Longrightarrow> store_step d d'"
  by (auto simp: insert_lease_def split: if_splits intro: store_step_lease)

lemma store_step_or_ignore:
  "(\<And>d'. w = Inr d' \<Longrightarrow> store_step d d') \<Longrightarrow> store_step d (or_ignore w d)"
  by (auto simp: or_ignore_def split: sum.splits)

section \<open>The event log and the attention projection\<close>

lemma store_step_fence_terminal: "fence_terminal sid now d = Inr d' \<Longrightarrow> store_step d d'"
  by (auto simp: fence_terminal_def split: option.splits if_splits elim!: store_step_connection
      dest: wf_connection(1))

lemma latest_after_insert:
  assumes "insert_event r d = Inr d'" "ev_seq r = latest_seq d (ev_session r) + 1"
  shows "latest_seq d' (ev_session r) = ev_seq r"
proof -
  have d': "session_events d' = session_events d @ [r]"
    using insert_event_frame [OF assms(1)] by simp
  show ?thesis
    using assms(2) max0_snoc [of "map ev_seq (filter (\<lambda>x. ev_session x = ev_session r) (session_events d))" "ev_seq r"]
    by (cases "filter (\<lambda>x. ev_session x = ev_session r) (session_events d) = []")
      (auto simp: d' max_seq_def max0_def)
qed

lemma append_loop_step:
  "append_loop sid n c clk i evs d = Inr d' \<Longrightarrow> n = latest_seq d sid + 1 \<Longrightarrow> store_step d d'"
proof (induction evs arbitrary: n i d)
  case (Cons ev evs)
  let ?r = "event_row_of sid n c ev"
  obtain d1 d2 t d3 where step: "insert_event ?r d = Inr d1"
    "projectSQLiteAttentionEvent sid n ev (clk i) d1 = Inr (d2, t)"
    "(if t then fence_terminal sid (clk i) d2 else Inr d2) = Inr d3"
    "append_loop sid (n + 1) c clk (Suc i) evs d3 = Inr d'"
    using Cons.prems(1) by (auto simp: event_row_of_def)
  have seq: "ev_seq ?r = latest_seq d (ev_session ?r) + 1" and sid: "ev_session ?r = sid" "ev_seq ?r = n"
    using Cons.prems(2) by (simp_all add: event_row_of_def)
  have "session_events d3 = session_events d2"
    using step(3) by (auto split: if_splits dest!: fence_terminal_frame)
  also have "\<dots> = session_events d1" by (rule project_frame [OF step(2)]) simp
  finally have "latest_seq d3 sid = n"
    using latest_after_insert [OF step(1) seq] sid by simp
  then have rest: "store_step d3 d'" using Cons.IH [OF step(4)] by simp
  have "store_step d d1" by (rule store_step_event [OF step(1) seq])
  also have "store_step d1 d2" by (rule store_step_project [OF step(2)])
  also have "store_step d2 d3" using step(3) by (auto split: if_splits dest: store_step_fence_terminal)
  also note rest
  finally show ?case .
qed simp

lemma Append_step: "store_step d (fst (Append sid evs clk d))"
proof (cases "evs = []")
  case False
  have "store_step d d'" if "Append_tx sid evs clk d = Inr (d', x)" for d' x
    using that append_loop_step [OF _ refl] by (auto simp: Append_tx_def Let_def)
  then show ?thesis
    unfolding Append_def if_not_P [OF False] by (rule transaction_step)
qed (simp add: Append_def)

lemma store_step_backfill_fence: "backfill_fence sid now d = Inr d' \<Longrightarrow> store_step d d'"
  by (auto simp: backfill_fence_def split: option.splits elim!: store_step_connection
      dest: wf_connection(1))

lemma backfill_loop_step: "backfill_loop now sids d = Inr d' \<Longrightarrow> store_step d d'"
proof (induction sids arbitrary: d)
  case (Cons sid sids)
  then obtain s d1 d2 where "upsertSQLiteAttentionSummary s now d = Inr d1"
    "backfill_fence sid now d1 = Inr d2" "backfill_loop now sids d2 = Inr d'"
    by auto
  then show ?case
    by (meson Cons.IH store_step_upsert store_step_backfill_fence store_step_trans)
qed simp

lemma Backfill_step: "store_step d (fst (BackfillAttentionBatch limit clk d))"
proof (cases "limit < 1 \<or> limit > maxSQLiteAttentionBackfillBatch")
  case False
  have "store_step d d'" if tx: "BackfillAttentionBatch_tx limit clk d = Inr (d', x)" for d' x
  proof -
    let ?sids = "take (nat limit) (backfill_sessions d (migration_checkpoint d) (nat (limit + 1)))"
    obtain d1 where d1: "backfill_loop (clk 0) ?sids d = Inr d1"
      using tx by (auto simp: BackfillAttentionBatch_tx_def Let_def split: if_splits)
    let ?cp = "if ?sids = [] then migration_checkpoint d else last ?sids"
    have "d' = d1\<lparr>migration_state := migration_state d', migration_checkpoint := ?cp\<rparr>"
      using tx d1 by (auto simp: BackfillAttentionBatch_tx_def Let_def split: if_splits)
    then have "store_step d1 d'" by (metis store_step_untracked(5))
    then show ?thesis by (rule store_step_trans [OF backfill_loop_step [OF d1]])
  qed
  then show ?thesis
    unfolding BackfillAttentionBatch_def if_not_P [OF False] by (rule transaction_step)
qed (simp add: BackfillAttentionBatch_def)

end
