(* ===== verification/Connections.thy ===== *)
theory Connections
  imports Store_Step
begin

text \<open>
  Adapter connections of the SQLite store: the fence allocator with its own database file, the
  pre-hello operations, hello, admission, receipts, credential rotation and activation, and the
  fencing of the ledgers when a writer is replaced. The allocation of a fence goes through a
  second handle (\<^verbatim>\<open>fenceDB\<close>), so a rollback of the main transaction does not undo it:
  \<open>atomic\<close> restores every field but \<open>side_next_fence\<close>.
\<close>

section \<open>Structs\<close>

record AdapterConnection_rec =
  ad_SessionID :: string
  ad_ConnectionEpoch :: int
  ad_AcceptedFence :: int
  ad_ActiveCredentialGeneration :: int
  ad_CredentialGenerationHighWatermark :: int
  ad_ActiveCredentialExpiresAt :: gotime
  ad_PendingCredentialGeneration :: "int option"
  ad_PendingCredentialExpiresAt :: "gotime option"
  ad_PriorRecoveryGeneration :: "int option"
  ad_RotationID :: "string option"
  ad_RevokedAt :: "gotime option"
  ad_TerminalAt :: "gotime option"

record AdapterConnectionInitialize =
  ai_SessionID :: string
  ai_ActiveCredentialGeneration :: int
  ai_ActiveCredentialExpiresAt :: gotime

record AdapterCredentialPreHelloRefresh =
  ar_ExpectedActiveCredentialGeneration :: int
  ar_ActiveCredentialExpiresAt :: gotime

record AdapterHello =
  ah_CredentialGeneration :: int
  ah_WriterLeaseID :: string

record AdapterConnectionAdmission =
  am_CredentialGeneration :: int
  am_ConnectionEpoch :: int
  am_AcceptedFence :: int
  am_GrantFence :: int

record ConnectionAuthorityReceipt =
  cr_SessionID :: string
  cr_ConnectionEpoch :: int
  cr_CredentialGeneration :: int
  cr_AcceptedFence :: int
  cr_WriterLeaseID :: string
  cr_ExpiresAt :: gotime

record AdapterCredentialRotation =
  ro_ExpectedActiveCredentialGeneration :: int
  ro_ExpectedEpoch :: int
  ro_PendingGeneration :: int
  ro_ExpiresAt :: gotime
  ro_RotationID :: string

record AdapterCredentialActivation =
  aa_ExpectedActiveCredentialGeneration :: int
  aa_ExpectedEpoch :: int
  aa_PendingGeneration :: int
  aa_RotationID :: string

record WarmAttachTargetActivation =
  ta_Generation :: int
  ta_ExpiresAt :: gotime

section \<open>Rows and authority\<close>

definition validAttachmentText :: "string \<Rightarrow> nat \<Rightarrow> bool" where
  "validAttachmentText value limit \<longleftrightarrow> length value > 0 \<and> length value \<le> limit"

definition validAdapterConnectionRow :: "string \<Rightarrow> connection_row \<Rightarrow> int \<Rightarrow> int \<Rightarrow> bool" where
  "validAdapterConnectionRow sid c now next_fence \<longleftrightarrow>
     validConnectionID sid \<and> cn_epoch c \<ge> 0 \<and> cn_fence c \<ge> 0 \<and>
     (cn_epoch c = 0) = (cn_fence c = 0) \<and>
     cn_active_gen c \<ge> 1 \<and> cn_high_watermark c \<ge> cn_active_gen c \<and>
     cn_active_expires_ms c > cn_created_ms c \<and> cn_created_ms c \<ge> 1 \<and>
     cn_created_ms c \<le> cn_updated_ms c \<and> cn_updated_ms c \<le> now \<and>
     next_fence \<ge> 1 \<and> cn_fence c < next_fence \<and>
     (cn_pending_gen c = None) = (cn_pending_expires_ms c = None) \<and>
     (cn_pending_gen c = None) = (cn_rotation_id c = None) \<and>
     opt_all (\<lambda>g. g \<ge> 1 \<and> g \<le> cn_high_watermark c \<and> g \<noteq> cn_active_gen c \<and>
        opt_all (\<lambda>h. g \<noteq> h) (cn_prior_gen c) \<and>
        opt_all (\<lambda>x. x > cn_created_ms c) (cn_pending_expires_ms c) \<and>
        opt_all (\<lambda>i. validAttachmentText i 255) (cn_rotation_id c)) (cn_pending_gen c) \<and>
     opt_all (\<lambda>g. g \<ge> 1 \<and> g \<le> cn_high_watermark c \<and> g \<noteq> cn_active_gen c) (cn_prior_gen c) \<and>
     opt_all (\<lambda>x. x \<ge> cn_created_ms c \<and> x \<le> now) (cn_revoked_ms c) \<and>
     opt_all (\<lambda>x. x \<ge> cn_created_ms c \<and> x \<le> now) (cn_terminal_ms c)"

definition row_connection :: "string \<Rightarrow> connection_row \<Rightarrow> AdapterConnection_rec" where
  "row_connection sid c =
     \<lparr>ad_SessionID = sid, ad_ConnectionEpoch = cn_epoch c, ad_AcceptedFence = cn_fence c,
      ad_ActiveCredentialGeneration = cn_active_gen c,
      ad_CredentialGenerationHighWatermark = cn_high_watermark c,
      ad_ActiveCredentialExpiresAt = fromMilli (cn_active_expires_ms c),
      ad_PendingCredentialGeneration = cn_pending_gen c,
      ad_PendingCredentialExpiresAt = map_option fromMilli (cn_pending_expires_ms c),
      ad_PriorRecoveryGeneration = cn_prior_gen c, ad_RotationID = cn_rotation_id c,
      ad_RevokedAt = map_option fromMilli (cn_revoked_ms c),
      ad_TerminalAt = map_option fromMilli (cn_terminal_ms c)\<rparr>"

definition queryAdapterConnectionWhere ::
  "string \<Rightarrow> (connection_row \<Rightarrow> bool) \<Rightarrow> int \<Rightarrow> db \<Rightarrow> AdapterConnection_rec res" where
  "queryAdapterConnectionWhere sid P now d =
     (case map_of (session_adapter_connections d) sid of
        None \<Rightarrow> Inl NoRows
      | Some c \<Rightarrow>
          if \<not> P c then Inl NoRows
          else if \<not> validAdapterConnectionRow sid c now (main_next_fence d)
          then Inl (Fail ''adapter connection row is invalid'')
          else Inr (row_connection sid c))"

definition queryAdapterConnection :: "string \<Rightarrow> int \<Rightarrow> db \<Rightarrow> AdapterConnection_rec res" where
  "queryAdapterConnection sid = queryAdapterConnectionWhere sid (\<lambda>_. True)"

definition AdapterConnection :: "string \<Rightarrow> int \<Rightarrow> db \<Rightarrow> AdapterConnection_rec res" where
  "AdapterConnection sid now d =
     (if \<not> validConnectionID sid then Inl (Fail ''invalid adapter connection session'')
      else queryAdapterConnection sid now d)"

definition current_authority :: "db \<Rightarrow> string \<Rightarrow> CommandAuthority \<Rightarrow> int \<Rightarrow> bool" where
  "current_authority d sid authority now =
     (case map_of (session_adapter_connections d) sid of
        None \<Rightarrow> False
      | Some c \<Rightarrow> cn_epoch c = ca_ConnectionEpoch authority \<and>
          cn_active_gen c = ca_CredentialGeneration authority \<and>
          cn_active_expires_ms c > now \<and> cn_revoked_ms c = None \<and> cn_terminal_ms c = None)"

definition validateCommandAuthority :: "string \<Rightarrow> CommandAuthority \<Rightarrow> int \<Rightarrow> db \<Rightarrow> unit res" where
  "validateCommandAuthority sid authority now d =
     (if current_authority d sid authority now then Inr ()
      else Inl (Fail ''command authority is no longer current''))"

text \<open>The lock is an update that leaves the row as it is; it matches the same rows.\<close>

definition lockCommandAuthority :: "string \<Rightarrow> CommandAuthority \<Rightarrow> int \<Rightarrow> db \<Rightarrow> unit res" where
  "lockCommandAuthority sid authority now d =
     (if current_authority d sid authority now then Inr ()
      else Inl (Fail ''command authority is no longer current''))"

definition validateLiveSettingsWriter :: "string \<Rightarrow> SettingsWriter \<Rightarrow> int \<Rightarrow> db \<Rightarrow> unit res" where
  "validateLiveSettingsWriter sid writer now d =
     (if map_of (session_settings_live_writers d) sid = Some writer \<and>
         (case map_of (session_adapter_connections d) sid of
            None \<Rightarrow> False
          | Some c \<Rightarrow> cn_epoch c = w_ConnectionEpoch writer \<and>
              cn_active_gen c = w_CredentialGeneration writer \<and>
              cn_active_expires_ms c > now \<and> cn_revoked_ms c = None \<and> cn_terminal_ms c = None)
      then Inr () else Inl (Fail ''settings writer has no live authority''))"

section \<open>Fences\<close>

definition atomic :: "(db, 'a) prog \<Rightarrow> (db, 'a) prog" where
  "atomic p d =
     (case p d of
        (d', Inl e) \<Rightarrow> (d\<lparr>side_next_fence := side_next_fence d'\<rparr>, Inl e)
      | (d', Inr x) \<Rightarrow> (d', Inr x))"

definition WithAdapterConnectionTransaction :: "(db, unit) prog option \<Rightarrow> (db, unit) prog" where
  "WithAdapterConnectionTransaction fn =
     (case fn of
        None \<Rightarrow> pfail (Fail ''adapter connection transaction callback is nil'')
      | Some p \<Rightarrow> atomic p)"

definition allocateAdapterFence :: "(db, int) prog" where
  "allocateAdapterFence d =
     (if \<not> side_next_fence d < 9223372036854775807 then (d, Inl NoRows)
      else (d\<lparr>side_next_fence := side_next_fence d + 1\<rparr>,
            if side_next_fence d < 1 then Inl (Fail ''sqlite allocated invalid grant fence'')
            else Inr (side_next_fence d)))"

definition syncAdapterFence :: "int \<Rightarrow> (db, unit) prog" where
  "syncAdapterFence fence d =
     (d\<lparr>main_next_fence := max (main_next_fence d) (fence + 1)\<rparr>, Inr ())"

definition AllocateAdapterGrantFence :: "(db, int) prog" where
  "AllocateAdapterGrantFence =
     pbind allocateAdapterFence (\<lambda>fence. pbind (syncAdapterFence fence) (\<lambda>_. pret fence))"

section \<open>Fencing the ledgers\<close>

definition run_outcome_payload ::
  "string \<Rightarrow> string \<Rightarrow> string \<Rightarrow> string option \<Rightarrow> string option \<Rightarrow> bytes" where
  "run_outcome_payload cmd operation outcome completion reason =
     print_json (JObj [(''cmd_id'', JStr cmd), (''operation'', JStr operation),
       (''outcome'', JStr outcome), (''completion_state'', jopt completion),
       (''reason_code'', jopt reason)])"

definition fence_run :: "string \<Rightarrow> string \<Rightarrow> int \<Rightarrow> int \<Rightarrow> int \<Rightarrow> db \<Rightarrow> db res" where
  "fence_run sid cmd version seq now d =
     (case map_of (session_run_controls d) (sid, cmd) of
        None \<Rightarrow> Inl (Fail ''run-control replacement fence lost race'')
      | Some r \<Rightarrow>
          if rc_reservation_version r = version \<and> rc_status r = ''pending''
          then put_run (sid, cmd) (r\<lparr>rc_status := ''outcome_unknown'', rc_terminal_seq := Some seq,
                                     rc_updated_ms := now\<rparr>) d
          else Inl (Fail ''run-control replacement fence lost race''))"

fun fence_runs :: "string \<Rightarrow> int \<Rightarrow> (string \<times> string \<times> int) list \<Rightarrow> (db, unit) prog" where
  "fence_runs sid now [] = pret ()"
| "fence_runs sid now ((cmd, operation, version) # rows) =
     pbind (pcall (appendRunControlEventExecutor sid ''session.run.outcome''
              (run_outcome_payload cmd operation ''outcome_unknown'' None (Some ''adapter_disconnected''))
              now)) (\<lambda>seq.
     pbind (pexec (fence_run sid cmd version seq now)) (\<lambda>_.
     fence_runs sid now rows))"

definition file_outcome_payload ::
  "string \<Rightarrow> string \<Rightarrow> string \<Rightarrow> int option \<Rightarrow> string option \<Rightarrow> bytes" where
  "file_outcome_payload message cmd outcome index reason =
     print_json (JObj [(''message_id'', JStr message), (''cmd_id'', JStr cmd),
       (''outcome'', JStr outcome),
       (''reference_index'', (case index of None \<Rightarrow> JNull | Some i \<Rightarrow> jint i)),
       (''reason'', jopt reason)])"

definition fence_file :: "string \<Rightarrow> string \<Rightarrow> int \<Rightarrow> int \<Rightarrow> db \<Rightarrow> db res" where
  "fence_file sid cmd seq now d =
     (case map_of (session_file_reference_commands d) (sid, cmd) of
        None \<Rightarrow> Inl (Fail ''file-reference replacement fence lost race'')
      | Some r \<Rightarrow>
          if file_active r
          then put_file (sid, cmd) (r\<lparr>fr_status := ''outcome_unknown'', fr_terminal_seq := Some seq,
                                      fr_updated_ms := now\<rparr>) d
          else Inl (Fail ''file-reference replacement fence lost race''))"

fun fence_files :: "string \<Rightarrow> int \<Rightarrow> (string \<times> string) list \<Rightarrow> (db, unit) prog" where
  "fence_files sid now [] = pret ()"
| "fence_files sid now ((cmd, message) # rows) =
     pbind (pcall (appendRunControlEventExecutor sid ''session.file_references.outcome''
              (file_outcome_payload message cmd ''outcome_unknown'' None (Some ''writer_lost'')) now)) (\<lambda>seq.
     pbind (pexec (fence_file sid cmd seq now)) (\<lambda>_.
     fence_files sid now rows))"

definition pending_runs :: "db \<Rightarrow> string \<Rightarrow> (string \<times> string \<times> int) list" where
  "pending_runs d sid =
     map (\<lambda>(k, r). (snd k, rc_operation r, rc_reservation_version r))
       (filter (\<lambda>(k, r). fst k = sid \<and> run_active r) (session_run_controls d))"

definition active_files :: "db \<Rightarrow> string \<Rightarrow> (string \<times> string) list" where
  "active_files d sid =
     map (\<lambda>(k, r). (snd k, fr_message_id r))
       (filter (\<lambda>(k, r). fst k = sid \<and> file_active r) (session_file_reference_commands d))"

definition fenceFileReferenceCommandsAfterWriterReplacement :: "string \<Rightarrow> int \<Rightarrow> (db, unit) prog" where
  "fenceFileReferenceCommandsAfterWriterReplacement sid now =
     pbind (pexec (\<lambda>d. Inr (d\<lparr>session_file_reference_capabilities :=
               AList.delete sid (session_file_reference_capabilities d)\<rparr>))) (\<lambda>_.
     pbind (pget (\<lambda>d. Inr (active_files d sid))) (fence_files sid now))"

definition fenceRunControlsAfterWriterReplacement :: "string \<Rightarrow> int \<Rightarrow> (db, unit) prog" where
  "fenceRunControlsAfterWriterReplacement sid now =
     pbind (pexec (\<lambda>d. Inr (d\<lparr>session_run_control_capabilities :=
               AList.delete sid (session_run_control_capabilities d)\<rparr>))) (\<lambda>_.
     pbind (pget (\<lambda>d. Inr (pending_runs d sid))) (\<lambda>rows.
     pbind (fence_runs sid now rows) (\<lambda>_.
     fenceFileReferenceCommandsAfterWriterReplacement sid now)))"

section \<open>Operations\<close>

text \<open>
  The operation \<open>f_in\<close> runs inside a transaction of its caller
  (\<^verbatim>\<open>connectionTx\<close> set); \<open>f\<close> opens its own. A statement maps the current row to
  the updated row, or to \<open>None\<close> when its \<^verbatim>\<open>WHERE\<close> clause does not match.
\<close>

definition update_row ::
  "string \<Rightarrow> (connection_row \<Rightarrow> connection_row option) \<Rightarrow> db \<Rightarrow> db res" where
  "update_row sid stmt d =
     (case map_of (session_adapter_connections d) sid of
        None \<Rightarrow> Inl (Fail ''adapter connection state conflict'')
      | Some c \<Rightarrow>
          (case stmt c of
             None \<Rightarrow> Inl (Fail ''adapter connection state conflict'')
           | Some c' \<Rightarrow> update_connection sid c' d))"

definition updateConnectionAfter ::
  "string \<Rightarrow> (int \<Rightarrow> int \<Rightarrow> connection_row \<Rightarrow> connection_row option) \<Rightarrow> bool \<Rightarrow>
   (AdapterConnection_rec \<Rightarrow> int \<Rightarrow> (db, unit) prog) \<Rightarrow> clock \<Rightarrow> nat \<Rightarrow>
   (db, AdapterConnection_rec) prog" where
  "updateConnectionAfter sid stmt fenced after clk i =
     pbind (pget (\<lambda>d. if map_of (session_adapter_connections d) sid = None
                      then Inl (Fail ''lock adapter connection for mutation'') else Inr ())) (\<lambda>_.
     pbind (if fenced
            then pbind allocateAdapterFence (\<lambda>fence. pbind (syncAdapterFence fence) (\<lambda>_. pret fence))
            else pret 0) (\<lambda>fence.
     pbind (pget (queryAdapterConnection sid (clk (i + 1)))) (\<lambda>_.
     pbind (pexec (update_row sid (stmt (clk i) fence))) (\<lambda>_.
     pbind (pget (queryAdapterConnection sid (clk (i + 2)))) (\<lambda>connection.
     pbind (after connection (clk i)) (\<lambda>_.
     pret connection))))))"

definition updateConnection ::
  "string \<Rightarrow> (int \<Rightarrow> int \<Rightarrow> connection_row \<Rightarrow> connection_row option) \<Rightarrow> bool \<Rightarrow> clock \<Rightarrow> nat \<Rightarrow>
   (db, AdapterConnection_rec) prog" where
  "updateConnection sid stmt fenced clk i =
     updateConnectionAfter sid stmt fenced (\<lambda>_ _. pret ()) clk i"

definition InitializeAdapterConnection_in ::
  "AdapterConnectionInitialize \<Rightarrow> clock \<Rightarrow> (db, AdapterConnection_rec) prog" where
  "InitializeAdapterConnection_in request clk =
     (if \<not> validConnectionID (ai_SessionID request) \<or> ai_ActiveCredentialGeneration request < 1 \<or>
         ai_ActiveCredentialExpiresAt request = zeroTime
      then pfail (Fail ''invalid adapter connection initialization'')
      else if UnixMilli (ai_ActiveCredentialExpiresAt request) \<le> clk 0
      then pfail (Fail ''adapter connection expiry is not in the future'')
      else
        let gen = ai_ActiveCredentialGeneration request;
            expires = UnixMilli (ai_ActiveCredentialExpiresAt request)
        in
        pbind (pexec (\<lambda>d. Inr (insert_or_ignore_connection (ai_SessionID request)
                 \<lparr>cn_epoch = 0, cn_fence = 0, cn_active_gen = gen, cn_high_watermark = gen,
                  cn_active_expires_ms = expires, cn_pending_gen = None, cn_pending_expires_ms = None,
                  cn_prior_gen = None, cn_rotation_id = None, cn_revoked_ms = None,
                  cn_terminal_ms = None, cn_created_ms = clk 0, cn_updated_ms = clk 0\<rparr> d))) (\<lambda>_.
        pbind (pget (queryAdapterConnection (ai_SessionID request) (clk 1))) (\<lambda>connection.
        if ad_ConnectionEpoch connection \<noteq> 0 \<or> ad_AcceptedFence connection \<noteq> 0 \<or>
           ad_ActiveCredentialGeneration connection \<noteq> gen \<or>
           ad_CredentialGenerationHighWatermark connection \<noteq> gen \<or>
           ad_ActiveCredentialExpiresAt connection \<noteq> fromMilli expires \<or>
           ad_PendingCredentialGeneration connection \<noteq> None \<or>
           ad_PriorRecoveryGeneration connection \<noteq> None \<or> ad_RotationID connection \<noteq> None \<or>
           ad_RevokedAt connection \<noteq> None \<or> ad_TerminalAt connection \<noteq> None
        then pfail (Fail ''adapter connection initialization conflicts with existing state'')
        else pret connection)))"

definition InitializeAdapterConnection ::
  "AdapterConnectionInitialize \<Rightarrow> clock \<Rightarrow> (db, AdapterConnection_rec) prog" where
  "InitializeAdapterConnection request clk = atomic (InitializeAdapterConnection_in request clk)"

definition pristine :: "connection_row \<Rightarrow> int \<Rightarrow> bool" where
  \<comment> \<open>the conditions the pre-hello statements share\<close>
  "pristine c gen \<longleftrightarrow>
     cn_active_gen c = gen \<and> cn_epoch c = 0 \<and> cn_fence c = 0 \<and> cn_pending_gen c = None \<and>
     cn_prior_gen c = None \<and> cn_rotation_id c = None"

definition ValidateWarmAttachTargetActivation ::
  "string \<Rightarrow> WarmAttachTargetActivation \<Rightarrow> int \<Rightarrow> db \<Rightarrow> unit res" where
  "ValidateWarmAttachTargetActivation sid activation now d =
     (if \<not> validConnectionID sid \<or> ta_Generation activation < 1 \<or> ta_ExpiresAt activation = zeroTime
      then Inl (Fail ''invalid sqlite warm attach target activation'')
      else case queryAdapterConnectionWhere sid
             (\<lambda>c. pristine c (ta_Generation activation) \<and>
                  cn_high_watermark c = ta_Generation activation \<and>
                  cn_active_expires_ms c = UnixMilli (ta_ExpiresAt activation) \<and>
                  cn_revoked_ms c = None \<and> cn_terminal_ms c = None \<and> cn_active_expires_ms c > now)
             now d of
        Inl _ \<Rightarrow> Inl (Fail ''sqlite warm attach target activation is expired or fenced'')
      | Inr _ \<Rightarrow> Inr ())"

definition refresh_stmt ::
  "AdapterCredentialPreHelloRefresh \<Rightarrow> int \<Rightarrow> int \<Rightarrow> connection_row \<Rightarrow> connection_row option" where
  "refresh_stmt refresh now fence c =
     (let expires = UnixMilli (ar_ActiveCredentialExpiresAt refresh) in
      if pristine c (ar_ExpectedActiveCredentialGeneration refresh) \<and>
         cn_revoked_ms c = None \<and> cn_terminal_ms c = None \<and>
         ((cn_active_expires_ms c = expires \<and> cn_active_expires_ms c > now) \<or>
          (cn_active_expires_ms c \<le> now \<and> expires > now \<and> expires > cn_active_expires_ms c))
      then Some (c\<lparr>cn_active_expires_ms := expires, cn_updated_ms := now\<rparr>) else None)"

definition RefreshAdapterCredentialBeforeHello_in ::
  "string \<Rightarrow> AdapterCredentialPreHelloRefresh \<Rightarrow> clock \<Rightarrow> (db, AdapterConnection_rec) prog" where
  "RefreshAdapterCredentialBeforeHello_in sid refresh clk =
     (if \<not> validConnectionID sid \<or> ar_ExpectedActiveCredentialGeneration refresh < 1 \<or>
         ar_ActiveCredentialExpiresAt refresh = zeroTime
      then pfail (Fail ''invalid pre-hello adapter credential refresh'')
      else updateConnection sid (refresh_stmt refresh) False clk 0)"

definition RefreshAdapterCredentialBeforeHello ::
  "string \<Rightarrow> AdapterCredentialPreHelloRefresh \<Rightarrow> clock \<Rightarrow> (db, AdapterConnection_rec) prog" where
  "RefreshAdapterCredentialBeforeHello sid refresh clk =
     atomic (RefreshAdapterCredentialBeforeHello_in sid refresh clk)"

definition coalesce :: "'a option \<Rightarrow> 'a \<Rightarrow> 'a option" where
  "coalesce x y = Some (case x of None \<Rightarrow> y | Some z \<Rightarrow> z)"

definition terminate_stmt :: "int \<Rightarrow> int \<Rightarrow> int \<Rightarrow> connection_row \<Rightarrow> connection_row option" where
  "terminate_stmt gen now fence c =
     (if pristine c gen \<and>
         ((cn_revoked_ms c = None \<and> cn_terminal_ms c = None) \<or>
          (cn_revoked_ms c \<noteq> None \<and> cn_revoked_ms c = cn_terminal_ms c))
      then Some (c\<lparr>cn_revoked_ms := coalesce (cn_revoked_ms c) now,
                   cn_terminal_ms := coalesce (cn_terminal_ms c) now, cn_updated_ms := now\<rparr>)
      else None)"

definition TerminateAdapterConnectionBeforeHello_in ::
  "string \<Rightarrow> int \<Rightarrow> clock \<Rightarrow> (db, AdapterConnection_rec) prog" where
  "TerminateAdapterConnectionBeforeHello_in sid gen clk =
     (if \<not> validConnectionID sid \<or> gen < 1
      then pfail (Fail ''invalid pre-hello adapter connection termination'')
      else updateConnectionAfter sid (terminate_stmt gen) False
             (\<lambda>_ now. fenceRunControlsAfterWriterReplacement sid now) clk 0)"

definition TerminateAdapterConnectionBeforeHello ::
  "string \<Rightarrow> int \<Rightarrow> clock \<Rightarrow> (db, AdapterConnection_rec) prog" where
  "TerminateAdapterConnectionBeforeHello sid gen clk =
     atomic (TerminateAdapterConnectionBeforeHello_in sid gen clk)"

definition hello_stmt :: "AdapterHello \<Rightarrow> int \<Rightarrow> int \<Rightarrow> connection_row \<Rightarrow> connection_row option" where
  "hello_stmt hello now fence c =
     (if cn_active_gen c = ah_CredentialGeneration hello \<and> cn_active_expires_ms c > now \<and>
         cn_revoked_ms c = None \<and> cn_terminal_ms c = None
      then Some (c\<lparr>cn_epoch := cn_epoch c + 1, cn_fence := fence, cn_updated_ms := now\<rparr>)
      else None)"

definition bind_writer :: "string \<Rightarrow> AdapterHello \<Rightarrow> AdapterConnection_rec \<Rightarrow> int \<Rightarrow> (db, unit) prog" where
  "bind_writer sid hello connection now =
     (if ah_WriterLeaseID hello = [] then fenceRunControlsAfterWriterReplacement sid now
      else if length (ah_WriterLeaseID hello) > 255 then pfail (Fail ''invalid adapter writer lease'')
      else
        pbind (pexec (put_live_writer sid
                 \<lparr>w_ConnectionEpoch = ad_ConnectionEpoch connection,
                  w_CredentialGeneration = ad_ActiveCredentialGeneration connection,
                  w_LeaseID = ah_WriterLeaseID hello\<rparr>)) (\<lambda>_.
        fenceRunControlsAfterWriterReplacement sid now))"

definition AcceptAdapterHello_in ::
  "string \<Rightarrow> AdapterHello \<Rightarrow> clock \<Rightarrow> (db, AdapterConnection_rec) prog" where
  "AcceptAdapterHello_in sid hello clk =
     (if \<not> validConnectionID sid \<or> ah_CredentialGeneration hello < 1
      then pfail (Fail ''invalid adapter hello'')
      else
        pbind (pget (AdapterConnection sid (clk 0))) (\<lambda>_.
        updateConnectionAfter sid (hello_stmt hello) True (bind_writer sid hello) clk 1))"

definition AcceptAdapterHello ::
  "string \<Rightarrow> AdapterHello \<Rightarrow> clock \<Rightarrow> (db, AdapterConnection_rec) prog" where
  "AcceptAdapterHello sid hello clk = atomic (AcceptAdapterHello_in sid hello clk)"

definition admitted :: "AdapterConnectionAdmission \<Rightarrow> int \<Rightarrow> db \<Rightarrow> connection_row \<Rightarrow> bool" where
  "admitted a now d c \<longleftrightarrow>
     cn_active_gen c = am_CredentialGeneration a \<and> cn_epoch c = am_ConnectionEpoch a \<and>
     cn_fence c = am_AcceptedFence a \<and> am_GrantFence a > cn_fence c \<and>
     am_GrantFence a < main_next_fence d \<and> am_GrantFence a < side_next_fence d \<and>
     cn_active_expires_ms c > now \<and> cn_revoked_ms c = None \<and> cn_terminal_ms c = None"

definition ValidateAdapterAdmission ::
  "string \<Rightarrow> AdapterConnectionAdmission \<Rightarrow> int \<Rightarrow> db \<Rightarrow> AdapterConnection_rec res" where
  "ValidateAdapterAdmission sid a now d =
     (if \<not> validConnectionID sid \<or> am_CredentialGeneration a < 1 \<or> am_ConnectionEpoch a < 1 \<or>
         am_AcceptedFence a < 1 \<or> am_GrantFence a \<le> am_AcceptedFence a
      then Inl (Fail ''invalid adapter admission'')
      else res_bind (attentionMigrationPending d) (\<lambda>pending.
        if pending then Inl (Fail ''sqlite attention migration is incomplete'')
        else queryAdapterConnectionWhere sid (admitted a now d) now d))"

definition IssueAdapterConnectionAuthorityReceipt ::
  "string \<Rightarrow> AdapterConnectionAdmission \<Rightarrow> SettingsWriter \<Rightarrow> clock \<Rightarrow> db \<Rightarrow>
   ConnectionAuthorityReceipt res" where
  "IssueAdapterConnectionAuthorityReceipt sid a writer clk d =
     (if \<not> validConnectionID sid \<or> w_LeaseID writer = [] \<or>
         w_ConnectionEpoch writer \<noteq> am_ConnectionEpoch a \<or>
         w_CredentialGeneration writer \<noteq> am_CredentialGeneration a
      then Inl (Fail ''invalid adapter connection authority receipt'')
      else case (ValidateAdapterAdmission sid a (clk 0) d, validateLiveSettingsWriter sid writer (clk 1) d) of
        (Inr c, Inr ()) \<Rightarrow>
          Inr \<lparr>cr_SessionID = sid, cr_ConnectionEpoch = ad_ConnectionEpoch c,
               cr_CredentialGeneration = ad_ActiveCredentialGeneration c,
               cr_AcceptedFence = ad_AcceptedFence c, cr_WriterLeaseID = w_LeaseID writer,
               cr_ExpiresAt = ad_ActiveCredentialExpiresAt c\<rparr>
      | _ \<Rightarrow> Inl (Fail ''adapter connection authority is not live''))"

definition rotate_stmt ::
  "AdapterCredentialRotation \<Rightarrow> int \<Rightarrow> int \<Rightarrow> connection_row \<Rightarrow> connection_row option" where
  "rotate_stmt ro now fence c =
     (let expires = UnixMilli (ro_ExpiresAt ro) in
      if cn_active_gen c = ro_ExpectedActiveCredentialGeneration ro \<and>
         cn_epoch c = ro_ExpectedEpoch ro \<and> cn_epoch c > 0 \<and> cn_fence c > 0 \<and>
         (cn_pending_gen c = None \<or>
          (cn_pending_expires_ms c \<noteq> None \<and> opt_all (\<lambda>x. x \<le> now) (cn_pending_expires_ms c))) \<and>
         ro_PendingGeneration ro > cn_high_watermark c \<and> cn_active_expires_ms c > now \<and>
         expires > now \<and> cn_revoked_ms c = None \<and> cn_terminal_ms c = None
      then Some (c\<lparr>cn_pending_gen := Some (ro_PendingGeneration ro),
                   cn_pending_expires_ms := Some expires, cn_rotation_id := Some (ro_RotationID ro),
                   cn_high_watermark := ro_PendingGeneration ro, cn_updated_ms := now\<rparr>)
      else None)"

definition PrepareAdapterCredentialRotation_in ::
  "string \<Rightarrow> AdapterCredentialRotation \<Rightarrow> clock \<Rightarrow> (db, AdapterConnection_rec) prog" where
  "PrepareAdapterCredentialRotation_in sid ro clk =
     (if \<not> validConnectionID sid \<or> ro_ExpectedActiveCredentialGeneration ro < 1 \<or>
         ro_ExpectedEpoch ro < 1 \<or> ro_PendingGeneration ro < 1 \<or>
         \<not> validAttachmentText (ro_RotationID ro) 255 \<or> ro_ExpiresAt ro = zeroTime
      then pfail (Fail ''invalid adapter credential rotation'')
      else updateConnection sid (rotate_stmt ro) False clk 0)"

definition PrepareAdapterCredentialRotation ::
  "string \<Rightarrow> AdapterCredentialRotation \<Rightarrow> clock \<Rightarrow> (db, AdapterConnection_rec) prog" where
  "PrepareAdapterCredentialRotation sid ro clk = atomic (PrepareAdapterCredentialRotation_in sid ro clk)"

definition activate_stmt ::
  "AdapterCredentialActivation \<Rightarrow> int \<Rightarrow> int \<Rightarrow> connection_row \<Rightarrow> connection_row option" where
  "activate_stmt a now fence c =
     (case (cn_pending_gen c, cn_pending_expires_ms c) of
        (Some gen, Some expires) \<Rightarrow>
          if cn_active_gen c = aa_ExpectedActiveCredentialGeneration a \<and>
             cn_epoch c = aa_ExpectedEpoch a \<and> cn_epoch c > 0 \<and> cn_fence c > 0 \<and>
             gen = aa_PendingGeneration a \<and> cn_rotation_id c = Some (aa_RotationID a) \<and>
             cn_active_expires_ms c > now \<and> expires > now \<and>
             cn_revoked_ms c = None \<and> cn_terminal_ms c = None
          then Some (c\<lparr>cn_prior_gen := Some (cn_active_gen c), cn_active_gen := gen,
                       cn_active_expires_ms := expires, cn_pending_gen := None,
                       cn_pending_expires_ms := None, cn_rotation_id := None,
                       cn_epoch := cn_epoch c + 1, cn_fence := fence, cn_updated_ms := now\<rparr>)
          else None
      | _ \<Rightarrow> None)"

definition ActivateAdapterCredential_in ::
  "string \<Rightarrow> AdapterCredentialActivation \<Rightarrow> clock \<Rightarrow> (db, AdapterConnection_rec) prog" where
  "ActivateAdapterCredential_in sid a clk =
     (if \<not> validConnectionID sid \<or> aa_ExpectedActiveCredentialGeneration a < 1 \<or>
         aa_ExpectedEpoch a < 1 \<or> aa_PendingGeneration a < 1 \<or>
         \<not> validAttachmentText (aa_RotationID a) 255
      then pfail (Fail ''invalid adapter credential activation'')
      else
        pbind (pget (AdapterConnection sid (clk 0))) (\<lambda>_.
        updateConnection sid (activate_stmt a) True clk 1))"

definition ActivateAdapterCredential ::
  "string \<Rightarrow> AdapterCredentialActivation \<Rightarrow> clock \<Rightarrow> (db, AdapterConnection_rec) prog" where
  "ActivateAdapterCredential sid a clk = atomic (ActivateAdapterCredential_in sid a clk)"

section \<open>Every connection operation is a store step\<close>

lemma atomic_step:
  assumes "store_step d (fst (p d))"
  shows "store_step d (fst (atomic p d))"
proof -
  have "side_next_fence d \<le> side_next_fence (fst (p d))"
    using assms by (simp add: store_step_def ledger_step_def)
  then show ?thesis using assms store_step_side [of d]
    by (auto simp: atomic_def split: prod.splits sum.splits)
qed

lemma atomic_ok: "atomic p d = (d', Inr x) \<longleftrightarrow> p d = (d', Inr x)"
  by (auto simp: atomic_def split: prod.splits sum.splits)

lemma fence_run_step: "fence_run sid cmd v n now d = Inr d' \<Longrightarrow> store_step d d'"
  by (auto simp: fence_run_def split: option.splits if_splits elim!: store_step_run)

lemma fence_file_step: "fence_file sid cmd n now d = Inr d' \<Longrightarrow> store_step d d'"
  by (auto simp: fence_file_def split: option.splits if_splits elim!: store_step_file)

lemma fence_runs_step: "store_step d (fst (fence_runs sid now rows d))"
proof (induction rows arbitrary: d)
  case (Cons row rows)
  obtain cmd op v where "row = (cmd, op, v)" by (cases row) auto
  then show ?case
    by (auto intro!: pbind_step pcall_step pexec_step Cons.IH intro: store_step_lifecycle fence_run_step)
qed simp

lemma fence_files_step: "store_step d (fst (fence_files sid now rows d))"
proof (induction rows arbitrary: d)
  case (Cons row rows)
  obtain cmd msg where "row = (cmd, msg)" by (cases row) auto
  then show ?case
    by (auto intro!: pbind_step pcall_step pexec_step Cons.IH intro: store_step_lifecycle fence_file_step)
qed simp

lemma fence_ledgers_step: "store_step d (fst (fenceRunControlsAfterWriterReplacement sid now d))"
  unfolding fenceRunControlsAfterWriterReplacement_def fenceFileReferenceCommandsAfterWriterReplacement_def
  by (auto intro!: pbind_step pexec_step fence_runs_step fence_files_step)

text \<open>Allocation: the fence is the old top of the allocator, and the main copy stays below.\<close>

lemma allocate_fence_ok:
  "AllocateAdapterGrantFence d = (d', Inr n) \<longleftrightarrow>
   n = side_next_fence d \<and> 1 \<le> n \<and> n < 9223372036854775807 \<and>
   d' = d\<lparr>side_next_fence := n + 1, main_next_fence := max (main_next_fence d) (n + 1)\<rparr>"
  by (auto simp: AllocateAdapterGrantFence_def pbind_ok prog_ok_simps allocateAdapterFence_def
      syncAdapterFence_def split: if_splits)

lemma allocate_step: "store_step d (fst (allocateAdapterFence d))"
  using store_step_side [of d "side_next_fence d + 1"] by (simp add: allocateAdapterFence_def)

lemma sync_step: "n < side_next_fence d \<Longrightarrow> store_step d (fst (syncAdapterFence n d))"
  using store_step_main [of d "max (main_next_fence d) (n + 1)"] by (auto simp: syncAdapterFence_def)

lemma allocate_fence_step: "store_step d (fst (AllocateAdapterGrantFence d))"
  unfolding AllocateAdapterGrantFence_def
  by (intro pbind_step allocate_step sync_step prog_step)
    (auto simp: allocateAdapterFence_def split: if_splits)

text \<open>
  What a statement of this component may do to a row: a fenced one takes the new fence and the
  next epoch, another one keeps generation, epoch and fence; none lowers the watermark or clears
  a revocation or a terminal mark.
\<close>

definition stmt_ok :: "bool \<Rightarrow> (int \<Rightarrow> int \<Rightarrow> connection_row \<Rightarrow> connection_row option) \<Rightarrow> bool" where
  "stmt_ok fenced stmt \<longleftrightarrow>
     (\<forall>now f c c'. stmt now f c = Some c' \<longrightarrow>
        cn_created_ms c' = cn_created_ms c \<and> cn_high_watermark c \<le> cn_high_watermark c' \<and>
        (cn_terminal_ms c \<noteq> None \<longrightarrow> cn_terminal_ms c' \<noteq> None) \<and>
        (cn_revoked_ms c \<noteq> None \<longrightarrow> cn_revoked_ms c' \<noteq> None) \<and>
        (if fenced then cn_epoch c' = cn_epoch c + 1 \<and> cn_fence c' = f
         else cn_epoch c' = cn_epoch c \<and> cn_fence c' = cn_fence c \<and> cn_active_gen c' = cn_active_gen c))"

lemma stmts_ok:
  "stmt_ok False (refresh_stmt refresh)" "stmt_ok False (terminate_stmt gen)"
  "stmt_ok True (hello_stmt hello)" "stmt_ok False (rotate_stmt ro)" "stmt_ok True (activate_stmt a)"
  by (auto simp: stmt_ok_def refresh_stmt_def terminate_stmt_def hello_stmt_def rotate_stmt_def
      activate_stmt_def coalesce_def Let_def split: if_splits option.splits)

lemma update_row_step:
  assumes "stmt_ok fenced stmt" "update_row sid (stmt now f) d = Inr d'" "fenced \<Longrightarrow> 1 \<le> f"
  shows "store_step d d'"
proof -
  obtain c c' where c: "map_of (session_adapter_connections d) sid = Some c"
    "stmt now f c = Some c'" "update_connection sid c' d = Inr d'"
    using assms(2) by (auto simp: update_row_def split: option.splits)
  have stmt: "cn_created_ms c' = cn_created_ms c \<and> cn_high_watermark c \<le> cn_high_watermark c' \<and>
      (cn_terminal_ms c \<noteq> None \<longrightarrow> cn_terminal_ms c' \<noteq> None) \<and>
      (cn_revoked_ms c \<noteq> None \<longrightarrow> cn_revoked_ms c' \<noteq> None)"
    "if fenced then cn_epoch c' = cn_epoch c + 1 \<and> cn_fence c' = f
     else cn_epoch c' = cn_epoch c \<and> cn_fence c' = cn_fence c \<and> cn_active_gen c' = cn_active_gen c"
    using assms(1) c(2) unfolding stmt_ok_def by blast+
  show ?thesis
    using c(3)
  proof (rule store_step_connection)
    fix c0 assume "map_of (session_adapter_connections d) sid = Some c0"
    then have c0: "c0 = c" using c(1) by simp
    show "cn_created_ms c' = cn_created_ms c0 \<and> cn_epoch c0 \<le> cn_epoch c' \<and>
      cn_high_watermark c0 \<le> cn_high_watermark c' \<and>
      (cn_terminal_ms c0 \<noteq> None \<longrightarrow> cn_terminal_ms c' \<noteq> None) \<and>
      (cn_revoked_ms c0 \<noteq> None \<longrightarrow> cn_revoked_ms c' \<noteq> None) \<and>
      (cn_epoch c' = cn_epoch c0 \<longrightarrow> cn_active_gen c' = cn_active_gen c0 \<and> cn_fence c' = cn_fence c0)"
      using stmt c0 by (cases fenced) simp_all
    show "cn_epoch c' = 0 \<longleftrightarrow> cn_fence c' = 0" if "wf d"
      using stmt assms(3) wf_connection [OF that c(1)]
      by (cases fenced) (auto simp: check_connection_row_def)
  qed
qed

lemma updateConnectionAfter_step:
  assumes "stmt_ok fenced stmt" "\<And>x now d. store_step d (fst (after x now d))"
  shows "store_step d (fst (updateConnectionAfter sid stmt fenced after clk i d))"
proof -
  let ?fence = "if fenced then AllocateAdapterGrantFence else pret 0"
  have alloc: "store_step d (fst (?fence d))" for d by (simp add: allocate_fence_step)
  have pos: "1 \<le> n" if "?fence d = (d', Inr n)" "fenced" for d d' n
    using that by (simp add: allocate_fence_ok)
  have update: "store_step d (fst (pexec (update_row sid (stmt now n)) d))" if "fenced \<Longrightarrow> 1 \<le> n" for d now n
    by (rule pexec_step) (rule update_row_step [OF assms(1) _ that])
  show ?thesis
    unfolding updateConnectionAfter_def AllocateAdapterGrantFence_def [symmetric]
    by (rule pbind_step, rule prog_step, rule pbind_step, rule alloc, rule pbind_step, rule prog_step,
        rule pbind_step, rule update, erule pos, assumption, rule pbind_step, rule prog_step,
        rule pbind_step, rule assms(2), rule prog_step)
qed

lemma updateConnection_step:
  "stmt_ok fenced stmt \<Longrightarrow> store_step d (fst (updateConnection sid stmt fenced clk i d))"
  unfolding updateConnection_def by (rule updateConnectionAfter_step) auto

lemma bind_writer_step: "store_step d (fst (bind_writer sid hello c now d))"
  unfolding bind_writer_def
  by (auto intro!: pbind_step pexec_step fence_ledgers_step intro: store_step_live_writer)

lemma initialize_step: "store_step d (fst (InitializeAdapterConnection_in request clk d))"
  unfolding InitializeAdapterConnection_in_def Let_def
  by (auto intro!: pbind_step pexec_step store_step_new_connection)

lemma connection_ops_in_step:
  "store_step d (fst (RefreshAdapterCredentialBeforeHello_in sid refresh clk d))"
  "store_step d (fst (TerminateAdapterConnectionBeforeHello_in sid gen clk d))"
  "store_step d (fst (AcceptAdapterHello_in sid hello clk d))"
  "store_step d (fst (PrepareAdapterCredentialRotation_in sid ro clk d))"
  "store_step d (fst (ActivateAdapterCredential_in sid a clk d))"
  unfolding RefreshAdapterCredentialBeforeHello_in_def TerminateAdapterConnectionBeforeHello_in_def
    AcceptAdapterHello_in_def PrepareAdapterCredentialRotation_in_def ActivateAdapterCredential_in_def
  by (auto intro!: pbind_step updateConnection_step updateConnectionAfter_step stmts_ok
      fence_ledgers_step bind_writer_step)

lemma connection_ops_step:
  "store_step d (fst (InitializeAdapterConnection request clk d))"
  "store_step d (fst (RefreshAdapterCredentialBeforeHello sid refresh clk d))"
  "store_step d (fst (TerminateAdapterConnectionBeforeHello sid gen clk d))"
  "store_step d (fst (AcceptAdapterHello sid hello clk d))"
  "store_step d (fst (PrepareAdapterCredentialRotation sid ro clk d))"
  "store_step d (fst (ActivateAdapterCredential sid a clk d))"
  unfolding InitializeAdapterConnection_def RefreshAdapterCredentialBeforeHello_def
    TerminateAdapterConnectionBeforeHello_def AcceptAdapterHello_def
    PrepareAdapterCredentialRotation_def ActivateAdapterCredential_def
  by (intro atomic_step initialize_step connection_ops_in_step)+

section \<open>What a successful operation did\<close>

definition fence_after :: "bool \<Rightarrow> db \<Rightarrow> db" where
  "fence_after fenced d =
     (if fenced
      then d\<lparr>side_next_fence := side_next_fence d + 1,
             main_next_fence := max (main_next_fence d) (side_next_fence d + 1)\<rparr>
      else d)"

lemma updateConnectionAfter_ok:
  assumes "updateConnectionAfter sid stmt fenced after clk i d = (d', Inr c)"
  obtains row row' where
    "map_of (session_adapter_connections d) sid = Some row"
    "stmt (clk i) (if fenced then side_next_fence d else 0) row = Some row'"
    "check_connection_row sid row'"
    "cn_fence row' = cn_fence row \<or> cn_fence row < cn_fence row'"
    "c = row_connection sid row'"
    "after c (clk i) ((fence_after fenced d)\<lparr>session_adapter_connections :=
        AList.update sid row' (session_adapter_connections d)\<rparr>) = (d', Inr ())"
    "fenced \<Longrightarrow> 1 \<le> side_next_fence d"
proof -
  let ?f = "if fenced then AllocateAdapterGrantFence else pret 0"
  obtain n d1 d2 where
    fence: "?f d = (d1, Inr n)"
    and upd: "update_row sid (stmt (clk i) n) d1 = Inr d2"
    and q: "queryAdapterConnection sid (clk (i + 2)) d2 = Inr c"
    and aft: "after c (clk i) d2 = (d', Inr ())"
    using assms unfolding updateConnectionAfter_def AllocateAdapterGrantFence_def [symmetric]
    by (auto simp: pbind_ok prog_ok_simps)
  have d1: "d1 = fence_after fenced d" "n = (if fenced then side_next_fence d else 0)"
    "fenced \<Longrightarrow> 1 \<le> side_next_fence d"
    using fence by (auto simp: fence_after_def allocate_fence_ok prog_ok_simps split: if_splits)
  have conns: "session_adapter_connections d1 = session_adapter_connections d"
    by (simp add: d1 fence_after_def)
  obtain row row' where row: "map_of (session_adapter_connections d) sid = Some row"
    "stmt (clk i) n row = Some row'" "update_connection sid row' d1 = Inr d2"
    using upd by (auto simp: update_row_def conns split: option.splits)
  show ?thesis
    using row(3)
  proof (cases rule: update_connection_frame)
    case same
    then show ?thesis using row(1) conns by simp
  next
    case frame: (row old)
    then have "c = row_connection sid row'"
      using q by (auto simp: queryAdapterConnection_def queryAdapterConnectionWhere_def conns
          split: if_splits)
    then show ?thesis
      using that [of row row'] row(1,2) frame d1 aft conns by auto
  qed
qed

lemma hello_ok:
  assumes "AcceptAdapterHello sid hello clk d = (d', Inr c)"
  obtains row where
    "map_of (session_adapter_connections d) sid = Some row"
    "cn_active_gen row = ah_CredentialGeneration hello" "cn_active_expires_ms row > clk 1"
    "cn_revoked_ms row = None" "cn_terminal_ms row = None" "1 \<le> side_next_fence d"
    "c = row_connection sid (row\<lparr>cn_epoch := cn_epoch row + 1, cn_fence := side_next_fence d,
           cn_updated_ms := clk 1\<rparr>)"
    "bind_writer sid hello c (clk 1) ((fence_after True d)\<lparr>session_adapter_connections :=
        AList.update sid (row\<lparr>cn_epoch := cn_epoch row + 1, cn_fence := side_next_fence d,
           cn_updated_ms := clk 1\<rparr>) (session_adapter_connections d)\<rparr>) = (d', Inr ())"
proof -
  have "updateConnectionAfter sid (hello_stmt hello) True (bind_writer sid hello) clk 1 d = (d', Inr c)"
    using assms
    by (auto simp: AcceptAdapterHello_def atomic_ok AcceptAdapterHello_in_def pbind_ok prog_ok_simps
        split: if_splits)
  then show ?thesis
    by (rule updateConnectionAfter_ok)
      (rule that, auto simp: hello_stmt_def split: if_splits)
qed

text \<open>The fencing of the ledgers leaves connections and fences as they are.\<close>

definition same_authority :: "db \<Rightarrow> db \<Rightarrow> bool" where
  "same_authority d d' \<longleftrightarrow>
     session_adapter_connections d' = session_adapter_connections d \<and>
     main_next_fence d' = main_next_fence d \<and> side_next_fence d' = side_next_fence d \<and>
     migration_state d' = migration_state d"

lemma put_run_authority: "put_run k r d = Inr d' \<Longrightarrow> same_authority d d'"
  by (auto simp: put_run_def same_authority_def split: if_splits)

lemma put_file_authority: "put_file k r d = Inr d' \<Longrightarrow> same_authority d d'"
  by (auto simp: put_file_def same_authority_def split: if_splits)

lemma lifecycle_authority:
  "appendRunControlEventExecutor sid ty p now d = Inr (d', n) \<Longrightarrow> same_authority d d'"
  by (drule lifecycle_event_frame) (simp add: same_authority_def)

lemma same_authority_refl [simp]: "same_authority d d"
  by (simp add: same_authority_def)

lemma same_authority_trans: "same_authority a b \<Longrightarrow> same_authority b c \<Longrightarrow> same_authority a c"
  by (simp add: same_authority_def)

lemma fence_run_authority: "fence_run sid cmd v n now d = Inr d' \<Longrightarrow> same_authority d d'"
  by (auto simp: fence_run_def split: option.splits if_splits dest: put_run_authority)

lemma fence_file_authority: "fence_file sid cmd n now d = Inr d' \<Longrightarrow> same_authority d d'"
  by (auto simp: fence_file_def split: option.splits if_splits dest: put_file_authority)

lemma fence_runs_authority: "fence_runs sid now rows d = (d', Inr ()) \<Longrightarrow> same_authority d d'"
proof (induction rows arbitrary: d)
  case (Cons row rows)
  obtain cmd op v where row: "row = (cmd, op, v)" by (cases row) auto
  obtain n d1 d2 where
    "appendRunControlEventExecutor sid ''session.run.outcome''
       (run_outcome_payload cmd op ''outcome_unknown'' None (Some ''adapter_disconnected'')) now d = Inr (d1, n)"
    "fence_run sid cmd v n now d1 = Inr d2" "fence_runs sid now rows d2 = (d', Inr ())"
    using Cons.prems by (auto simp: row pbind_ok prog_ok_simps)
  then show ?case
    using Cons.IH lifecycle_authority fence_run_authority same_authority_trans by meson
qed (simp add: prog_ok_simps)

lemma fence_files_authority: "fence_files sid now rows d = (d', Inr ()) \<Longrightarrow> same_authority d d'"
proof (induction rows arbitrary: d)
  case (Cons row rows)
  obtain cmd msg where row: "row = (cmd, msg)" by (cases row) auto
  obtain n d1 d2 where
    "appendRunControlEventExecutor sid ''session.file_references.outcome''
       (file_outcome_payload msg cmd ''outcome_unknown'' None (Some ''writer_lost'')) now d = Inr (d1, n)"
    "fence_file sid cmd n now d1 = Inr d2" "fence_files sid now rows d2 = (d', Inr ())"
    using Cons.prems by (auto simp: row pbind_ok prog_ok_simps)
  then show ?case
    using Cons.IH lifecycle_authority fence_file_authority same_authority_trans by meson
qed (simp add: prog_ok_simps)

section \<open>The effect of fencing the ledgers\<close>

definition outcome_event :: "db \<Rightarrow> string \<Rightarrow> string \<Rightarrow> int option \<Rightarrow> bool" where
  "outcome_event d sid ty t \<longleftrightarrow>
     (\<exists>e \<in> set (session_events d). ev_session e = sid \<and> ev_type e = ty \<and> t = Some (ev_seq e))"

definition run_fenced :: "db \<Rightarrow> string \<Rightarrow> string \<Rightarrow> bool" where
  "run_fenced d sid cmd \<longleftrightarrow>
     (\<exists>r. map_of (session_run_controls d) (sid, cmd) = Some r \<and> rc_status r = ''outcome_unknown'' \<and>
          outcome_event d sid ''session.run.outcome'' (rc_terminal_seq r))"

definition file_fenced :: "db \<Rightarrow> string \<Rightarrow> string \<Rightarrow> bool" where
  "file_fenced d sid cmd \<longleftrightarrow>
     (\<exists>r. map_of (session_file_reference_commands d) (sid, cmd) = Some r \<and>
          fr_status r = ''outcome_unknown'' \<and>
          outcome_event d sid ''session.file_references.outcome'' (fr_terminal_seq r))"

lemma outcome_event_mono: "store_step d d' \<Longrightarrow> outcome_event d sid ty t \<Longrightarrow> outcome_event d' sid ty t"
  by (auto simp: outcome_event_def store_step_def extends_log_def)

lemma run_fenced_mono:
  assumes "store_step d d'" "run_fenced d sid cmd"
  shows "run_fenced d' sid cmd"
proof -
  obtain r where r: "map_of (session_run_controls d) (sid, cmd) = Some r" "rc_status r = ''outcome_unknown''"
    "outcome_event d sid ''session.run.outcome'' (rc_terminal_seq r)"
    using assms(2) by (auto simp: run_fenced_def)
  have "tab_step (settles run_active) (session_run_controls d) (session_run_controls d')"
    using assms(1) by (simp add: store_step_def ledger_step_def)
  then have "map_of (session_run_controls d') (sid, cmd) = Some r"
    using r(1,2) by (force simp: tab_step_def settles_def)
  then show ?thesis using r outcome_event_mono [OF assms(1)] by (auto simp: run_fenced_def)
qed

lemma file_fenced_mono:
  assumes "store_step d d'" "file_fenced d sid cmd"
  shows "file_fenced d' sid cmd"
proof -
  obtain r where r: "map_of (session_file_reference_commands d) (sid, cmd) = Some r"
    "fr_status r = ''outcome_unknown''"
    "outcome_event d sid ''session.file_references.outcome'' (fr_terminal_seq r)"
    using assms(2) by (auto simp: file_fenced_def)
  have "tab_step (settles file_active) (session_file_reference_commands d) (session_file_reference_commands d')"
    using assms(1) by (simp add: store_step_def ledger_step_def)
  then have "map_of (session_file_reference_commands d') (sid, cmd) = Some r"
    using r(1,2) by (force simp: tab_step_def settles_def)
  then show ?thesis using r outcome_event_mono [OF assms(1)] by (auto simp: file_fenced_def)
qed

lemma fence_runs_effect:
  "fence_runs sid now rows d = (d', Inr ()) \<Longrightarrow>
   (\<forall>row \<in> set rows. run_fenced d' sid (fst row)) \<and>
   (\<forall>k. k \<notin> (\<lambda>row. (sid, fst row)) ` set rows \<longrightarrow>
        map_of (session_run_controls d') k = map_of (session_run_controls d) k) \<and>
   session_file_reference_commands d' = session_file_reference_commands d \<and>
   session_run_control_capabilities d' = session_run_control_capabilities d"
proof (induction rows arbitrary: d)
  case (Cons row rows)
  obtain cmd op v where row: "row = (cmd, op, v)" by (cases row) auto
  obtain n d1 d2 where ev:
    "appendRunControlEventExecutor sid ''session.run.outcome''
       (run_outcome_payload cmd op ''outcome_unknown'' None (Some ''adapter_disconnected'')) now d = Inr (d1, n)"
    and f: "fence_run sid cmd v n now d1 = Inr d2" and rest: "fence_runs sid now rows d2 = (d', Inr ())"
    using Cons.prems by (auto simp: row pbind_ok prog_ok_simps)
  note d1 = lifecycle_event_frame [OF ev]
  obtain r where r: "map_of (session_run_controls d) (sid, cmd) = Some r"
    "put_run (sid, cmd) (r\<lparr>rc_status := ''outcome_unknown'', rc_terminal_seq := Some n,
       rc_updated_ms := now\<rparr>) d1 = Inr d2"
    using f d1 by (auto simp: fence_run_def split: option.splits if_splits)
  then have d2: "d2 = d1\<lparr>session_run_controls := AList.update (sid, cmd)
      (r\<lparr>rc_status := ''outcome_unknown'', rc_terminal_seq := Some n, rc_updated_ms := now\<rparr>)
      (session_run_controls d)\<rparr>"
    using d1 by (auto simp: put_run_def split: if_splits)
  have "run_fenced d2 sid cmd" using d1 by (simp add: run_fenced_def outcome_event_def d2)
  moreover have "store_step d2 d'" using fence_runs_step [of d2 sid now rows] rest by simp
  ultimately have "run_fenced d' sid cmd" by (rule run_fenced_mono [rotated])
  then show ?case using Cons.IH [OF rest] d1 by (simp add: row d2)
qed (simp add: prog_ok_simps)

lemma fence_files_effect:
  "fence_files sid now rows d = (d', Inr ()) \<Longrightarrow>
   (\<forall>row \<in> set rows. file_fenced d' sid (fst row)) \<and>
   (\<forall>k. k \<notin> (\<lambda>row. (sid, fst row)) ` set rows \<longrightarrow>
        map_of (session_file_reference_commands d') k = map_of (session_file_reference_commands d) k) \<and>
   session_run_controls d' = session_run_controls d \<and>
   session_run_control_capabilities d' = session_run_control_capabilities d \<and>
   session_file_reference_capabilities d' = session_file_reference_capabilities d"
proof (induction rows arbitrary: d)
  case (Cons row rows)
  obtain cmd msg where row: "row = (cmd, msg)" by (cases row) auto
  obtain n d1 d2 where ev:
    "appendRunControlEventExecutor sid ''session.file_references.outcome''
       (file_outcome_payload msg cmd ''outcome_unknown'' None (Some ''writer_lost'')) now d = Inr (d1, n)"
    and f: "fence_file sid cmd n now d1 = Inr d2" and rest: "fence_files sid now rows d2 = (d', Inr ())"
    using Cons.prems by (auto simp: row pbind_ok prog_ok_simps)
  note d1 = lifecycle_event_frame [OF ev]
  obtain r where r: "map_of (session_file_reference_commands d) (sid, cmd) = Some r"
    "put_file (sid, cmd) (r\<lparr>fr_status := ''outcome_unknown'', fr_terminal_seq := Some n,
       fr_updated_ms := now\<rparr>) d1 = Inr d2"
    using f d1 by (auto simp: fence_file_def split: option.splits if_splits)
  then have d2: "d2 = d1\<lparr>session_file_reference_commands := AList.update (sid, cmd)
      (r\<lparr>fr_status := ''outcome_unknown'', fr_terminal_seq := Some n, fr_updated_ms := now\<rparr>)
      (session_file_reference_commands d)\<rparr>"
    using d1 by (auto simp: put_file_def split: if_splits)
  have "file_fenced d2 sid cmd" using d1 by (simp add: file_fenced_def outcome_event_def d2)
  moreover have "store_step d2 d'" using fence_files_step [of d2 sid now rows] rest by simp
  ultimately have "file_fenced d' sid cmd" by (rule file_fenced_mono [rotated])
  then show ?case using Cons.IH [OF rest] d1 by (simp add: row d2)
qed (simp add: prog_ok_simps)

text \<open>After the fencing no reservation of the session is active, and none was lost.\<close>

definition ledgers_fenced :: "db \<Rightarrow> db \<Rightarrow> string \<Rightarrow> bool" where
  "ledgers_fenced d d' sid \<longleftrightarrow>
     (\<forall>cmd r. map_of (session_run_controls d) (sid, cmd) = Some r \<and> run_active r \<longrightarrow> run_fenced d' sid cmd) \<and>
     (\<forall>cmd r. map_of (session_file_reference_commands d) (sid, cmd) = Some r \<and> file_active r \<longrightarrow>
        file_fenced d' sid cmd) \<and>
     (\<forall>cmd r. map_of (session_run_controls d') (sid, cmd) = Some r \<longrightarrow> \<not> run_active r) \<and>
     (\<forall>cmd r. map_of (session_file_reference_commands d') (sid, cmd) = Some r \<longrightarrow> \<not> file_active r) \<and>
     map_of (session_run_control_capabilities d') sid = None \<and>
     map_of (session_file_reference_capabilities d') sid = None"

lemma fence_ledgers_effect:
  assumes ok: "fenceRunControlsAfterWriterReplacement sid now d = (d', Inr ())"
  shows "ledgers_fenced d d' sid \<and> same_authority d d'"
proof -
  let ?d1 = "d\<lparr>session_run_control_capabilities := AList.delete sid (session_run_control_capabilities d)\<rparr>"
  obtain d2 where runs: "fence_runs sid now (pending_runs ?d1 sid) ?d1 = (d2, Inr ())"
    and files: "fence_files sid now (active_files d2 sid)
      (d2\<lparr>session_file_reference_capabilities := AList.delete sid (session_file_reference_capabilities d2)\<rparr>)
      = (d', Inr ())"
    using ok
    by (auto simp: fenceRunControlsAfterWriterReplacement_def
        fenceFileReferenceCommandsAfterWriterReplacement_def pbind_ok prog_ok_simps active_files_def)
  note re = fence_runs_effect [OF runs] and fe = fence_files_effect [OF files]
  let ?d3 = "d2\<lparr>session_file_reference_capabilities := AList.delete sid (session_file_reference_capabilities d2)\<rparr>"
  have late: "store_step d2 d'"
    using fence_files_step [of ?d3 sid now "active_files d2 sid"] files
    by (auto intro: store_step_trans [of d2 ?d3 d'])
  note re1 = conjunct1 [OF re] and re2 = conjunct1 [OF conjunct2 [OF re]]
    and re3 = conjunct1 [OF conjunct2 [OF conjunct2 [OF re]]]
    and re4 = conjunct2 [OF conjunct2 [OF conjunct2 [OF re]]]
  note fe1 = conjunct1 [OF fe] and fe2 = conjunct1 [OF conjunct2 [OF fe]]
    and fe3 = conjunct2 [OF conjunct2 [OF fe]]
  have pend: "(sid, cmd) \<in> (\<lambda>row. (sid, fst row)) ` set (pending_runs ?d1 sid)"
    if "map_of (session_run_controls d) (sid, cmd) = Some r" "run_active r" for cmd r
    using map_of_SomeD [OF that(1)] that(2) by (force simp: pending_runs_def)
  have act: "(sid, cmd) \<in> (\<lambda>row. (sid, fst row)) ` set (active_files d2 sid)"
    if "map_of (session_file_reference_commands d) (sid, cmd) = Some r" "file_active r" for cmd r
    using map_of_SomeD [OF that(1)] that(2) re3 by (force simp: active_files_def)
  have r1: "run_fenced d' sid cmd"
    if "(sid, cmd) \<in> (\<lambda>row. (sid, fst row)) ` set (pending_runs ?d1 sid)" for cmd
    using that re1 run_fenced_mono [OF late] by blast
  have f1: "file_fenced d' sid cmd"
    if "(sid, cmd) \<in> (\<lambda>row. (sid, fst row)) ` set (active_files d2 sid)" for cmd
    using that fe1 by blast
  have r2: "\<not> run_active r" if "map_of (session_run_controls d') (sid, cmd) = Some r" for cmd r
  proof (cases "(sid, cmd) \<in> (\<lambda>row. (sid, fst row)) ` set (pending_runs ?d1 sid)")
    case True
    then show ?thesis using r1 [OF True] that by (simp add: run_fenced_def)
  next
    case False
    then have "map_of (session_run_controls d) (sid, cmd) = Some r"
      using that re2 [rule_format, OF False] fe3 by simp
    then show ?thesis using pend False by blast
  qed
  have f2: "\<not> file_active r" if "map_of (session_file_reference_commands d') (sid, cmd) = Some r" for cmd r
  proof (cases "(sid, cmd) \<in> (\<lambda>row. (sid, fst row)) ` set (active_files d2 sid)")
    case True
    then show ?thesis using f1 [OF True] that by (simp add: file_fenced_def)
  next
    case False
    then have "map_of (session_file_reference_commands d) (sid, cmd) = Some r"
      using that fe2 [rule_format, OF False] re3 by simp
    then show ?thesis using act False by blast
  qed
  have "same_authority ?d1 d2" "same_authority ?d3 d'"
    using fence_runs_authority [OF runs] fence_files_authority [OF files] by simp_all
  then have "same_authority d d'" by (simp add: same_authority_def)
  moreover have "map_of (session_run_control_capabilities d') sid = None"
    "map_of (session_file_reference_capabilities d') sid = None"
    using re4 fe3 by (simp_all add: map_of_delete)
  ultimately show ?thesis
    unfolding ledgers_fenced_def
    by (intro conjI allI impI) (auto intro: r1 [OF pend] f1 [OF act] dest: r2 f2)
qed

section \<open>Properties\<close>

lemma wf_initial: "wf initial_db"
  using initial_numbered
  by (simp add: wf_def fences_ok_def ledgers_ok_def plain_ok_def one_target_def tbl_ok_def one_active_def
      unique_keys_def) (simp add: initial_db_def)

lemma store_step_wf: "store_step d d' \<Longrightarrow> wf d \<Longrightarrow> wf d'"
  by (simp add: store_step_def)

definition demo_initialize :: AdapterConnectionInitialize where
  "demo_initialize = \<lparr>ai_SessionID = ''s'', ai_ActiveCredentialGeneration = 1,
     ai_ActiveCredentialExpiresAt = fromMilli 1000\<rparr>"

definition demo_connected :: db where
  "demo_connected = fst (InitializeAdapterConnection demo_initialize (\<lambda>_. 5) initial_db)"

definition demo_hello :: AdapterHello where
  "demo_hello = \<lparr>ah_CredentialGeneration = 1, ah_WriterLeaseID = ''lease''\<rparr>"

definition demo_bound :: db where
  "demo_bound = fst (AcceptAdapterHello ''s'' demo_hello (\<lambda>_. 6) demo_connected)"

lemma demo_wf: "wf demo_connected" "wf demo_bound"
proof -
  show w: "wf demo_connected"
    unfolding demo_connected_def by (rule store_step_wf [OF connection_ops_step(1) wf_initial])
  show "wf demo_bound"
    unfolding demo_bound_def by (rule store_step_wf [OF connection_ops_step(4) w])
qed

lemma bind_writer_ok:
  assumes "bind_writer sid hello c now d = (d', Inr ())"
  shows "ledgers_fenced d d' sid \<and> same_authority d d'"
proof -
  let ?w = "\<lparr>w_ConnectionEpoch = ad_ConnectionEpoch c, w_CredentialGeneration = ad_ActiveCredentialGeneration c,
      w_LeaseID = ah_WriterLeaseID hello\<rparr>"
  let ?d1 = "d\<lparr>session_settings_live_writers := AList.update sid ?w (session_settings_live_writers d)\<rparr>"
  have "fenceRunControlsAfterWriterReplacement sid now d = (d', Inr ()) \<or>
      fenceRunControlsAfterWriterReplacement sid now ?d1 = (d', Inr ())"
    using assms
    by (auto simp: bind_writer_def put_live_writer_def pbind_ok prog_ok_simps split: if_splits)
  then show ?thesis
    using fence_ledgers_effect [of sid now d d'] fence_ledgers_effect [of sid now ?d1 d']
    by (auto simp: ledgers_fenced_def same_authority_def)
qed

text \<open>
  C15: accepting an Adapter hello on a well-formed store hands the session to a new connection:
  the epoch grows by one, the accepted fence is a new one above every fence any connection
  holds, only the row of this session changes, and every run control and file-reference
  reservation the previous connection left active is settled as \<^verbatim>\<open>outcome_unknown\<close> with a
  durable outcome event, so that none stays active and no capability of the old writer survives.
\<close>

theorem hello_replaces_writer:
  assumes wf: "wf d" and ok: "AcceptAdapterHello sid hello clk d = (d', Inr c)"
  shows "\<exists>row row'. map_of (session_adapter_connections d) sid = Some row \<and>
      cn_epoch row' = cn_epoch row + 1 \<and> cn_fence row' = side_next_fence d \<and>
      cn_active_gen row' = ah_CredentialGeneration hello \<and>
      session_adapter_connections d' = AList.update sid row' (session_adapter_connections d) \<and>
      c = row_connection sid row' \<and>
      (\<forall>k r. map_of (session_adapter_connections d) k = Some r \<longrightarrow> cn_fence r < cn_fence row') \<and>
      cn_fence row' < main_next_fence d' \<and>
      ledgers_fenced d d' sid"
  using ok
proof (cases rule: hello_ok)
  case (1 row)
  let ?row = "row\<lparr>cn_epoch := cn_epoch row + 1, cn_fence := side_next_fence d, cn_updated_ms := clk 1\<rparr>"
  let ?d1 = "(fence_after True d)\<lparr>session_adapter_connections :=
        AList.update sid ?row (session_adapter_connections d)\<rparr>"
  have b: "ledgers_fenced ?d1 d' sid \<and> same_authority ?d1 d'" by (rule bind_writer_ok [OF 1(8)])
  have "ledgers_fenced d d' sid" using b by (simp add: ledgers_fenced_def fence_after_def)
  moreover have "cn_fence r < side_next_fence d"
    if "map_of (session_adapter_connections d) k = Some r" for k r
    using wf_connection(2) [OF wf that] wf by (simp add: wf_def fences_ok_def)
  ultimately show ?thesis using 1 b
    by (intro exI [of _ row] exI [of _ ?row]) (auto simp: same_authority_def fence_after_def)
qed

theorem hello_replaces_writer_witness:
  "\<exists>d' c. AcceptAdapterHello ''s'' demo_hello (\<lambda>_. 6) demo_connected = (d', Inr c) \<and>
      ledgers_fenced demo_connected d' ''s''"
proof -
  have "case snd (AcceptAdapterHello ''s'' demo_hello (\<lambda>_. 6) demo_connected) of
      Inr c \<Rightarrow> ad_AcceptedFence c = 1 | Inl e \<Rightarrow> False" by code_simp
  then obtain d' c where h: "AcceptAdapterHello ''s'' demo_hello (\<lambda>_. 6) demo_connected = (d', Inr c)"
    by (cases "AcceptAdapterHello ''s'' demo_hello (\<lambda>_. 6) demo_connected") (auto split: sum.splits)
  then show ?thesis using hello_replaces_writer [OF demo_wf(1) h] by blast
qed

text \<open>
  C30: preparing a rotation and then activating it moves the session to a credential generation
  above every generation the session has ever used, keeps the replaced generation as the one
  recovery may fall back to, clears the pending rotation, and starts a new epoch under a new
  fence.
\<close>

theorem rotation_activation:
  assumes prep: "PrepareAdapterCredentialRotation sid ro clk d = (d1, Inr c1)"
    and act: "ActivateAdapterCredential sid a clk' d1 = (d2, Inr c2)"
  shows "\<exists>row row'. map_of (session_adapter_connections d) sid = Some row \<and>
      session_adapter_connections d2 = AList.update sid row' (session_adapter_connections d1) \<and>
      c2 = row_connection sid row' \<and>
      cn_active_gen row' = ro_PendingGeneration ro \<and> cn_high_watermark row < cn_active_gen row' \<and>
      cn_high_watermark row' = cn_active_gen row' \<and>
      cn_prior_gen row' = Some (cn_active_gen row) \<and>
      cn_pending_gen row' = None \<and> cn_rotation_id row' = None \<and>
      cn_active_expires_ms row' = UnixMilli (ro_ExpiresAt ro) \<and>
      cn_epoch row' = cn_epoch row + 1 \<and> cn_fence row' = side_next_fence d"
proof -
  have "updateConnectionAfter sid (rotate_stmt ro) False (\<lambda>_ _. pret ()) clk 0 d = (d1, Inr c1)"
    using prep by (auto simp: PrepareAdapterCredentialRotation_def atomic_ok updateConnection_def
        PrepareAdapterCredentialRotation_in_def pbind_ok prog_ok_simps split: if_splits)
  then obtain row row1 where row: "map_of (session_adapter_connections d) sid = Some row"
    "rotate_stmt ro (clk 0) 0 row = Some row1"
    and d1: "d1 = d\<lparr>session_adapter_connections := AList.update sid row1 (session_adapter_connections d)\<rparr>"
    by (rule updateConnectionAfter_ok) (auto simp: fence_after_def prog_ok_simps)
  have "updateConnectionAfter sid (activate_stmt a) True (\<lambda>_ _. pret ()) clk' 1 d1 = (d2, Inr c2)"
    using act by (auto simp: ActivateAdapterCredential_def atomic_ok updateConnection_def
        ActivateAdapterCredential_in_def pbind_ok prog_ok_simps split: if_splits)
  then obtain row' where row': "activate_stmt a (clk' 1) (side_next_fence d) row1 = Some row'"
    "c2 = row_connection sid row'"
    "session_adapter_connections d2 = AList.update sid row' (session_adapter_connections d1)"
    by (rule updateConnectionAfter_ok) (auto simp: fence_after_def prog_ok_simps d1)
  show ?thesis
    using row row'
    by (intro exI [of _ row] exI [of _ row'])
      (auto simp: rotate_stmt_def activate_stmt_def Let_def split: if_splits option.splits)
qed

definition demo_rotation :: AdapterCredentialRotation where
  "demo_rotation = \<lparr>ro_ExpectedActiveCredentialGeneration = 1, ro_ExpectedEpoch = 1,
     ro_PendingGeneration = 2, ro_ExpiresAt = fromMilli 2000, ro_RotationID = ''rot''\<rparr>"

definition demo_activation :: AdapterCredentialActivation where
  "demo_activation = \<lparr>aa_ExpectedActiveCredentialGeneration = 1, aa_ExpectedEpoch = 1,
     aa_PendingGeneration = 2, aa_RotationID = ''rot''\<rparr>"

theorem rotation_activation_witness:
  "\<exists>d1 c1 d2 c2. PrepareAdapterCredentialRotation ''s'' demo_rotation (\<lambda>_. 7) demo_bound = (d1, Inr c1) \<and>
      ActivateAdapterCredential ''s'' demo_activation (\<lambda>_. 8) d1 = (d2, Inr c2) \<and>
      ad_ActiveCredentialGeneration c2 = 2"
proof -
  let ?p = "PrepareAdapterCredentialRotation ''s'' demo_rotation (\<lambda>_. 7) demo_bound"
  have "case ?p of (_, Inl _) \<Rightarrow> False
      | (d1, Inr _) \<Rightarrow> (case ActivateAdapterCredential ''s'' demo_activation (\<lambda>_. 8) d1 of
          (_, Inl _) \<Rightarrow> False | (_, Inr _) \<Rightarrow> True)" by code_simp
  then obtain d1 c1 d2 c2 where p: "?p = (d1, Inr c1)"
    and a: "ActivateAdapterCredential ''s'' demo_activation (\<lambda>_. 8) d1 = (d2, Inr c2)"
    by (auto split: prod.splits sum.splits)
  have "ad_ActiveCredentialGeneration c2 = 2"
    using rotation_activation [OF p a] by (auto simp: row_connection_def demo_rotation_def)
  then show ?thesis using p a by blast
qed

text \<open>
  Initialising a connection is idempotent: repeating a successful initialisation while the
  credential has not expired returns the same connection and changes nothing.
\<close>

theorem initialize_idempotent:
  assumes ok: "InitializeAdapterConnection request clk d = (d', Inr c)"
    and live: "\<And>i. clk' i < UnixMilli (ai_ActiveCredentialExpiresAt request)"
    and later: "\<And>i j. clk i \<le> clk' j"
  shows "InitializeAdapterConnection request clk' d' = (d', Inr c)"
proof -
  let ?sid = "ai_SessionID request"
  obtain row where row: "map_of (session_adapter_connections d') ?sid = Some row"
    "validAdapterConnectionRow ?sid row (clk 1) (main_next_fence d')" "c = row_connection ?sid row"
    using ok by (auto simp: InitializeAdapterConnection_def atomic_ok InitializeAdapterConnection_in_def
        pbind_ok prog_ok_simps Let_def queryAdapterConnection_def queryAdapterConnectionWhere_def
        split: if_splits option.splits)
  have same: "insert_or_ignore_connection ?sid r d' = d'" for r
    using row(1) by (simp add: insert_or_ignore_connection_def)
  have valid: "validAdapterConnectionRow ?sid row (clk' 1) (main_next_fence d')"
    using row(2) later [of 1 1]
    by (cases "cn_revoked_ms row"; cases "cn_terminal_ms row")
      (simp_all add: validAdapterConnectionRow_def)
  have "queryAdapterConnection ?sid (clk' 1) d' = Inr c" "queryAdapterConnection ?sid (clk 1) d' = Inr c"
    using row valid by (simp_all add: queryAdapterConnection_def queryAdapterConnectionWhere_def)
  then show ?thesis
    using ok live [of 0] unfolding InitializeAdapterConnection_def atomic_ok InitializeAdapterConnection_in_def Let_def
    by (simp add: same pbind_ok prog_ok_simps split: if_splits) auto
qed

theorem initialize_idempotent_witness:
  "\<exists>c. InitializeAdapterConnection demo_initialize (\<lambda>_. 5) initial_db = (demo_connected, Inr c) \<and>
      InitializeAdapterConnection demo_initialize (\<lambda>_. 6) demo_connected = (demo_connected, Inr c)"
proof -
  have "case snd (InitializeAdapterConnection demo_initialize (\<lambda>_. 5) initial_db) of
      Inr c \<Rightarrow> True | Inl e \<Rightarrow> False" by code_simp
  then obtain c where h: "InitializeAdapterConnection demo_initialize (\<lambda>_. 5) initial_db = (demo_connected, Inr c)"
    unfolding demo_connected_def
    by (cases "InitializeAdapterConnection demo_initialize (\<lambda>_. 5) initial_db") (auto split: sum.splits)
  have "(6::int) < UnixMilli (ai_ActiveCredentialExpiresAt demo_initialize)" by code_simp
  then show ?thesis using h initialize_idempotent [OF h, of "\<lambda>_. 6"] by auto
qed

end
