(* ===== verification/Encrypted_Packet.thy ===== *)
theory Encrypted_Packet
  imports Go_Json
begin

text \<open>
  The endpoint-encrypted carriers of \<^verbatim>\<open>protocol\<close>: identifiers and base64url texts
  (\<^verbatim>\<open>codec.go\<close>), the packet carrier with its public projection (\<^verbatim>\<open>encrypted_packet.go\<close>),
  the pairing, key-request and initialisation carriers, the file requests and the launch
  settings. The decoders work on the parsed value: a raw member (\<^verbatim>\<open>json.RawMessage\<close>) is the
  parsed member, so the nesting limit counts from the outermost object. A decoder whose only error is
  one sentinel returns an option.

  The lemmas show that \<open>validBase64URL\<close> accepts exactly the canonical encodings of byte
  strings of the allowed lengths, that the carrier decoder reads back what a sender marshals,
  and that a safe path never leaves the directory it is resolved against.
\<close>

section \<open>Identifiers and base64url\<close>

definition is_alnum :: "char \<Rightarrow> bool" where
  "is_alnum c \<longleftrightarrow> 65 \<le> code c \<and> code c \<le> 90 \<or> 97 \<le> code c \<and> code c \<le> 122 \<or> 48 \<le> code c \<and> code c \<le> 57"

definition validProtocolIdentifier :: "string \<Rightarrow> bool" where
  "validProtocolIdentifier value \<longleftrightarrow>
     length value \<noteq> 0 \<and> length value \<le> 128 \<and>
     list_all (\<lambda>c. is_alnum c \<or> c \<in> set ''_.:/-'') value"

definition validSettingsIdentifier :: "string \<Rightarrow> bool" where
  "validSettingsIdentifier value \<longleftrightarrow>
     length value \<noteq> 0 \<and> length value \<le> 128 \<and> is_alnum (hd value) \<and>
     list_all (\<lambda>c. is_alnum c \<or> c \<in> set ''._:/-'') (tl value)"

definition b64_char :: "nat \<Rightarrow> char" where
  "b64_char n =
     (if n < 26 then char_of (n + 65) else if n < 52 then char_of (n + 71)
      else if n < 62 then char_of (n - 4) else if n = 62 then CHR ''-'' else CHR ''_'')"

definition b64_val :: "char \<Rightarrow> nat option" where
  "b64_val c =
     (if 65 \<le> code c \<and> code c \<le> 90 then Some (code c - 65)
      else if 97 \<le> code c \<and> code c \<le> 122 then Some (code c - 71)
      else if 48 \<le> code c \<and> code c \<le> 57 then Some (code c + 4)
      else if c = CHR ''-'' then Some 62
      else if c = CHR ''_'' then Some 63
      else None)"

fun b64_bytes :: "nat list \<Rightarrow> nat list option" where
  "b64_bytes [] = Some []"
| "b64_bytes [a] = None"
| "b64_bytes [a, b] = (if b mod 16 = 0 then Some [a * 4 + b div 16] else None)"
| "b64_bytes [a, b, c] =
     (if c mod 4 = 0 then Some [a * 4 + b div 16, b mod 16 * 16 + c div 4] else None)"
| "b64_bytes (a # b # c # e # rest) =
     (case b64_bytes rest of
        None \<Rightarrow> None
      | Some bs \<Rightarrow> Some ((a * 4 + b div 16) # (b mod 16 * 16 + c div 4) # (c mod 4 * 64 + e) # bs))"

fun b64_sextets :: "nat list \<Rightarrow> nat list" where
  "b64_sextets [] = []"
| "b64_sextets [x] = [x div 4, x mod 4 * 16]"
| "b64_sextets [x, y] = [x div 4, x mod 4 * 16 + y div 16, y mod 16 * 4]"
| "b64_sextets (x # y # z # rest) =
     x div 4 # (x mod 4 * 16 + y div 16) # (y mod 16 * 4 + z div 64) # z mod 64 # b64_sextets rest"

definition EncodeToString :: "bytes \<Rightarrow> string" where
  "EncodeToString bs = map b64_char (b64_sextets (map of_char bs))"

definition DecodeString :: "string \<Rightarrow> bytes option" where
  "DecodeString s =
     (case those (map b64_val (filter (\<lambda>c. c \<noteq> CHR 0x0D \<and> c \<noteq> CHR 0x0A) s)) of
        None \<Rightarrow> None
      | Some ns \<Rightarrow> map_option (map char_of) (b64_bytes ns))"

definition EncodedLen :: "nat \<Rightarrow> nat" where
  "EncodedLen n = n div 3 * 4 + (n mod 3 * 8 + 5) div 6"

definition validBase64URL :: "string \<Rightarrow> nat \<Rightarrow> nat \<Rightarrow> bool" where
  "validBase64URL value lo hi \<longleftrightarrow>
     length value \<le> EncodedLen hi \<and>
     (case DecodeString value of
        None \<Rightarrow> False
      | Some decoded \<Rightarrow> lo \<le> length decoded \<and> length decoded \<le> hi \<and> EncodeToString decoded = value)"

section \<open>Strict objects\<close>

type_synonym fields = "(string \<times> json) list"

definition strict_value :: "json \<Rightarrow> fields option" where
  "strict_value v =
     (case v of JObj ms \<Rightarrow> if distinct (map fst ms) then Some ms else None | _ \<Rightarrow> None)"

definition strictObject :: "bytes \<Rightarrow> fields option" where
  "strictObject data = (case parse_json data of None \<Rightarrow> None | Some v \<Rightarrow> strict_value v)"

definition encryptedObject :: "json \<Rightarrow> string list \<Rightarrow> fields option" where
  "encryptedObject v names =
     (case strict_value v of
        None \<Rightarrow> None
      | Some fs \<Rightarrow>
          if length fs \<noteq> length names then None
          else if list_all (\<lambda>n. n \<in> fst ` set fs) names then Some fs else None)"

text \<open>
  \<^verbatim>\<open>json.Unmarshal\<close> of a member into a string or a bool: an absent member and \<^verbatim>\<open>null\<close> leave the
  zero value. The objects have passed the exact-name check, so names are not folded.
\<close>

definition str_field :: "fields \<Rightarrow> string \<Rightarrow> string option" where
  "str_field fs name =
     (case map_of fs name of
        None \<Rightarrow> Some [] | Some JNull \<Rightarrow> Some [] | Some (JStr s) \<Rightarrow> Some s | _ \<Rightarrow> None)"

definition bool_field :: "fields \<Rightarrow> string \<Rightarrow> bool option" where
  "bool_field fs name =
     (case map_of fs name of
        None \<Rightarrow> Some False | Some JNull \<Rightarrow> Some False | Some (JBool b) \<Rightarrow> Some b | _ \<Rightarrow> None)"

definition fields_of :: "json \<Rightarrow> fields" where
  "fields_of v = (case v of JObj ms \<Rightarrow> ms | _ \<Rightarrow> [])"

definition member :: "fields \<Rightarrow> string \<Rightarrow> json" where
  "member fs name = (case map_of fs name of None \<Rightarrow> JNull | Some v \<Rightarrow> v)"

section \<open>The packet carrier\<close>

record EncryptedProjection =
  ep_State :: string
  ep_Role :: string
  ep_RequestID :: string
  ep_Decision :: string
  ep_Operation :: string
  ep_Outcome :: string
  ep_CompletionState :: string
  ep_ReasonCode :: string
  ep_CommandID :: string
  ep_InterruptSupported :: bool
  ep_StopSupported :: bool

record OpaqueContentEnvelope =
  oe_Nonce :: string
  oe_Ciphertext :: string
  oe_Signature :: string

record OpaqueContentPacket =
  op_Public :: EncryptedProjection
  op_Encrypted :: OpaqueContentEnvelope

record EncryptedPacketCarrier =
  pk_Scope :: string
  pk_KeyID :: string
  pk_Sender :: string
  pk_MessageID :: string
  pk_Type :: string
  pk_Packet :: OpaqueContentPacket

definition MaxEncryptedPacketCarrierBytes :: int where
  "MaxEncryptedPacketCarrierBytes = 49 * 1024"

definition read_text :: "fields \<Rightarrow> string \<Rightarrow> string option option" where
  \<comment> \<open>\<open>None\<close> is the error, \<open>Some None\<close> an absent field\<close>
  "read_text fs name =
     (case map_of fs name of
        None \<Rightarrow> Some None
      | Some (JStr s) \<Rightarrow> if s = [] then None else Some (Some s)
      | Some _ \<Rightarrow> None)"

definition validateRunControlOutcomeProjection :: "fields \<Rightarrow> bool" where
  "validateRunControlOutcomeProjection fs \<longleftrightarrow>
     list_all (\<lambda>(n, v). n \<in> {''operation'', ''outcome'', ''completion_state'', ''reason_code'',
       ''command_id'', ''cmd_id''}) fs \<and>
     (case read_text fs ''operation'' of
        Some (Some s) \<Rightarrow> s = ''interrupt'' \<or> s = ''stop'' | _ \<Rightarrow> False) \<and>
     (case read_text fs ''outcome'' of
        Some (Some s) \<Rightarrow> s \<in> {''completed'', ''rejected'', ''timeout'', ''outcome_unknown''} | _ \<Rightarrow> False) \<and>
     (case read_text fs ''completion_state'' of
        None \<Rightarrow> False | Some None \<Rightarrow> True | Some (Some s) \<Rightarrow> s = ''ready'' \<or> s = ''ended'') \<and>
     (case read_text fs ''reason_code'' of
        None \<Rightarrow> False | Some None \<Rightarrow> True | Some (Some s) \<Rightarrow> validProtocolIdentifier s) \<and>
     (case read_text fs ''command_id'' of
        None \<Rightarrow> False
      | Some (Some s) \<Rightarrow> validProtocolIdentifier s
      | Some None \<Rightarrow>
          (case read_text fs ''cmd_id'' of
             None \<Rightarrow> False | Some None \<Rightarrow> True | Some (Some s) \<Rightarrow> validProtocolIdentifier s))"

definition ValidateRunControlOutcomeProjection :: "bytes \<Rightarrow> bool" where
  "ValidateRunControlOutcomeProjection data =
     (case strictObject data of
        None \<Rightarrow> False
      | Some fs \<Rightarrow> validateRunControlOutcomeProjection (filter (\<lambda>(n, v). v \<noteq> JNull) fs))"

definition projection_names :: "string \<Rightarrow> string list" where
  "projection_names ty =
     (if ty = ''session.state'' then [''state'']
      else if ty = ''session.message'' then [''role'']
      else if ty = ''permission.request'' then [''request_id'']
      else if ty = ''permission.decision'' \<or> ty = ''permission.respond'' then [''request_id'', ''decision'']
      else [])"

definition projection_value :: "string \<Rightarrow> string \<Rightarrow> bool" where
  "projection_value name value \<longleftrightarrow>
     (if name = ''state''
      then value \<in> {''starting'', ''ready'', ''busy'', ''waiting_permission'', ''ended'', ''error''}
      else if name = ''role'' then value \<in> {''user'', ''agent'', ''system''}
      else if name = ''request_id'' then validProtocolIdentifier value
      else if name = ''decision'' then value \<in> {''approve'', ''deny'', ''expired''}
      else True)"

definition validateEncryptedProjection :: "string \<Rightarrow> json \<Rightarrow> bool" where
  "validateEncryptedProjection contentType v =
     (case strict_value v of
        None \<Rightarrow> False
      | Some fs \<Rightarrow>
          if contentType = ''session.run.outcome'' then validateRunControlOutcomeProjection fs
          else if contentType = ''session.run.capabilities''
          then list_all (\<lambda>(n, x). n \<in> {''interrupt_supported'', ''stop_supported''} \<and>
                 (case x of JBool b \<Rightarrow> True | JNull \<Rightarrow> True | _ \<Rightarrow> False)) fs
          else length fs = length (projection_names contentType) \<and>
            list_all (\<lambda>n. case map_of fs n of
                Some (JStr s) \<Rightarrow> s \<noteq> [] \<and> projection_value n s | _ \<Rightarrow> False)
              (projection_names contentType))"

definition unmarshal_projection :: "fields \<Rightarrow> EncryptedProjection option" where
  "unmarshal_projection fs =
     (case those (map (str_field fs) [''state'', ''role'', ''request_id'', ''decision'', ''operation'',
             ''outcome'', ''completion_state'', ''reason_code'', ''command_id'']) of
        Some [state, role, request, decision, operation, outcome, completion, reason, command] \<Rightarrow>
          (case (bool_field fs ''interrupt_supported'', bool_field fs ''stop_supported'') of
             (Some interrupt, Some stop) \<Rightarrow>
               Some \<lparr>ep_State = state, ep_Role = role, ep_RequestID = request, ep_Decision = decision,
                 ep_Operation = operation, ep_Outcome = outcome, ep_CompletionState = completion,
                 ep_ReasonCode = reason, ep_CommandID = command,
                 ep_InterruptSupported = interrupt, ep_StopSupported = stop\<rparr>
           | _ \<Rightarrow> None)
      | _ \<Rightarrow> None)"

definition unmarshal_envelope :: "fields \<Rightarrow> OpaqueContentEnvelope option" where
  "unmarshal_envelope fs =
     (case those (map (str_field fs) [''nonce'', ''ciphertext'', ''signature'']) of
        Some [nonce, ciphertext, signature] \<Rightarrow>
          Some \<lparr>oe_Nonce = nonce, oe_Ciphertext = ciphertext, oe_Signature = signature\<rparr>
      | _ \<Rightarrow> None)"

text \<open>The two version fields are read as integers; only the literal 1 gives the value 1.\<close>

definition unmarshal_carrier :: "fields \<Rightarrow> fields \<Rightarrow> EncryptedPacketCarrier option" where
  "unmarshal_carrier fs packet =
     (case (those (map (str_field fs) [''scope'', ''key_id'', ''sender'', ''message_id'', ''type'']),
            unmarshal_projection (fields_of (member packet ''public'')),
            unmarshal_envelope (fields_of (member packet ''encrypted''))) of
        (Some [scope, key, sender, message, type'], Some public, Some envelope) \<Rightarrow>
          if member fs ''version'' = JNum ''1'' \<and> member packet ''version'' = JNum ''1''
          then Some \<lparr>pk_Scope = scope, pk_KeyID = key, pk_Sender = sender, pk_MessageID = message,
                 pk_Type = type', pk_Packet = \<lparr>op_Public = public, op_Encrypted = envelope\<rparr>\<rparr>
          else None
      | _ \<Rightarrow> None)"

definition valid_carrier :: "string \<Rightarrow> string \<Rightarrow> string \<Rightarrow> EncryptedPacketCarrier \<Rightarrow> bool" where
  "valid_carrier scope contentType commandID c \<longleftrightarrow>
     pk_Scope c = scope \<and> pk_Type c = contentType \<and> validProtocolIdentifier (pk_KeyID c) \<and>
     validProtocolIdentifier (pk_Sender c) \<and> validProtocolIdentifier (pk_MessageID c) \<and>
     (scope = ''command'' \<longrightarrow> pk_MessageID c = commandID) \<and>
     validBase64URL (oe_Nonce (op_Encrypted (pk_Packet c))) 12 12 \<and>
     validBase64URL (oe_Ciphertext (op_Encrypted (pk_Packet c))) 16 (32768 + 16) \<and>
     validBase64URL (oe_Signature (op_Encrypted (pk_Packet c))) 64 64"

definition DecodeEncryptedPacketCarrier ::
  "bytes \<Rightarrow> string \<Rightarrow> string \<Rightarrow> string \<Rightarrow> EncryptedPacketCarrier option" where
  "DecodeEncryptedPacketCarrier data scope contentType commandID =
     (if int (length data) > MaxEncryptedPacketCarrierBytes \<or> (scope \<noteq> ''event'' \<and> scope \<noteq> ''command'') \<or>
         \<not> validProtocolIdentifier contentType \<or>
         (scope = ''command'' \<and> \<not> validProtocolIdentifier commandID) \<or>
         (scope = ''event'' \<and> commandID \<noteq> [])
      then None
      else case parse_json data of
        None \<Rightarrow> None
      | Some v \<Rightarrow>
          (case encryptedObject v [''version'', ''scope'', ''key_id'', ''sender'', ''message_id'', ''type'', ''packet''] of
             None \<Rightarrow> None
           | Some fs \<Rightarrow>
               (case encryptedObject (member fs ''packet'') [''version'', ''public'', ''encrypted''] of
                  None \<Rightarrow> None
                | Some packet \<Rightarrow>
                    if encryptedObject (member packet ''encrypted'') [''nonce'', ''ciphertext'', ''signature''] = None \<or>
                       \<not> validateEncryptedProjection contentType (member packet ''public'')
                    then None
                    else case unmarshal_carrier fs packet of
                      None \<Rightarrow> None
                    | Some c \<Rightarrow> if valid_carrier scope contentType commandID c then Some c else None)))"

section \<open>Pairing, key requests and initialisation\<close>

text \<open>The string members of an object with exactly the given names.\<close>

definition exact_strings :: "bytes \<Rightarrow> string list \<Rightarrow> string list option" where
  "exact_strings data names =
     (case parse_json data of
        None \<Rightarrow> None
      | Some v \<Rightarrow>
          (case encryptedObject v names of
             None \<Rightarrow> None
           | Some fs \<Rightarrow> those (map (str_field fs) names)))"

record EncryptedPairingRequest =
  pq_Enc :: string
  pq_Ciphertext :: string

definition DecodeEncryptedPairingRequest :: "bytes \<Rightarrow> EncryptedPairingRequest option" where
  "DecodeEncryptedPairingRequest data =
     (if length data > 2048 then None
      else case exact_strings data [''enc'', ''ciphertext''] of
        Some [enc, ciphertext] \<Rightarrow>
          if validBase64URL enc 65 65 \<and> validBase64URL ciphertext 16 1024
          then Some \<lparr>pq_Enc = enc, pq_Ciphertext = ciphertext\<rparr> else None
      | _ \<Rightarrow> None)"

definition DecodeSessionKeyResponse :: "bytes \<Rightarrow> EncryptedPairingRequest option" where
  "DecodeSessionKeyResponse data =
     (if length data > 1024 then None
      else case DecodeEncryptedPairingRequest data of
        None \<Rightarrow> None
      | Some r \<Rightarrow> if validBase64URL (pq_Ciphertext r) 48 48 then Some r else None)"

record SessionInitialization =
  si_Machine :: string
  si_Account :: string
  si_Session :: string
  si_KeyID :: string
  si_Device :: string
  si_Signature :: string

definition unmarshal_initialization :: "bytes \<Rightarrow> SessionInitialization option" where
  "unmarshal_initialization data =
     (case exact_strings data [''machine'', ''account'', ''session'', ''key_id'', ''device'', ''signature''] of
        Some [machine, account, session, key, device, signature] \<Rightarrow>
          Some \<lparr>si_Machine = machine, si_Account = account, si_Session = session, si_KeyID = key,
                si_Device = device, si_Signature = signature\<rparr>
      | _ \<Rightarrow> None)"

definition DecodeSessionKeyRequest ::
  "bytes \<Rightarrow> string \<Rightarrow> string \<Rightarrow> string \<Rightarrow> string \<Rightarrow> SessionInitialization option" where
  "DecodeSessionKeyRequest data machine session device keyID =
     (if length data > 2048 \<or> \<not> validProtocolIdentifier machine \<or> \<not> validProtocolIdentifier session \<or>
         \<not> validProtocolIdentifier device \<or> \<not> validProtocolIdentifier keyID
      then None
      else case unmarshal_initialization data of
        None \<Rightarrow> None
      | Some r \<Rightarrow>
          if si_Machine r = machine \<and> si_Session r = session \<and> si_Device r = device \<and>
             si_KeyID r = keyID \<and> validProtocolIdentifier (si_Account r) \<and>
             validBase64URL (si_Signature r) 64 64
          then Some r else None)"

definition DecodeSessionInitialization :: "bytes \<Rightarrow> string \<Rightarrow> string \<Rightarrow> SessionInitialization option" where
  "DecodeSessionInitialization data machine session =
     (if length data > 2048 \<or> \<not> validProtocolIdentifier machine \<or> \<not> validProtocolIdentifier session
      then None
      else case unmarshal_initialization data of
        None \<Rightarrow> None
      | Some r \<Rightarrow>
          if si_Machine r = machine \<and> si_Session r = session \<and> validProtocolIdentifier (si_Account r) \<and>
             validProtocolIdentifier (si_KeyID r) \<and> validProtocolIdentifier (si_Device r) \<and>
             validBase64URL (si_Signature r) 64 64
          then Some r else None)"

record TrustedSessionKeyRequest =
  tk_Machine :: string
  tk_Account :: string
  tk_Session :: string
  tk_KeyID :: string
  tk_Device :: string
  tk_SigningKey :: string
  tk_WrappingKey :: string
  tk_Signature :: string

definition DecodeTrustedSessionKeyRequest ::
  "bytes \<Rightarrow> string \<Rightarrow> string \<Rightarrow> string \<Rightarrow> string \<Rightarrow> TrustedSessionKeyRequest option" where
  "DecodeTrustedSessionKeyRequest data machine session device keyID =
     (if length data > 4096 \<or> \<not> validProtocolIdentifier machine \<or> \<not> validProtocolIdentifier session \<or>
         \<not> validProtocolIdentifier device \<or> \<not> validProtocolIdentifier keyID
      then None
      else case exact_strings data [''machine'', ''account'', ''session'', ''key_id'', ''device'',
              ''signing_key'', ''wrapping_key'', ''signature''] of
        Some [machine', account, session', key, device', signing, wrapping, signature] \<Rightarrow>
          if machine' = machine \<and> session' = session \<and> device' = device \<and> key = keyID \<and>
             validProtocolIdentifier account \<and> validBase64URL signing 32 32 \<and>
             validBase64URL wrapping 65 65 \<and> validBase64URL signature 64 64
          then Some \<lparr>tk_Machine = machine', tk_Account = account, tk_Session = session', tk_KeyID = key,
                 tk_Device = device', tk_SigningKey = signing, tk_WrappingKey = wrapping,
                 tk_Signature = signature\<rparr>
          else None
      | _ \<Rightarrow> None)"

section \<open>File requests\<close>

text \<open>\<^verbatim>\<open>strings.Split\<close> at a one-character separator.\<close>

fun split_at :: "char \<Rightarrow> string \<Rightarrow> string list" where
  "split_at s [] = [[]]"
| "split_at s (c # cs) =
     (if c = s then [] # split_at s cs
      else case split_at s cs of p # ps \<Rightarrow> (c # p) # ps | [] \<Rightarrow> [[c]])"

definition safeEncryptedPath :: "string \<Rightarrow> bool \<Rightarrow> bool" where
  "safeEncryptedPath path allowDot \<longleftrightarrow>
     (if path = ''.'' then allowDot
      else path \<noteq> [] \<and> length path \<le> 4096 \<and> hd path \<noteq> CHR ''/'' \<and> bslash \<notin> set path \<and>
        list_all (\<lambda>c. c \<notin> {CHR 0x00, CHR 0x0D, CHR 0x0A}) path \<and>
        list_all (\<lambda>c. c \<noteq> [] \<and> c \<noteq> ''.'' \<and> c \<noteq> ''..'') (split_at (CHR ''/'') path))"

definition decode_path :: "bytes \<Rightarrow> bool \<Rightarrow> string \<Rightarrow> string \<Rightarrow> string res" where
  "decode_path data allowDot invalid unsafe =
     (case strictObject data of
        Some [(name, v)] \<Rightarrow>
          if name \<noteq> ''path'' then Inl (Fail invalid)
          else (case str_field [(name, v)] ''path'' of
             Some path \<Rightarrow> if safeEncryptedPath path allowDot then Inr path else Inl (Fail unsafe)
           | None \<Rightarrow> Inl (Fail unsafe))
      | _ \<Rightarrow> Inl (Fail invalid))"

definition DecodeEncryptedFileReadRequest :: "bytes \<Rightarrow> string res" where
  "DecodeEncryptedFileReadRequest data =
     decode_path data False ''invalid encrypted file request'' ''unsafe encrypted file path''"

definition DecodeEncryptedFileListRequest :: "bytes \<Rightarrow> string res" where
  "DecodeEncryptedFileListRequest data =
     decode_path data True ''invalid encrypted directory request'' ''unsafe encrypted directory path''"

section \<open>Launch settings\<close>

record EncryptedLaunchSettings =
  el_Provider :: string
  el_WorkingDirectory :: string
  el_WorkingDirectoryID :: string
  el_ModelID :: string
  el_ReasoningEffortID :: string
  el_PermissionModeID :: string

definition validDirectoryIdentityID :: "string \<Rightarrow> bool" where
  "validDirectoryIdentityID value \<longleftrightarrow>
     take 7 value = ''dir_v1_'' \<and> length value = 7 + 22 \<and>
     list_all (\<lambda>c. is_alnum c \<or> c = CHR ''_'' \<or> c = CHR ''-'') (drop 7 value)"

definition launch_setting ::
  "string \<Rightarrow> string \<Rightarrow> EncryptedLaunchSettings \<Rightarrow> EncryptedLaunchSettings res" where
  "launch_setting name text r =
     (if name = ''provider''
      then if validSettingsIdentifier text then Inr (r\<lparr>el_Provider := text\<rparr>)
           else Inl (Fail ''invalid encrypted launch provider'')
      else if name = ''working_directory''
      then if length text > 4096 \<or> list_ex (\<lambda>c. c \<in> {CHR 0x00, CHR 0x0D, CHR 0x0A}) text
           then Inl (Fail ''invalid encrypted working directory'')
           else Inr (r\<lparr>el_WorkingDirectory := text\<rparr>)
      else if name = ''working_directory_id''
      then if validDirectoryIdentityID text then Inr (r\<lparr>el_WorkingDirectoryID := text\<rparr>)
           else Inl (Fail ''invalid encrypted working directory identity'')
      else if name \<in> {''model_id'', ''reasoning_effort_id'', ''permission_mode_id''}
      then if \<not> validSettingsIdentifier text then Inl (Fail ''invalid encrypted launch identifier'')
           else if name = ''model_id'' then Inr (r\<lparr>el_ModelID := text\<rparr>)
           else if name = ''reasoning_effort_id'' then Inr (r\<lparr>el_ReasoningEffortID := text\<rparr>)
           else Inr (r\<lparr>el_PermissionModeID := text\<rparr>)
      else Inl (Fail ''unknown encrypted launch setting''))"

text \<open>Go ranges over the map in no fixed order; the order only decides which error is reported.\<close>

fun launch_loop :: "fields \<Rightarrow> EncryptedLaunchSettings \<Rightarrow> EncryptedLaunchSettings res" where
  "launch_loop [] r = Inr r"
| "launch_loop ((name, v) # fs) r =
     (case v of
        JStr text \<Rightarrow> res_bind (launch_setting name text r) (launch_loop fs)
      | _ \<Rightarrow> Inl (Fail ''invalid encrypted launch setting''))"

definition no_launch :: EncryptedLaunchSettings where
  "no_launch = \<lparr>el_Provider = [], el_WorkingDirectory = [], el_WorkingDirectoryID = [], el_ModelID = [],
     el_ReasoningEffortID = [], el_PermissionModeID = []\<rparr>"

definition DecodeEncryptedLaunchSettings :: "bytes \<Rightarrow> EncryptedLaunchSettings res" where
  "DecodeEncryptedLaunchSettings payload =
     (case strictObject payload of
        None \<Rightarrow> Inl (Fail ''invalid launch payload'')
      | Some fs \<Rightarrow>
          (case map_of fs ''launch'' of
             None \<Rightarrow> Inr no_launch
           | Some raw \<Rightarrow>
               (case strict_value raw of
                  None \<Rightarrow> Inl (Fail ''invalid encrypted launch settings'')
                | Some launch \<Rightarrow>
                    res_bind (launch_loop launch no_launch) (\<lambda>r.
                    if el_WorkingDirectory r \<noteq> [] \<and> el_WorkingDirectoryID r \<noteq> []
                    then Inl (Fail ''encrypted working directory and identity are mutually exclusive'')
                    else Inr r))))"

section \<open>The opaque content payload\<close>

record EncryptedContentPayload =
  ec_Scope :: string
  ec_KeyID :: string
  ec_Sender :: string
  ec_MessageID :: string
  ec_Type :: string
  ec_Nonce :: string
  ec_Ciphertext :: string
  ec_Signature :: string

definition content_names :: "string list" where
  "content_names = [''version'', ''scope'', ''key_id'', ''sender'', ''message_id'', ''type'', ''nonce'',
     ''ciphertext'', ''signature'']"

definition DecodeEncryptedContentPayload :: "bytes \<Rightarrow> EncryptedContentPayload option" where
  "DecodeEncryptedContentPayload data =
     (if length data > 48 * 1024 then None
      else case strictObject data of
        None \<Rightarrow> None
      | Some fs \<Rightarrow>
          if length fs \<noteq> 9 \<or> list_ex (\<lambda>n. member fs n = JNull) content_names then None
          else case those (map (str_field fs) (tl content_names)) of
            Some [scope, key, sender, message, type', nonce, ciphertext, signature] \<Rightarrow>
              if member fs ''version'' = JNum ''1'' \<and> scope \<in> {''command'', ''event'', ''launch''} \<and>
                 validProtocolIdentifier key \<and> validProtocolIdentifier sender \<and>
                 validProtocolIdentifier message \<and> validProtocolIdentifier type' \<and>
                 validBase64URL nonce 12 12 \<and> validBase64URL ciphertext 16 (32768 + 16) \<and>
                 validBase64URL signature 64 64
              then Some \<lparr>ec_Scope = scope, ec_KeyID = key, ec_Sender = sender, ec_MessageID = message,
                     ec_Type = type', ec_Nonce = nonce, ec_Ciphertext = ciphertext, ec_Signature = signature\<rparr>
              else None
          | _ \<Rightarrow> None)"

section \<open>Base64url is a round trip\<close>

lemma b64_val_char: "n < 64 \<Longrightarrow> b64_val (b64_char n) = Some n"
  by (auto simp: b64_val_def b64_char_def)

lemma b64_char_kept: "n < 64 \<Longrightarrow> b64_char n \<noteq> CHR 0x0D \<and> b64_char n \<noteq> CHR 0x0A"
  using b64_val_char [of n] by (auto simp: b64_val_def)

lemma b64_sextets_bound: "list_all (\<lambda>b. b < 256) bs \<Longrightarrow> list_all (\<lambda>n. n < 64) (b64_sextets bs)"
  by (induction bs rule: b64_sextets.induct) auto

lemma pack_digit: "(b::nat) < k \<Longrightarrow> (a * k + b) div k = a" "(b::nat) < k \<Longrightarrow> (a * k + b) mod k = b"
  by auto

lemma byte_split: "(y::nat) < 256 \<Longrightarrow> y div 16 < 16" "(y::nat) < 256 \<Longrightarrow> y div 64 < 4"
  by auto

lemma b64_bytes_sextets: "list_all (\<lambda>b. b < 256) bs \<Longrightarrow> b64_bytes (b64_sextets bs) = Some bs"
  by (induction bs rule: b64_sextets.induct) (simp_all add: pack_digit byte_split)

lemma those_vals:
  "list_all (\<lambda>n. n < 64) ns \<Longrightarrow> those (map b64_val (filter (\<lambda>c. c \<noteq> CHR 0x0D \<and> c \<noteq> CHR 0x0A) (map b64_char ns))) = Some ns"
  by (induction ns) (auto simp: b64_val_char b64_char_kept)

lemma codes_bound: "list_all (\<lambda>b. b < 256) (map of_char s :: nat list)"
  by (simp add: list_all_iff code_less_256)

lemma DecodeString_Encode: "DecodeString (EncodeToString s) = Some s"
  using b64_bytes_sextets [OF codes_bound [of s]] those_vals [OF b64_sextets_bound [OF codes_bound [of s]]]
  by (simp add: DecodeString_def EncodeToString_def comp_def)

lemma EncodedLen_eq: "EncodedLen n = (4 * n + 2) div 3"
proof -
  define q r where "q = n div 3" and "r = n mod 3"
  then have n: "n = q * 3 + r" "r < 3" by simp_all
  consider "r = 0" | "r = 1" | "r = 2" using n(2) by linarith
  then show ?thesis
  proof cases
    case 1
    then have "(4 * n + 2) div 3 = (4 * q * 3 + 2) div 3" by (simp add: n(1))
    then show ?thesis by (simp add: EncodedLen_def flip: q_def r_def) (simp add: 1)
  next
    case 2
    then have "(4 * n + 2) div 3 = ((4 * q + 2) * 3) div 3" by (simp add: n(1))
    then show ?thesis by (simp add: EncodedLen_def flip: q_def r_def) (simp add: 2)
  next
    case 3
    then have "(4 * n + 2) div 3 = ((4 * q + 3) * 3 + 1) div 3" by (simp add: n(1))
    then show ?thesis by (simp add: EncodedLen_def flip: q_def r_def) (simp add: 3)
  qed
qed

lemma length_sextets: "length (b64_sextets bs) = EncodedLen (length bs)"
  by (induction bs rule: b64_sextets.induct) (simp_all add: EncodedLen_eq)

lemma EncodedLen_mono: "m \<le> n \<Longrightarrow> EncodedLen m \<le> EncodedLen n"
  unfolding EncodedLen_eq by (intro div_le_mono) simp

lemma length_EncodeToString: "length (EncodeToString s) = EncodedLen (length s)"
  by (simp add: EncodeToString_def length_sextets)

lemma EncodeToString_inj: "EncodeToString s = EncodeToString t \<Longrightarrow> s = t"
  by (metis DecodeString_Encode option.inject)

lemma validBase64URL_encode:
  "lo \<le> length bs \<Longrightarrow> length bs \<le> hi \<Longrightarrow> validBase64URL (EncodeToString bs) lo hi"
  by (simp add: validBase64URL_def DecodeString_Encode length_EncodeToString EncodedLen_mono)

text \<open>
  C34: \<open>validBase64URL\<close> accepts exactly the canonical unpadded encodings of byte strings whose
  length lies between the bounds; in particular no two accepted texts stand for the same bytes.
\<close>

theorem validBase64URL_canonical:
  "validBase64URL value lo hi \<longleftrightarrow>
   (\<exists>!bs. EncodeToString bs = value \<and> lo \<le> length bs \<and> length bs \<le> hi)"
proof
  assume "validBase64URL value lo hi"
  then obtain bs where "EncodeToString bs = value" "lo \<le> length bs" "length bs \<le> hi"
    by (auto simp: validBase64URL_def split: option.splits)
  then show "\<exists>!bs. EncodeToString bs = value \<and> lo \<le> length bs \<and> length bs \<le> hi"
    by (intro ex1I [of _ bs]) (auto dest: EncodeToString_inj)
next
  assume "\<exists>!bs. EncodeToString bs = value \<and> lo \<le> length bs \<and> length bs \<le> hi"
  then obtain bs where bs: "EncodeToString bs = value" "lo \<le> length bs" "length bs \<le> hi" by blast
  then show "validBase64URL value lo hi" using validBase64URL_encode by blast
qed

section \<open>Carriers are read back\<close>

text \<open>What a sender marshals: empty projection fields are omitted.\<close>

definition text_member :: "string \<Rightarrow> string \<Rightarrow> fields" where
  "text_member name s = (if s = [] then [] else [(name, JStr s)])"

definition bool_member :: "string \<Rightarrow> bool \<Rightarrow> fields" where
  "bool_member name b = (if b then [(name, JBool True)] else [])"

definition projection_fields :: "EncryptedProjection \<Rightarrow> fields" where
  "projection_fields p =
     text_member ''state'' (ep_State p) @ text_member ''role'' (ep_Role p) @
     text_member ''request_id'' (ep_RequestID p) @ text_member ''decision'' (ep_Decision p) @
     text_member ''operation'' (ep_Operation p) @ text_member ''outcome'' (ep_Outcome p) @
     text_member ''completion_state'' (ep_CompletionState p) @
     text_member ''reason_code'' (ep_ReasonCode p) @ text_member ''command_id'' (ep_CommandID p) @
     bool_member ''interrupt_supported'' (ep_InterruptSupported p) @
     bool_member ''stop_supported'' (ep_StopSupported p)"

definition envelope_fields :: "OpaqueContentEnvelope \<Rightarrow> fields" where
  "envelope_fields e = [(''nonce'', JStr (oe_Nonce e)), (''ciphertext'', JStr (oe_Ciphertext e)),
     (''signature'', JStr (oe_Signature e))]"

definition carrier_json :: "EncryptedPacketCarrier \<Rightarrow> json" where
  "carrier_json c =
     JObj [(''version'', JNum ''1''), (''scope'', JStr (pk_Scope c)), (''key_id'', JStr (pk_KeyID c)),
       (''sender'', JStr (pk_Sender c)), (''message_id'', JStr (pk_MessageID c)),
       (''type'', JStr (pk_Type c)),
       (''packet'', JObj [(''version'', JNum ''1''),
          (''public'', JObj (projection_fields (op_Public (pk_Packet c)))),
          (''encrypted'', JObj (envelope_fields (op_Encrypted (pk_Packet c))))])]"

lemma map_of_other:
  "m \<noteq> n \<Longrightarrow> map_of (text_member n s @ fs) m = map_of fs m"
  "m \<noteq> n \<Longrightarrow> map_of (bool_member n b @ fs) m = map_of fs m"
  "m \<noteq> n \<Longrightarrow> map_of (bool_member n b) m = None"
  by (simp_all add: text_member_def bool_member_def)

lemma str_field_member:
  "m \<noteq> n \<Longrightarrow> str_field (text_member n s @ fs) m = str_field fs m"
  "map_of fs n = None \<Longrightarrow> str_field (text_member n s @ fs) n = Some s"
  by (simp_all add: str_field_def text_member_def)

lemma bool_field_member:
  "m \<noteq> n \<Longrightarrow> bool_field (text_member n s @ fs) m = bool_field fs m"
  "m \<noteq> n \<Longrightarrow> bool_field (bool_member n b @ fs) m = bool_field fs m"
  "map_of fs n = None \<Longrightarrow> bool_field (bool_member n b @ fs) n = Some b"
  "bool_field (bool_member n b) n = Some b"
  by (simp_all add: bool_field_def text_member_def bool_member_def)

lemma unmarshal_projection_fields: "unmarshal_projection (projection_fields p) = Some p"
  unfolding unmarshal_projection_def projection_fields_def
  by (simp add: str_field_member bool_field_member map_of_other del: map_of_append)

lemma unmarshal_envelope_fields: "unmarshal_envelope (envelope_fields e) = Some e"
  by (cases e) (simp add: unmarshal_envelope_def str_field_def envelope_fields_def)

lemma carrier_wf: "wf_json (carrier_json c)" "jdepth (carrier_json c) \<le> maxNestingDepth"
proof -
  have p: "list_all (\<lambda>m. wf_json (snd m) \<and> jdepth (snd m) = 0) (projection_fields q)" for q
    by (simp add: projection_fields_def text_member_def bool_member_def)
  have "is_number ''1''" by code_simp
  then show "wf_json (carrier_json c)"
    using p by (simp add: carrier_json_def envelope_fields_def list_all_iff)
  have z: "foldr max (map (\<lambda>m. jdepth (snd m)) ms) 0 = 0"
    if "list_all (\<lambda>m. wf_json (snd m) \<and> jdepth (snd m) = 0) ms" for ms
    using that by (induction ms) auto
  show "jdepth (carrier_json c) \<le> maxNestingDepth"
    using z [OF p] by (simp add: carrier_json_def envelope_fields_def maxNestingDepth_def)
qed

lemma carrier_decodes:
  assumes size: "int (length (print_json (carrier_json c))) \<le> MaxEncryptedPacketCarrierBytes"
    and scope: "scope = ''event'' \<and> commandID = [] \<or>
      scope = ''command'' \<and> validProtocolIdentifier commandID"
    and ty: "validProtocolIdentifier contentType"
    and c: "valid_carrier scope contentType commandID c"
    and proj: "validateEncryptedProjection contentType (JObj (projection_fields (op_Public (pk_Packet c))))"
  shows "DecodeEncryptedPacketCarrier (print_json (carrier_json c)) scope contentType commandID = Some c"
proof -
  let ?p = "projection_fields (op_Public (pk_Packet c))"
  let ?e = "envelope_fields (op_Encrypted (pk_Packet c))"
  let ?packet = "[(''version'', JNum ''1''), (''public'', JObj ?p), (''encrypted'', JObj ?e)]"
  let ?fs = "[(''version'', JNum ''1''), (''scope'', JStr (pk_Scope c)), (''key_id'', JStr (pk_KeyID c)),
       (''sender'', JStr (pk_Sender c)), (''message_id'', JStr (pk_MessageID c)),
       (''type'', JStr (pk_Type c)), (''packet'', JObj ?packet)]"
  have parse: "parse_json (print_json (carrier_json c)) = Some (JObj ?fs)"
    using parse_print [OF carrier_wf] by (simp add: carrier_json_def)
  have outer: "encryptedObject (JObj ?fs)
      [''version'', ''scope'', ''key_id'', ''sender'', ''message_id'', ''type'', ''packet''] = Some ?fs"
    by (simp add: encryptedObject_def strict_value_def)
  have packet: "encryptedObject (JObj ?packet) [''version'', ''public'', ''encrypted''] = Some ?packet"
    by (simp add: encryptedObject_def strict_value_def)
  have env: "encryptedObject (JObj ?e) [''nonce'', ''ciphertext'', ''signature''] = Some ?e"
    by (simp add: encryptedObject_def strict_value_def envelope_fields_def)
  have "unmarshal_carrier ?fs ?packet = Some c"
    by (simp add: unmarshal_carrier_def str_field_def member_def fields_of_def
        unmarshal_projection_fields unmarshal_envelope_fields)
  then show ?thesis
    using size scope ty c proj
    by (auto simp: DecodeEncryptedPacketCarrier_def parse outer packet env member_def)
qed

text \<open>
  C32: a carrier whose fields are well-formed and whose projection is the one its type allows is
  read back unchanged from its marshalled form, for the scope, type and command it is bound to.
\<close>

theorem carrier_roundtrip:
  assumes size: "int (length (print_json (carrier_json c))) \<le> MaxEncryptedPacketCarrierBytes"
    and scope: "scope = ''event'' \<and> commandID = [] \<or>
      scope = ''command'' \<and> validProtocolIdentifier commandID"
    and ty: "validProtocolIdentifier contentType"
    and c: "valid_carrier scope contentType commandID c"
    and proj: "validateEncryptedProjection contentType (JObj (projection_fields (op_Public (pk_Packet c))))"
  shows "DecodeEncryptedPacketCarrier (print_json (carrier_json c)) scope contentType commandID = Some c"
  by (rule carrier_decodes [OF assms])

definition demo_carrier :: EncryptedPacketCarrier where
  "demo_carrier =
     \<lparr>pk_Scope = ''event'', pk_KeyID = ''k1'', pk_Sender = ''dev'', pk_MessageID = ''m1'',
      pk_Type = ''session.state'',
      pk_Packet =
        \<lparr>op_Public = \<lparr>ep_State = ''busy'', ep_Role = [], ep_RequestID = [], ep_Decision = [],
           ep_Operation = [], ep_Outcome = [], ep_CompletionState = [], ep_ReasonCode = [],
           ep_CommandID = [], ep_InterruptSupported = False, ep_StopSupported = False\<rparr>,
         op_Encrypted = \<lparr>oe_Nonce = EncodeToString (replicate 12 (CHR ''n'')),
           oe_Ciphertext = EncodeToString (replicate 16 (CHR ''c'')),
           oe_Signature = EncodeToString (replicate 64 (CHR ''s''))\<rparr>\<rparr>\<rparr>"

lemma demo_carrier_ok: "valid_carrier ''event'' ''session.state'' [] demo_carrier"
proof -
  have "validProtocolIdentifier ''k1''" "validProtocolIdentifier ''dev''" "validProtocolIdentifier ''m1''"
    by code_simp+
  then show ?thesis by (simp add: valid_carrier_def demo_carrier_def validBase64URL_encode)
qed

lemma demo_carrier_decodable:
  "validateEncryptedProjection ''session.state'' (JObj (projection_fields (op_Public (pk_Packet demo_carrier))))"
  "validProtocolIdentifier ''session.state''"
  by code_simp+

lemma demo_carrier_size: "int (length (print_json (carrier_json demo_carrier))) \<le> MaxEncryptedPacketCarrierBytes"
  by code_simp

theorem carrier_roundtrip_witness:
  "DecodeEncryptedPacketCarrier (print_json (carrier_json demo_carrier)) ''event'' ''session.state'' [] =
     Some demo_carrier"
  using carrier_roundtrip [OF demo_carrier_size _ demo_carrier_decodable(2) demo_carrier_ok
      demo_carrier_decodable(1)] by simp

section \<open>Safe paths\<close>

text \<open>The directory a path denotes, as the list of names below the file system root.\<close>

definition enter :: "string list \<Rightarrow> string \<Rightarrow> string list" where
  "enter dir c = (if c = [] \<or> c = ''.'' then dir else if c = ''..'' then butlast dir else dir @ [c])"

definition resolve :: "string list \<Rightarrow> string \<Rightarrow> string list" where
  "resolve base path =
     foldl enter (if take 1 path = ''/'' then [] else base) (split_at (CHR ''/'') path)"

lemma split_at_parts: "list_all (\<lambda>c. s \<notin> set c) (split_at s path)"
  by (induction path) (auto split: list.splits)

lemma foldl_enter_names:
  "list_all (\<lambda>c. c \<noteq> [] \<and> c \<noteq> ''.'' \<and> c \<noteq> ''..'') cs \<Longrightarrow> foldl enter dir cs = dir @ cs"
  by (induction cs arbitrary: dir) (auto simp: enter_def)

lemma decode_path_safe: "decode_path data b x y = Inr path \<Longrightarrow> safeEncryptedPath path b"
  unfolding decode_path_def by (simp split: option.splits list.splits prod.splits if_splits)

lemma safe_path_mono: "safeEncryptedPath path False \<Longrightarrow> safeEncryptedPath path True"
  by (simp add: safeEncryptedPath_def split: if_splits)

text \<open>
  C33: a file request is only decoded to a path that, resolved against any working directory,
  names that directory itself (directory listings only) or something below it, through names
  that are neither empty nor a dot entry and contain no separator.
\<close>

theorem file_request_stays_inside:
  assumes "DecodeEncryptedFileReadRequest data = Inr path \<or> DecodeEncryptedFileListRequest data = Inr path"
  shows "\<exists>names. resolve base path = base @ names \<and>
      list_all (\<lambda>c. c \<noteq> [] \<and> c \<noteq> ''.'' \<and> c \<noteq> ''..'' \<and> CHR ''/'' \<notin> set c) names \<and>
      (names = [] \<longrightarrow> DecodeEncryptedFileReadRequest data \<noteq> Inr path)"
proof -
  have read: "DecodeEncryptedFileReadRequest data = Inr path \<Longrightarrow> safeEncryptedPath path False"
    by (auto simp: DecodeEncryptedFileReadRequest_def dest: decode_path_safe)
  have safe: "safeEncryptedPath path True"
    using assms read safe_path_mono
    by (auto simp: DecodeEncryptedFileListRequest_def dest: decode_path_safe)
  show ?thesis
  proof (cases "path = ''.''")
    case True
    then have "resolve base path = base" by (simp add: resolve_def enter_def)
    then show ?thesis using read True by (auto simp: safeEncryptedPath_def)
  next
    case False
    let ?cs = "split_at (CHR ''/'') path"
    have ok: "list_all (\<lambda>c. c \<noteq> [] \<and> c \<noteq> ''.'' \<and> c \<noteq> ''..'') ?cs" "take 1 path \<noteq> ''/''"
      using safe False by (simp_all add: safeEncryptedPath_def) (cases path; simp)
    have "resolve base path = base @ ?cs" using foldl_enter_names [OF ok(1)] ok(2) by (simp add: resolve_def)
    moreover have "?cs \<noteq> []" by (cases path) (auto split: list.splits)
    ultimately show ?thesis
      using ok(1) split_at_parts [of "CHR ''/''" path] by (auto simp: list_all_iff)
  qed
qed

theorem file_request_stays_inside_witness:
  "DecodeEncryptedFileReadRequest (print_json (JObj [(''path'', JStr ''src/a.go'')])) = Inr ''src/a.go'' \<and>
   (\<exists>names. resolve [''home''] ''src/a.go'' = [''home''] @ names)"
proof -
  have "DecodeEncryptedFileReadRequest (print_json (JObj [(''path'', JStr ''src/a.go'')])) = Inr ''src/a.go''"
    by code_simp
  then show ?thesis using file_request_stays_inside [of _ "''src/a.go''" "[''home'']"] by blast
qed

end
