(* ===== verification/Ledgers.thy ===== *)
theory Ledgers
  imports Connections Encrypted_Packet
begin

text \<open>
  What the three command ledgers of a session (settings changes, run controls, file references)
  share: the checks on writers, identifiers, fingerprints and reasons, the reading of a durable
  event by its number, and the contract of a ledger whose rows settle once. The locale
  \<open>one_shot_ledger\<close> states the contract over a table of the store and the rows that are still
  active; it is interpreted on the three tables.
\<close>

section \<open>Checks\<close>

definition validSettingsWriter :: "SettingsWriter \<Rightarrow> bool" where
  "validSettingsWriter writer \<longleftrightarrow>
     w_ConnectionEpoch writer > 0 \<and> w_CredentialGeneration writer > 0 \<and> w_LeaseID writer \<noteq> [] \<and>
     length (w_LeaseID writer) \<le> 255"

definition validSettingsID :: "string \<Rightarrow> bool" where
  "validSettingsID value \<longleftrightarrow>
     length value \<ge> 1 \<and> length value \<le> 128 \<and> is_alnum (hd value) \<and>
     list_all (\<lambda>c. is_alnum c \<or> c \<in> set ''._:/-'') (tl value)"

definition validSettingsFingerprint :: "string \<Rightarrow> bool" where
  "validSettingsFingerprint value \<longleftrightarrow>
     length value = 71 \<and> take 7 value = ''sha256:'' \<and>
     list_all (\<lambda>c. 48 \<le> code c \<and> code c \<le> 57 \<or> 97 \<le> code c \<and> code c \<le> 102) (drop 7 value)"

definition validSettingsReason :: "string option \<Rightarrow> bool" where
  "validSettingsReason reason =
     (case reason of
        None \<Rightarrow> False
      | Some s \<Rightarrow> length s \<ge> 1 \<and> length s \<le> 64 \<and> 97 \<le> code (hd s) \<and> code (hd s) \<le> 122 \<and>
          list_all (\<lambda>c. 97 \<le> code c \<and> code c \<le> 122 \<or> 48 \<le> code c \<and> code c \<le> 57 \<or> c = CHR ''_'') s)"

definition writer_authority :: "SettingsWriter \<Rightarrow> CommandAuthority" where
  "writer_authority w =
     \<lparr>ca_ConnectionEpoch = w_ConnectionEpoch w, ca_CredentialGeneration = w_CredentialGeneration w\<rparr>"

text \<open>The row of a session with a given number, and the number of its latest event of a type.\<close>

definition event_at :: "db \<Rightarrow> string \<Rightarrow> int \<Rightarrow> event_row option" where
  "event_at d sid n = List.find (\<lambda>r. ev_session r = sid \<and> ev_seq r = n) (session_events d)"

definition latest_seq_of :: "db \<Rightarrow> string \<Rightarrow> string \<Rightarrow> int" where
  "latest_seq_of d sid ty =
     max0 (map ev_seq (filter (\<lambda>r. ev_session r = sid \<and> ev_type r = ty) (session_events d)))"

section \<open>Ledgers whose rows settle once\<close>

locale one_shot_ledger =
  fixes table :: "db \<Rightarrow> (string \<times> string, 'r) table"
    and active :: "'r \<Rightarrow> bool"
    and terminal :: "'r \<Rightarrow> int option"
  assumes steps: "store_step d d' \<Longrightarrow> tab_step (settles active) (table d) (table d')"
    and single: "wf d \<Longrightarrow> one_active active (table d)"
    and durable: "wf d \<Longrightarrow> map_of (table d) k = Some r \<Longrightarrow> \<not> active r \<Longrightarrow>
      \<exists>n. terminal r = Some n \<and> has_event d (fst k) n"
begin

lemma settled_final:
  assumes "store_step d d'" "map_of (table d) k = Some r" "\<not> active r"
  shows "map_of (table d') k = Some r"
  using steps [OF assms(1)] assms(2,3) unfolding tab_step_def settles_def by metis

lemma never_lost:
  assumes "store_step d d'" "map_of (table d) k = Some r"
  shows "\<exists>r'. map_of (table d') k = Some r'"
  using steps [OF assms(1)] assms(2) unfolding tab_step_def by metis

lemma only_active:
  assumes "wf d" "map_of (table d) (sid, c) = Some r" "active r" "map_of (table d) (sid, c') = Some r'" "active r'"
  shows "c' = c"
  using single [OF assms(1)] map_of_SomeD [OF assms(2)] map_of_SomeD [OF assms(4)] assms(3,5)
  by (force simp: one_active_def other_active_def)

lemma outcome_kept:
  assumes "wf d" "store_step d d'" "map_of (table d) k = Some r" "\<not> active r"
  shows "\<exists>n. terminal r = Some n \<and> map_of (table d') k = Some r \<and> has_event d' (fst k) n"
proof -
  have "wf d'" by (rule store_step_wf [OF assms(2,1)])
  moreover have "map_of (table d') k = Some r" by (rule settled_final [OF assms(2-4)])
  ultimately show ?thesis using durable assms(4) by blast
qed

end

lemma store_step_tables:
  assumes "store_step d d'"
  shows "tab_step (settles settings_active) (session_settings_commands d) (session_settings_commands d')"
    "tab_step (settles run_active) (session_run_controls d) (session_run_controls d')"
    "tab_step (settles file_active) (session_file_reference_commands d) (session_file_reference_commands d')"
    "tab_step pending_prog (session_pending_commands d) (session_pending_commands d')"
    "tab_step (=) (session_event_proposals d) (session_event_proposals d')"
    "tab_step conn_prog (session_adapter_connections d) (session_adapter_connections d')"
    "tab_step attach_prog (session_attachments d) (session_attachments d')"
    "tab_step lease_prog (session_workspace_leases d) (session_workspace_leases d')"
  using assms by (simp_all add: store_step_def ledger_step_def)

lemma wf_tables:
  assumes "wf d"
  shows "one_active settings_active (session_settings_commands d)"
    "one_active run_active (session_run_controls d)"
    "one_active file_active (session_file_reference_commands d)"
    "tbl_ok (settings_ok (session_events d)) (session_settings_commands d)"
    "tbl_ok (run_ok (session_events d)) (session_run_controls d)"
    "tbl_ok (file_ok (session_events d)) (session_file_reference_commands d)"
    "tbl_ok (pending_ok (session_events d)) (session_pending_commands d)"
    "tbl_ok (proposal_ok (session_events d)) (session_event_proposals d)"
  using assms by (simp_all add: wf_def ledgers_ok_def)

interpretation runs: one_shot_ledger session_run_controls run_active rc_terminal_seq
proof
  show "wf d \<Longrightarrow> map_of (session_run_controls d) k = Some r \<Longrightarrow> \<not> run_active r \<Longrightarrow>
      \<exists>n. rc_terminal_seq r = Some n \<and> has_event d (fst k) n" for d k r
    using tbl_okD [OF wf_tables(5), of d k r] by (auto simp: run_ok_def check_run_row_def)
qed (simp_all add: store_step_tables wf_tables)

interpretation files: one_shot_ledger session_file_reference_commands file_active fr_terminal_seq
proof
  show "wf d \<Longrightarrow> map_of (session_file_reference_commands d) k = Some r \<Longrightarrow> \<not> file_active r \<Longrightarrow>
      \<exists>n. fr_terminal_seq r = Some n \<and> has_event d (fst k) n" for d k r
    using tbl_okD [OF wf_tables(6), of d k r] by (auto simp: file_ok_def check_file_row_def)
qed (simp_all add: store_step_tables wf_tables)

interpretation settings: one_shot_ledger session_settings_commands settings_active st_terminal_seq
proof
  show "wf d \<Longrightarrow> map_of (session_settings_commands d) k = Some r \<Longrightarrow> \<not> settings_active r \<Longrightarrow>
      \<exists>n. st_terminal_seq r = Some n \<and> has_event d (fst k) n" for d k r
    using tbl_okD [OF wf_tables(4), of d k r]
    by (auto simp: settings_ok_def check_settings_row_def settings_nonterminal_def)
qed (simp_all add: store_step_tables wf_tables)

section \<open>Rows with a version\<close>

text \<open>The contract behind a compare-and-set: a row is never lost and every change of it raises its
  version, so a caller that names an old version finds its row no more and one that finds the
  version it read finds the row it read.\<close>

locale versioned_table =
  fixes rows :: "db \<Rightarrow> ('k, 'r) table" and version :: "'r \<Rightarrow> int"
  assumes advance: "store_step d d' \<Longrightarrow> map_of (rows d) k = Some r \<Longrightarrow>
    \<exists>r'. map_of (rows d') k = Some r' \<and> (r' = r \<or> version r < version r')"
begin

lemma stale_version:
  assumes "store_step d d'" "map_of (rows d) k = Some r" "v < version r"
  shows "\<exists>r'. map_of (rows d') k = Some r' \<and> v < version r'"
  using advance [OF assms(1,2)] assms(3) by auto

lemma same_version:
  assumes "store_step d d'" "map_of (rows d) k = Some r" "map_of (rows d') k = Some r'" "version r' = version r"
  shows "r' = r"
  using advance [OF assms(1,2)] assms(3,4) by auto

end

interpretation attachment_rows: versioned_table session_attachments ac_delivery_version
  by unfold_locales (drule store_step_tables(7), auto simp: tab_step_def attach_prog_def)

interpretation lease_rows: versioned_table session_workspace_leases wl_version
  by unfold_locales (drule store_step_tables(8), auto simp: tab_step_def lease_prog_def)

section \<open>Events a ledger refers to\<close>

lemma find_prefix: "List.find P xs = Some x \<Longrightarrow> List.find P (xs @ ys) = Some x"
  by (induction xs) (auto split: if_splits)

lemma event_at_kept: "store_step d d' \<Longrightarrow> event_at d sid n = Some e \<Longrightarrow> event_at d' sid n = Some e"
  by (auto simp: store_step_def extends_log_def event_at_def find_prefix)

lemma lifecycle_event_succeeds:
  assumes "numbered d"
  obtains d' where "appendRunControlEventExecutor sid ty payload now d = Inr (d', latest_seq d sid + 1)"
    "has_event d' sid (latest_seq d sid + 1)"
proof -
  have "\<not> has_event d sid (latest_seq d sid + 1)"
    using log_seq_le_latest [of _ d sid] by (fastforce simp: event_exists_def rows_of_def list_ex_iff)
  moreover have "0 \<le> latest_seq d sid" using numbered_latest [OF assms] by simp
  ultimately show ?thesis
    using that
    by (simp add: appendRunControlEventExecutor_def Let_def insert_event_def check_event_row_def
        event_exists_def)
qed

lemma wf_numbered: "wf d \<Longrightarrow> numbered d"
  by (simp add: wf_def)

end
