(* ===== verification/Run_Control.thy ===== *)
theory Run_Control
  imports Ledgers
begin

text \<open>
  The run-control ledger of \<^verbatim>\<open>store/sqlite/store.go\<close>: publication of an Adapter's capability,
  reservation of an interrupt or stop against the current session state, finalisation with its
  durable events, recovery and reading. A reservation is made once per session and settles once.
\<close>

section \<open>Structs\<close>

record RunControlCapability =
  ru_SessionID :: string
  ru_EventSeq :: int
  ru_Version :: int
  ru_InterruptSupported :: bool
  ru_StopSupported :: bool
  ru_Writer :: SettingsWriter

record RunControlCapabilityUpdate =
  rv_EventSeq :: int
  rv_InterruptSupported :: bool
  rv_StopSupported :: bool
  rv_Writer :: SettingsWriter

record RunControlRequest =
  rq_CommandID :: string
  rq_Operation :: string
  rq_PreControlState :: string
  rq_PreControlStateSeq :: int
  rq_Writer :: SettingsWriter

record RunControlReservation =
  rr_SessionID :: string
  rr_CommandID :: string
  rr_Operation :: string
  rr_CapabilityVersion :: int
  rr_ReservationVersion :: int
  rr_PreControlState :: string
  rr_PreControlStateSeq :: int
  rr_Writer :: SettingsWriter
  rr_Deadline :: gotime
  rr_Outcome :: string
  rr_TerminalEventSeq :: "int option"

record RunControlFinalize_rec =
  rf_ReservationVersion :: int
  rf_Writer :: "SettingsWriter option"
  rf_Outcome :: string
  rf_ReasonCode :: "string option"
  rf_EncryptedTerminalSeq :: "int option"

section \<open>Checks and rows\<close>

definition validRunControlOperation :: "string \<Rightarrow> bool" where
  "validRunControlOperation operation \<longleftrightarrow> operation = ''interrupt'' \<or> operation = ''stop''"

definition validRunControlState :: "string \<Rightarrow> string \<Rightarrow> bool" where
  "validRunControlState operation state \<longleftrightarrow>
     (if operation = ''interrupt'' then state = ''busy''
      else state \<in> {''starting'', ''ready'', ''busy'', ''waiting_permission'', ''recovering''})"

definition validRunControlTerminalOutcome :: "string \<Rightarrow> bool" where
  "validRunControlTerminalOutcome outcome \<longleftrightarrow>
     outcome \<in> {''completed'', ''rejected'', ''timeout'', ''unsupported'', ''outcome_unknown''}"

definition validRunControlCapabilityUpdate :: "string \<Rightarrow> RunControlCapabilityUpdate \<Rightarrow> bool" where
  "validRunControlCapabilityUpdate sid u \<longleftrightarrow>
     validConnectionID sid \<and> rv_EventSeq u > 0 \<and> validSettingsWriter (rv_Writer u)"

definition validRunControlRequest :: "string \<Rightarrow> RunControlRequest \<Rightarrow> bool" where
  "validRunControlRequest sid r \<longleftrightarrow>
     validConnectionID sid \<and> rq_CommandID r \<noteq> [] \<and> length (rq_CommandID r) \<le> 256 \<and>
     validRunControlOperation (rq_Operation r) \<and> rq_PreControlStateSeq r > 0 \<and>
     validSettingsWriter (rq_Writer r)"

definition validRunControlReservation :: "RunControlReservation \<Rightarrow> bool" where
  "validRunControlReservation r \<longleftrightarrow>
     validRunControlRequest (rr_SessionID r)
       \<lparr>rq_CommandID = rr_CommandID r, rq_Operation = rr_Operation r,
        rq_PreControlState = rr_PreControlState r, rq_PreControlStateSeq = rr_PreControlStateSeq r,
        rq_Writer = rr_Writer r\<rparr> \<and>
     rr_CapabilityVersion r > 0 \<and> rr_ReservationVersion r > 0 \<and> rr_Deadline r \<noteq> zeroTime \<and>
     (rr_Outcome r = ''pending'' \<or> validRunControlTerminalOutcome (rr_Outcome r)) \<and>
     (rr_Outcome r \<noteq> ''pending'') = (rr_TerminalEventSeq r \<noteq> None)"

definition queryRunControlCapability :: "string \<Rightarrow> db \<Rightarrow> RunControlCapability res" where
  "queryRunControlCapability sid d =
     (case map_of (session_run_control_capabilities d) sid of
        None \<Rightarrow> Inl (Fail ''run-control capability row is invalid'')
      | Some r \<Rightarrow>
          if \<not> validRunControlCapabilityUpdate sid
               \<lparr>rv_EventSeq = rcc_event_seq r, rv_InterruptSupported = rcc_interrupt r,
                rv_StopSupported = rcc_stop r, rv_Writer = rcc_writer r\<rparr> \<or> rcc_version r < 1
          then Inl (Fail ''run-control capability row is invalid'')
          else Inr \<lparr>ru_SessionID = sid, ru_EventSeq = rcc_event_seq r, ru_Version = rcc_version r,
                 ru_InterruptSupported = rcc_interrupt r, ru_StopSupported = rcc_stop r,
                 ru_Writer = rcc_writer r\<rparr>)"

definition row_reservation :: "string \<Rightarrow> string \<Rightarrow> run_row \<Rightarrow> RunControlReservation" where
  "row_reservation sid cmd r =
     \<lparr>rr_SessionID = sid, rr_CommandID = cmd, rr_Operation = rc_operation r,
      rr_CapabilityVersion = rc_capability_version r, rr_ReservationVersion = rc_reservation_version r,
      rr_PreControlState = rc_pre_state r, rr_PreControlStateSeq = rc_pre_state_seq r,
      rr_Writer = rc_writer r, rr_Deadline = fromMilli (rc_deadline_ms r), rr_Outcome = rc_status r,
      rr_TerminalEventSeq = rc_terminal_seq r\<rparr>"

definition queryRunControlReservation :: "string \<Rightarrow> string \<Rightarrow> db \<Rightarrow> RunControlReservation res" where
  "queryRunControlReservation sid cmd d =
     (case map_of (session_run_controls d) (sid, cmd) of
        None \<Rightarrow> Inl NoRows
      | Some r \<Rightarrow>
          if validRunControlReservation (row_reservation sid cmd r) then Inr (row_reservation sid cmd r)
          else Inl (Fail ''run-control reservation row is invalid''))"

definition verifyRunControlCapabilityEvent :: "string \<Rightarrow> int \<Rightarrow> db \<Rightarrow> unit res" where
  "verifyRunControlCapabilityEvent sid n d =
     (if n \<ge> 1 \<and> map_option ev_type (event_at d sid n) = Some ''session.run.capabilities'' then Inr ()
      else Inl (Fail ''run-control capability event is not durable''))"

definition sealed_state :: "bytes \<Rightarrow> string option" where
  "sealed_state payload =
     (case DecodeEncryptedPacketCarrier payload ''event'' ''session.state'' [] of
        None \<Rightarrow> None
      | Some c \<Rightarrow>
          if ep_State (op_Public (pk_Packet c)) = [] then None
          else Some (ep_State (op_Public (pk_Packet c))))"

definition sqliteRunControlState :: "bytes \<Rightarrow> string option" where
  "sqliteRunControlState payload =
     (case unmarshal_strings [''state''] payload of
        Some env \<Rightarrow> if env ''state'' \<noteq> [] then Some (env ''state'') else sealed_state payload
      | None \<Rightarrow> sealed_state payload)"

definition validateRunControlPreState :: "string \<Rightarrow> string \<Rightarrow> string \<Rightarrow> int \<Rightarrow> db \<Rightarrow> unit res" where
  "validateRunControlPreState sid operation pre_state pre_seq d =
     (if latest_seq_of d sid ''session.state'' \<noteq> pre_seq
      then Inl (Fail ''run-control pre-control state is stale'')
      else case event_at d sid pre_seq of
        None \<Rightarrow> Inl (Fail ''run-control pre-control state is not durable'')
      | Some e \<Rightarrow>
          if ev_type e \<noteq> ''session.state''
          then Inl (Fail ''run-control pre-control state is not durable'')
          else if sqliteRunControlState (ev_payload e) = Some pre_state \<and>
                  validRunControlState operation pre_state
          then Inr () else Inl (Fail ''run-control pre-control state is invalid''))"

section \<open>Operations\<close>

definition PublishRunControlCapability_tx ::
  "string \<Rightarrow> RunControlCapabilityUpdate \<Rightarrow> clock \<Rightarrow> db \<Rightarrow> (db \<times> RunControlCapability) res" where
  "PublishRunControlCapability_tx sid u clk d =
     res_bind (lockCommandAuthority sid (writer_authority (rv_Writer u)) (clk 1) d) (\<lambda>_.
     res_bind (validateLiveSettingsWriter sid (rv_Writer u) (clk 2) d) (\<lambda>_.
     res_bind (verifyRunControlCapabilityEvent sid (rv_EventSeq u) d) (\<lambda>_.
     let created = (case map_of (session_run_control_capabilities d) sid of
                      None \<Rightarrow> clk 0 | Some old \<Rightarrow> rcc_created_ms old);
         row = \<lparr>rcc_event_seq = rv_EventSeq u, rcc_version = rv_EventSeq u,
                rcc_interrupt = rv_InterruptSupported u, rcc_stop = rv_StopSupported u,
                rcc_writer = rv_Writer u, rcc_created_ms = created, rcc_updated_ms = clk 0\<rparr>
     in if (case map_of (session_run_control_capabilities d) sid of
              None \<Rightarrow> False | Some old \<Rightarrow> \<not> rcc_event_seq old < rv_EventSeq u)
        then Inl (Fail ''run-control capability event is stale'')
        else res_bind (put_run_cap sid row d) (\<lambda>d.
             res_bind (queryRunControlCapability sid d) (\<lambda>c. Inr (d, c))))))"

definition PublishRunControlCapability ::
  "string \<Rightarrow> RunControlCapabilityUpdate \<Rightarrow> clock \<Rightarrow> db \<Rightarrow> db \<times> RunControlCapability res" where
  "PublishRunControlCapability sid u clk d =
     (if \<not> validRunControlCapabilityUpdate sid u then (d, Inl (Fail ''invalid run-control capability''))
      else transaction (PublishRunControlCapability_tx sid u clk) d)"

definition RunControlReserve_tx ::
  "string \<Rightarrow> RunControlRequest \<Rightarrow> clock \<Rightarrow> db \<Rightarrow> (db \<times> RunControlReservation \<times> bool) res" where
  "RunControlReserve_tx sid r clk d =
     res_bind (lockCommandAuthority sid (writer_authority (rq_Writer r)) (clk 1) d) (\<lambda>_.
     res_bind (validateLiveSettingsWriter sid (rq_Writer r) (clk 2) d) (\<lambda>_.
     case queryRunControlReservation sid (rq_CommandID r) d of
       Inr existing \<Rightarrow>
         if rr_Operation existing \<noteq> rq_Operation r then Inl (Fail ''run-control command ID is reused'')
         else Inr (d, existing, True)
     | Inl (Fail e) \<Rightarrow> Inl (Fail e)
     | Inl NoRows \<Rightarrow>
         (case queryRunControlCapability sid d of
            Inl _ \<Rightarrow> Inl (Fail ''run-control capability is stale or writer is fenced'')
          | Inr c \<Rightarrow>
              if ru_Writer c \<noteq> rq_Writer r
              then Inl (Fail ''run-control capability is stale or writer is fenced'')
              else if (rq_Operation r = ''interrupt'' \<and> \<not> ru_InterruptSupported c) \<or>
                      (rq_Operation r = ''stop'' \<and> \<not> ru_StopSupported c)
              then Inl (Fail ''run-control operation is unsupported'')
              else
                res_bind (validateRunControlPreState sid (rq_Operation r) (rq_PreControlState r)
                            (rq_PreControlStateSeq r) d) (\<lambda>_.
                res_bind (put_run (sid, rq_CommandID r)
                   \<lparr>rc_operation = rq_Operation r, rc_capability_version = ru_Version c,
                    rc_reservation_version = 1, rc_pre_state = rq_PreControlState r,
                    rc_pre_state_seq = rq_PreControlStateSeq r, rc_writer = rq_Writer r,
                    rc_deadline_ms = clk 0 + 30000, rc_status = ''pending'', rc_terminal_seq = None,
                    rc_created_ms = clk 0, rc_updated_ms = clk 0\<rparr> d) (\<lambda>d.
                res_bind (queryRunControlReservation sid (rq_CommandID r) d) (\<lambda>res.
                Inr (d, res, False)))))))"

definition RunControlReserve ::
  "string \<Rightarrow> RunControlRequest \<Rightarrow> clock \<Rightarrow> db \<Rightarrow> db \<times> (RunControlReservation \<times> bool) res" where
  "RunControlReserve sid r clk d =
     (if \<not> validRunControlRequest sid r then (d, Inl (Fail ''invalid run-control reservation''))
      else transaction (RunControlReserve_tx sid r clk) d)"

definition finalize_authority ::
  "string \<Rightarrow> RunControlReservation \<Rightarrow> RunControlFinalize_rec \<Rightarrow> clock \<Rightarrow> db \<Rightarrow> unit res" where
  "finalize_authority sid r fin clk d =
     (if rf_Outcome fin = ''completed'' \<or> rf_Outcome fin = ''rejected''
      then case rf_Writer fin of
          None \<Rightarrow> Inl (Fail ''run-control writer finalization is fenced'')
        | Some w \<Rightarrow>
            if w \<noteq> rr_Writer r \<or> UnixMilli (rr_Deadline r) \<le> clk 0
            then Inl (Fail ''run-control writer finalization is fenced'')
            else
              res_bind (lockCommandAuthority sid (writer_authority w) (clk 1) d) (\<lambda>_.
              case queryRunControlCapability sid d of
                Inl _ \<Rightarrow> Inl (Fail ''run-control capability changed'')
              | Inr c \<Rightarrow>
                  if ru_Version c \<noteq> rr_CapabilityVersion r \<or> ru_Writer c \<noteq> w
                  then Inl (Fail ''run-control capability changed'')
                  else validateLiveSettingsWriter sid w (clk 2) d)
      else if rf_Writer fin \<noteq> None \<or>
              (rf_Outcome fin = ''timeout'' \<and> UnixMilli (rr_Deadline r) > clk 0)
      then Inl (Fail ''run-control unbound finalization is fenced'')
      else Inr ())"

definition state_payload :: "string \<Rightarrow> bytes" where
  "state_payload operation =
     (if operation = ''stop''
      then print_json (JObj [(''state'', JStr ''ended''), (''reason'', JStr ''user_stop'')])
      else print_json (JObj [(''state'', JStr ''ready'')]))"

definition completion_state :: "RunControlReservation \<Rightarrow> RunControlFinalize_rec \<Rightarrow> string option" where
  "completion_state r fin =
     (if rf_Outcome fin = ''completed''
      then Some (if rr_Operation r = ''stop'' then ''ended'' else ''ready'') else None)"

definition complete_state ::
  "string \<Rightarrow> RunControlReservation \<Rightarrow> RunControlFinalize_rec \<Rightarrow> int \<Rightarrow> db \<Rightarrow> db res" where
  "complete_state sid r fin now d =
     (if rf_Outcome fin \<noteq> ''completed'' then Inr d
      else
        res_bind (validateRunControlPreState sid (rr_Operation r) (rr_PreControlState r)
                    (rr_PreControlStateSeq r) d) (\<lambda>_.
        if rf_EncryptedTerminalSeq fin \<noteq> None then Inr d
        else res_bind (appendRunControlEventExecutor sid ''session.state'' (state_payload (rr_Operation r)) now d)
               (\<lambda>(d, n). Inr d)))"

definition terminal_event ::
  "string \<Rightarrow> RunControlReservation \<Rightarrow> RunControlFinalize_rec \<Rightarrow> int \<Rightarrow> db \<Rightarrow> (db \<times> int) res" where
  "terminal_event sid r fin now d =
     (case rf_EncryptedTerminalSeq fin of
        Some n \<Rightarrow> Inr (d, n)
      | None \<Rightarrow> appendRunControlEventExecutor sid ''session.run.outcome''
          (run_outcome_payload (rr_CommandID r) (rr_Operation r) (rf_Outcome fin)
             (completion_state r fin) (rf_ReasonCode fin)) now d)"

definition settle_run ::
  "string \<Rightarrow> string \<Rightarrow> RunControlFinalize_rec \<Rightarrow> int \<Rightarrow> int \<Rightarrow> db \<Rightarrow> db res" where
  "settle_run sid cmd fin seq now d =
     (case map_of (session_run_controls d) (sid, cmd) of
        None \<Rightarrow> Inl (Fail ''run-control finalization lost race'')
      | Some row \<Rightarrow>
          if rc_reservation_version row = rf_ReservationVersion fin \<and> rc_status row = ''pending'' \<and>
             rc_terminal_seq row = None
          then put_run (sid, cmd) (row\<lparr>rc_status := rf_Outcome fin, rc_terminal_seq := Some seq,
                 rc_updated_ms := now\<rparr>) d
          else Inl (Fail ''run-control finalization lost race''))"

definition RunControlFinalize_tx ::
  "string \<Rightarrow> string \<Rightarrow> RunControlFinalize_rec \<Rightarrow> clock \<Rightarrow> db \<Rightarrow> (db \<times> RunControlReservation) res" where
  "RunControlFinalize_tx sid cmd fin clk d =
     res_bind (queryRunControlReservation sid cmd d) (\<lambda>r.
     if rr_ReservationVersion r \<noteq> rf_ReservationVersion fin \<or> rr_Outcome r \<noteq> ''pending''
     then Inl (Fail ''run-control finalization is fenced'')
     else
       res_bind (finalize_authority sid r fin clk d) (\<lambda>_.
       res_bind (complete_state sid r fin (clk 0) d) (\<lambda>d.
       res_bind (terminal_event sid r fin (clk 0) d) (\<lambda>(d, seq).
       res_bind (settle_run sid cmd fin seq (clk 0) d) (\<lambda>d.
       res_bind (queryRunControlReservation sid cmd d) (\<lambda>r. Inr (d, r)))))))"

definition validRunControlFinalize :: "string \<Rightarrow> string \<Rightarrow> RunControlFinalize_rec \<Rightarrow> bool" where
  "validRunControlFinalize sid cmd fin \<longleftrightarrow>
     validConnectionID sid \<and> cmd \<noteq> [] \<and> rf_ReservationVersion fin \<ge> 1 \<and>
     validRunControlTerminalOutcome (rf_Outcome fin) \<and> rf_Outcome fin \<noteq> ''unsupported'' \<and>
     (if rf_Outcome fin = ''completed'' then rf_ReasonCode fin = None
      else validSettingsReason (rf_ReasonCode fin))"

definition RunControlFinalize ::
  "string \<Rightarrow> string \<Rightarrow> RunControlFinalize_rec \<Rightarrow> clock \<Rightarrow> db \<Rightarrow> db \<times> RunControlReservation res" where
  "RunControlFinalize sid cmd fin clk d =
     (if \<not> validRunControlFinalize sid cmd fin then (d, Inl (Fail ''invalid run-control finalization''))
      else transaction (RunControlFinalize_tx sid cmd fin clk) d)"

definition RunControl :: "string \<Rightarrow> string \<Rightarrow> db \<Rightarrow> RunControlReservation res" where
  "RunControl sid cmd d = queryRunControlReservation sid cmd d"

definition RecoverRunControl ::
  "string \<Rightarrow> string \<Rightarrow> string \<Rightarrow> clock \<Rightarrow> db \<Rightarrow> db \<times> RunControlReservation res" where
  "RecoverRunControl sid cmd reason clk d =
     (if \<not> validConnectionID sid \<or> cmd = [] \<or>
         (reason \<noteq> ''adapter_disconnected'' \<and> reason \<noteq> ''recovery_unconfirmed'')
      then (d, Inl (Fail ''invalid run-control recovery''))
      else case RunControl sid cmd d of
        Inl e \<Rightarrow> (d, Inl e)
      | Inr r \<Rightarrow>
          RunControlFinalize sid cmd
            \<lparr>rf_ReservationVersion = rr_ReservationVersion r, rf_Writer = None,
             rf_Outcome = ''outcome_unknown'', rf_ReasonCode = Some reason,
             rf_EncryptedTerminalSeq = None\<rparr> clk d)"

fun query_reservations :: "string \<Rightarrow> string list \<Rightarrow> db \<Rightarrow> RunControlReservation list res" where
  "query_reservations sid [] d = Inr []"
| "query_reservations sid (cmd # cmds) d =
     res_bind (queryRunControlReservation sid cmd d) (\<lambda>r.
     res_bind (query_reservations sid cmds d) (\<lambda>rs. Inr (r # rs)))"

definition PendingRunControls :: "string \<Rightarrow> db \<Rightarrow> RunControlReservation list res" where
  "PendingRunControls sid d =
     query_reservations sid
       (map fst (sort_key (\<lambda>(c, operation, version). version) (pending_runs d sid))) d"

section \<open>Every operation is a store step\<close>

lemma complete_state_ok:
  assumes "complete_state sid r fin now d = Inr d'"
  shows "d' = d \<and> (rf_Outcome fin = ''completed'' \<longrightarrow> rf_EncryptedTerminalSeq fin \<noteq> None) \<or>
    rf_Outcome fin = ''completed'' \<and> rf_EncryptedTerminalSeq fin = None \<and>
    (\<exists>n. appendRunControlEventExecutor sid ''session.state'' (state_payload (rr_Operation r)) now d = Inr (d', n))"
  using assms by (auto simp: complete_state_def split: if_splits prod.splits)

lemma complete_state_step: "complete_state sid r fin now d = Inr d' \<Longrightarrow> store_step d d'"
  by (auto dest!: complete_state_ok intro: store_step_lifecycle)

lemma terminal_event_step: "terminal_event sid r fin now d = Inr (d', n) \<Longrightarrow> store_step d d'"
  by (auto simp: terminal_event_def split: option.splits intro: store_step_lifecycle)

lemma settle_run_step: "settle_run sid cmd fin n now d = Inr d' \<Longrightarrow> store_step d d'"
  by (auto simp: settle_run_def split: option.splits if_splits elim!: store_step_run)

lemma RunControlFinalize_step: "store_step d (fst (RunControlFinalize sid cmd fin clk d))"
proof -
  have "store_step d d'" if "RunControlFinalize_tx sid cmd fin clk d = Inr (d', r)" for d' r
    using that unfolding RunControlFinalize_tx_def
    by (auto split: if_splits prod.splits intro: store_step_trans
        dest!: complete_state_step terminal_event_step settle_run_step)
  then show ?thesis by (auto simp: RunControlFinalize_def intro!: transaction_step)
qed

lemma RunControlReserve_step: "store_step d (fst (RunControlReserve sid r clk d))"
proof -
  have "store_step d d'" if "RunControlReserve_tx sid r clk d = Inr (d', x)" for d' x
    using that unfolding RunControlReserve_tx_def
    by (auto simp: queryRunControlReservation_def split: if_splits sum.splits err.splits option.splits
        elim!: store_step_run)
  then show ?thesis by (auto simp: RunControlReserve_def intro!: transaction_step)
qed

lemma PublishRunControlCapability_step:
  "store_step d (fst (PublishRunControlCapability sid u clk d))"
proof -
  have "store_step d d'" if "PublishRunControlCapability_tx sid u clk d = Inr (d', c)" for d' c
    using that unfolding PublishRunControlCapability_tx_def Let_def
    by (auto split: if_splits option.splits dest: store_step_caps(2))
  then show ?thesis by (auto simp: PublishRunControlCapability_def intro!: transaction_step)
qed

lemma RecoverRunControl_step: "store_step d (fst (RecoverRunControl sid cmd reason clk d))"
  using RunControlFinalize_step by (auto simp: RecoverRunControl_def split: sum.splits)

lemmas run_control_steps = PublishRunControlCapability_step RunControlReserve_step
  RunControlFinalize_step RecoverRunControl_step

section \<open>Properties\<close>

lemma query_reservation_ok:
  "queryRunControlReservation sid cmd d = Inr r \<longleftrightarrow>
   (\<exists>row. map_of (session_run_controls d) (sid, cmd) = Some row \<and> r = row_reservation sid cmd row \<and>
      validRunControlReservation r)"
  by (auto simp: queryRunControlReservation_def split: option.splits if_splits)

lemma finalize_ok:
  assumes "RunControlFinalize sid cmd fin clk d = (d', Inr r')"
  obtains row d1 d2 n where "map_of (session_run_controls d) (sid, cmd) = Some row"
    "rc_status row = ''pending''" "rc_reservation_version row = rf_ReservationVersion fin"
    "validRunControlFinalize sid cmd fin"
    "finalize_authority sid (row_reservation sid cmd row) fin clk d = Inr ()"
    "complete_state sid (row_reservation sid cmd row) fin (clk 0) d = Inr d1"
    "terminal_event sid (row_reservation sid cmd row) fin (clk 0) d1 = Inr (d2, n)"
    "settle_run sid cmd fin n (clk 0) d2 = Inr d'" "RunControl sid cmd d' = Inr r'"
  using assms
  by (auto simp: RunControlFinalize_def transaction_def RunControlFinalize_tx_def RunControl_def
      query_reservation_ok row_reservation_def split: if_splits sum.splits prod.splits)

lemma settle_run_ok:
  assumes "settle_run sid cmd fin n now d = Inr d'"
  obtains row where "map_of (session_run_controls d) (sid, cmd) = Some row"
    "d' = d\<lparr>session_run_controls := AList.update (sid, cmd)
       (row\<lparr>rc_status := rf_Outcome fin, rc_terminal_seq := Some n, rc_updated_ms := now\<rparr>)
       (session_run_controls d)\<rparr>"
  using assms by (auto simp: settle_run_def put_run_def split: option.splits if_splits)

lemma complete_state_pre:
  assumes "complete_state sid r fin now d = Inr d'" "rf_Outcome fin = ''completed''"
  shows "latest_seq_of d sid ''session.state'' = rr_PreControlStateSeq r"
  using assms by (auto simp: complete_state_def validateRunControlPreState_def split: if_splits option.splits)

lemma finalize_plain:
  assumes wf: "wf d" and state: "complete_state sid r fin now d = Inr d1"
    and event: "terminal_event sid r fin now d1 = Inr (d2, n)"
    and fin: "rf_Outcome fin = ''completed''" "rf_EncryptedTerminalSeq fin = None"
  obtains state outcome where "log_of d2 sid = log_of d sid @ [state, outcome]"
    "ev_type state = ''session.state''" "ev_payload state = state_payload (rr_Operation r)"
    "ev_type outcome = ''session.run.outcome''" "ev_seq outcome = n" "n = latest_seq d sid + 2"
    "session_run_controls d2 = session_run_controls d"
proof -
  obtain k where ev1: "appendRunControlEventExecutor sid ''session.state'' (state_payload (rr_Operation r)) now d = Inr (d1, k)"
    using complete_state_ok [OF state] fin by auto
  have ev2: "appendRunControlEventExecutor sid ''session.run.outcome''
      (run_outcome_payload (rr_CommandID r) (rr_Operation r) ''completed'' (completion_state r fin) (rf_ReasonCode fin))
      now d1 = Inr (d2, n)"
    using event fin by (simp add: terminal_event_def)
  note f1 = lifecycle_event_frame [OF ev1] and f2 = lifecycle_event_frame [OF ev2]
  have "n = latest_seq d sid + 2"
    using f1 f2 numbered_latest [OF wf_numbered [OF wf], of sid]
      numbered_latest [of d1 sid] lifecycle_event_log_step [OF ev1] wf_numbered [OF wf]
    by (auto simp: log_step_def rows_of_def)
  then show thesis using f1 f2 by (intro that) (auto simp: rows_of_def)
qed

text \<open>
  C20: completing a run control is only possible for the writer that reserved it, before its
  deadline, while its authority is current and the session state it was reserved against is
  still the latest one, and it settles exactly that reservation with the number of the outcome
  event. A completion that carries no sealed event appends exactly the new session state and the
  outcome to the log. A completion that names a sealed outcome event the caller has already
  committed records that number and changes nothing else: neither the log nor the session's
  summary.
\<close>

theorem finalize_completed:
  assumes wf: "wf d" and ok: "RunControlFinalize sid cmd fin clk d = (d', Inr r)"
    and fin: "rf_Outcome fin = ''completed''"
  shows "\<exists>row.
      map_of (session_run_controls d) (sid, cmd) = Some row \<and> rc_status row = ''pending'' \<and>
      rf_Writer fin = Some (rc_writer row) \<and> clk 0 < rc_deadline_ms row \<and>
      current_authority d sid (writer_authority (rc_writer row)) (clk 1) \<and>
      latest_seq_of d sid ''session.state'' = rc_pre_state_seq row \<and>
      rr_Outcome r = ''completed'' \<and>
      session_run_controls d' = AList.update (sid, cmd) (row\<lparr>rc_status := ''completed'',
        rc_terminal_seq := rr_TerminalEventSeq r, rc_updated_ms := clk 0\<rparr>) (session_run_controls d) \<and>
      (case rf_EncryptedTerminalSeq fin of
         None \<Rightarrow> \<exists>state outcome. log_of d' sid = log_of d sid @ [state, outcome] \<and>
           ev_type state = ''session.state'' \<and> ev_payload state = state_payload (rc_operation row) \<and>
           ev_type outcome = ''session.run.outcome'' \<and>
           rr_TerminalEventSeq r = Some (ev_seq outcome) \<and> ev_seq outcome = latest_seq d sid + 2
       | Some n \<Rightarrow> rr_TerminalEventSeq r = Some n \<and>
           d' = d\<lparr>session_run_controls := session_run_controls d'\<rparr>)"
  using ok
proof (cases rule: finalize_ok)
  case (1 row d1 d2 n)
  let ?r = "row_reservation sid cmd row"
  have auth: "rf_Writer fin = Some (rc_writer row)" "clk 0 < rc_deadline_ms row"
    "current_authority d sid (writer_authority (rc_writer row)) (clk 1)"
    using 1(5) fin
    by (auto simp: finalize_authority_def row_reservation_def lockCommandAuthority_def
        split: option.splits if_splits sum.splits)
  have pre: "latest_seq_of d sid ''session.state'' = rc_pre_state_seq row"
    using complete_state_pre [OF 1(6) fin] by (simp add: row_reservation_def)
  obtain row2 where row2: "map_of (session_run_controls d2) (sid, cmd) = Some row2"
    and d': "d' = d2\<lparr>session_run_controls := AList.update (sid, cmd)
       (row2\<lparr>rc_status := ''completed'', rc_terminal_seq := Some n, rc_updated_ms := clk 0\<rparr>)
       (session_run_controls d2)\<rparr>"
    using settle_run_ok [OF 1(8)] fin by metis
  have r: "rr_Outcome r = ''completed''" "rr_TerminalEventSeq r = Some n"
    using 1(9) by (auto simp: RunControl_def query_reservation_ok d' row_reservation_def)
  show ?thesis
  proof (cases "rf_EncryptedTerminalSeq fin")
    case None
    obtain state outcome where log: "log_of d2 sid = log_of d sid @ [state, outcome]"
      "ev_type state = ''session.state''" "ev_payload state = state_payload (rr_Operation ?r)"
      "ev_type outcome = ''session.run.outcome''" "ev_seq outcome = n" "n = latest_seq d sid + 2"
      "session_run_controls d2 = session_run_controls d"
      using wf 1(6,7) fin None by (rule finalize_plain)
    then show ?thesis using 1(1,2) auth pre r d' row2 None
      by (intro exI [of _ row]) (auto simp: row_reservation_def)
  next
    case (Some k)
    have "d2 = d" "n = k"
      using complete_state_ok [OF 1(6)] 1(7) Some fin by (auto simp: terminal_event_def)
    then show ?thesis using 1(1,2) auth pre r d' row2 Some
      by (intro exI [of _ row]) auto
  qed
qed

definition demo_writer :: SettingsWriter where
  "demo_writer = \<lparr>w_ConnectionEpoch = 1, w_CredentialGeneration = 1, w_LeaseID = ''lease''\<rparr>"

definition demo_log_db :: db where
  "demo_log_db = fst (Append ''s''
     [\<lparr>pe_Type = ''session.state'', pe_Time = fromMilli 6, pe_Payload = print_json (JObj [(''state'', JStr ''busy'')])\<rparr>,
      \<lparr>pe_Type = ''session.run.capabilities'', pe_Time = fromMilli 6, pe_Payload = ''{}''\<rparr>] (\<lambda>_. 7) demo_bound)"

definition demo_capable :: db where
  "demo_capable = fst (PublishRunControlCapability ''s''
     \<lparr>rv_EventSeq = 2, rv_InterruptSupported = True, rv_StopSupported = False, rv_Writer = demo_writer\<rparr>
     (\<lambda>_. 8) demo_log_db)"

definition demo_request :: RunControlRequest where
  "demo_request = \<lparr>rq_CommandID = ''c'', rq_Operation = ''interrupt'', rq_PreControlState = ''busy'',
     rq_PreControlStateSeq = 1, rq_Writer = demo_writer\<rparr>"

definition demo_reserved :: db where
  "demo_reserved = fst (RunControlReserve ''s'' demo_request (\<lambda>_. 9) demo_capable)"

definition demo_completed :: RunControlFinalize_rec where
  "demo_completed = \<lparr>rf_ReservationVersion = 1, rf_Writer = Some demo_writer, rf_Outcome = ''completed'',
     rf_ReasonCode = None, rf_EncryptedTerminalSeq = None\<rparr>"

definition demo_sealed_end :: RunControlFinalize_rec where
  "demo_sealed_end = demo_completed\<lparr>rf_EncryptedTerminalSeq := Some 2\<rparr>"

lemma demo_run_wf: "wf demo_log_db" "wf demo_capable" "wf demo_reserved"
proof -
  show 1: "wf demo_log_db"
    unfolding demo_log_db_def by (rule store_step_wf [OF Append_step demo_wf(2)])
  show 2: "wf demo_capable"
    unfolding demo_capable_def by (rule store_step_wf [OF PublishRunControlCapability_step 1])
  show "wf demo_reserved"
    unfolding demo_reserved_def by (rule store_step_wf [OF RunControlReserve_step 2])
qed

lemma demo_finalized:
  "\<exists>d' r. RunControlFinalize ''s'' ''c'' demo_completed (\<lambda>_. 10) demo_reserved = (d', Inr r)"
  "\<exists>d' r. RunControlFinalize ''s'' ''c'' demo_sealed_end (\<lambda>_. 10) demo_reserved = (d', Inr r)"
proof -
  have "is_ok (snd (RunControlFinalize ''s'' ''c'' demo_completed (\<lambda>_. 10) demo_reserved))"
    "is_ok (snd (RunControlFinalize ''s'' ''c'' demo_sealed_end (\<lambda>_. 10) demo_reserved))" by code_simp+
  then show "\<exists>d' r. RunControlFinalize ''s'' ''c'' demo_completed (\<lambda>_. 10) demo_reserved = (d', Inr r)"
    "\<exists>d' r. RunControlFinalize ''s'' ''c'' demo_sealed_end (\<lambda>_. 10) demo_reserved = (d', Inr r)"
    by (auto simp: is_ok_iff prod_eq_iff)
qed

theorem finalize_completed_witness:
  "(\<exists>d' r. RunControlFinalize ''s'' ''c'' demo_completed (\<lambda>_. 10) demo_reserved = (d', Inr r) \<and>
      rr_TerminalEventSeq r = Some (latest_seq demo_reserved ''s'' + 2)) \<and>
   (\<exists>d' r. RunControlFinalize ''s'' ''c'' demo_sealed_end (\<lambda>_. 10) demo_reserved = (d', Inr r) \<and>
      rr_TerminalEventSeq r = Some 2)"
proof -
  obtain d1 r1 d2 r2 where
    f: "RunControlFinalize ''s'' ''c'' demo_completed (\<lambda>_. 10) demo_reserved = (d1, Inr r1)"
       "RunControlFinalize ''s'' ''c'' demo_sealed_end (\<lambda>_. 10) demo_reserved = (d2, Inr r2)"
    using demo_finalized by blast
  have "rr_TerminalEventSeq r1 = Some (latest_seq demo_reserved ''s'' + 2)"
    using finalize_completed [OF demo_run_wf(3) f(1)] by (auto simp: demo_completed_def)
  moreover have "rr_TerminalEventSeq r2 = Some 2"
    using finalize_completed [OF demo_run_wf(3) f(2)] by (auto simp: demo_sealed_end_def demo_completed_def)
  ultimately show ?thesis using f by blast
qed

text \<open>
  A run control settles once. After a successful finalisation no later finalisation or
  recovery of the command succeeds, whatever the store did in between; they change nothing, and
  the settled row stays as it is.
\<close>

theorem finalize_once:
  assumes ok: "RunControlFinalize sid cmd fin clk d = (d1, Inr r)" and later: "store_step d1 d2"
  shows "(\<exists>e. RunControlFinalize sid cmd fin' clk' d2 = (d2, Inl e)) \<and>
    (\<exists>e. RecoverRunControl sid cmd reason clk' d2 = (d2, Inl e)) \<and>
    map_of (session_run_controls d2) (sid, cmd) = map_of (session_run_controls d1) (sid, cmd)"
proof -
  obtain row d' n where row: "settle_run sid cmd fin n (clk 0) d' = Inr d1"
      "validRunControlFinalize sid cmd fin"
    using finalize_ok [OF ok] by metis
  then obtain row1 where row1: "map_of (session_run_controls d1) (sid, cmd) = Some row1"
      "rc_status row1 = rf_Outcome fin"
    by (elim settle_run_ok) auto
  have settled: "\<not> run_active row1"
    using row(2) row1(2) by (auto simp: validRunControlFinalize_def validRunControlTerminalOutcome_def)
  have row2: "map_of (session_run_controls d2) (sid, cmd) = Some row1"
    by (rule runs.settled_final [OF later row1(1) settled])
  have fails: "\<exists>e. RunControlFinalize sid cmd f clk' d2 = (d2, Inl e)" for f
    using row2 settled
    by (auto simp: RunControlFinalize_def RunControlFinalize_tx_def transaction_def
        queryRunControlReservation_def row_reservation_def)
  moreover have "\<exists>e. RecoverRunControl sid cmd reason clk' d2 = (d2, Inl e)"
    using fails by (auto simp: RecoverRunControl_def split: sum.splits)
  ultimately show ?thesis using row1(1) row2 by simp
qed

theorem finalize_once_witness:
  "\<exists>d1 r e. RunControlFinalize ''s'' ''c'' demo_completed (\<lambda>_. 10) demo_reserved = (d1, Inr r) \<and>
     RunControlFinalize ''s'' ''c'' demo_completed (\<lambda>_. 11) d1 = (d1, Inl e)"
proof -
  obtain d' r where f: "RunControlFinalize ''s'' ''c'' demo_completed (\<lambda>_. 10) demo_reserved = (d', Inr r)"
    using demo_finalized(1) by blast
  then show ?thesis using finalize_once [OF f store_step_refl] by blast
qed

lemma reserve_ok:
  assumes "RunControlReserve sid q clk d = (d', Inr (r, dup))"
  shows "d' = d \<and> dup \<and> queryRunControlReservation sid (rq_CommandID q) d = Inr r \<and>
      rr_Operation r = rq_Operation q \<or>
    \<not> dup \<and> map_of (session_run_controls d) (sid, rq_CommandID q) = None \<and>
      (\<exists>row. put_run (sid, rq_CommandID q) row d = Inr d' \<and> rc_status row = ''pending'' \<and>
         rc_operation row = rq_Operation q \<and> rc_deadline_ms row = clk 0 + 30000 \<and>
         queryRunControlReservation sid (rq_CommandID q) d' = Inr r)"
  using assms
  by (auto simp: RunControlReserve_def transaction_def RunControlReserve_tx_def
      queryRunControlReservation_def split: if_splits sum.splits err.splits option.splits)

text \<open>
  A run control is reserved at most once per session at a time and retries are harmless: a
  new reservation is only made when no other one of the session is pending, and repeating the
  request while the writer is live returns the same reservation as a duplicate and changes
  nothing.
\<close>

theorem reserve_exclusive:
  assumes wf: "wf d" and ok: "RunControlReserve sid q clk d = (d', Inr (r, False))"
    and live: "validateLiveSettingsWriter sid (rq_Writer q) (clk' 2) d' = Inr ()"
      "lockCommandAuthority sid (writer_authority (rq_Writer q)) (clk' 1) d' = Inr ()"
  shows "(\<forall>cmd row. map_of (session_run_controls d) (sid, cmd) = Some row \<longrightarrow> rc_status row \<noteq> ''pending'') \<and>
    RunControlReserve sid q clk' d' = (d', Inr (r, True))"
proof -
  obtain row where row: "put_run (sid, rq_CommandID q) row d = Inr d'" "rc_status row = ''pending''"
    "map_of (session_run_controls d) (sid, rq_CommandID q) = None" "rc_operation row = rq_Operation q"
    "queryRunControlReservation sid (rq_CommandID q) d' = Inr r"
    using reserve_ok [OF ok] by auto
  have "\<not> other_active run_active (session_run_controls d) (sid, rq_CommandID q)"
    using row(1,2) by (auto simp: put_run_def split: if_splits)
  then have "rc_status row' \<noteq> ''pending''"
    if "map_of (session_run_controls d) (sid, cmd) = Some row'" for cmd row'
    using map_of_SomeD [OF that] that row(3) by (cases "cmd = rq_CommandID q") (auto simp: other_active_def)
  moreover have "rr_Operation r = rq_Operation q"
    using row(1,4,5) by (auto simp: query_reservation_ok put_run_def row_reservation_def split: if_splits)
  then have "RunControlReserve sid q clk' d' = (d', Inr (r, True))"
    using ok live row(5)
    by (auto simp: RunControlReserve_def transaction_def RunControlReserve_tx_def split: if_splits)
  ultimately show ?thesis by blast
qed

theorem reserve_exclusive_witness:
  "\<exists>r. RunControlReserve ''s'' demo_request (\<lambda>_. 9) demo_capable = (demo_reserved, Inr (r, False)) \<and>
     RunControlReserve ''s'' demo_request (\<lambda>_. 10) demo_reserved = (demo_reserved, Inr (r, True))"
proof -
  have "case snd (RunControlReserve ''s'' demo_request (\<lambda>_. 9) demo_capable) of
      Inr (r, dup) \<Rightarrow> \<not> dup | Inl e \<Rightarrow> False" by code_simp
  then obtain r where r: "RunControlReserve ''s'' demo_request (\<lambda>_. 9) demo_capable = (demo_reserved, Inr (r, False))"
    unfolding demo_reserved_def
    by (cases "RunControlReserve ''s'' demo_request (\<lambda>_. 9) demo_capable") (auto split: sum.splits)
  have "validateLiveSettingsWriter ''s'' (rq_Writer demo_request) 10 demo_reserved = Inr ()"
    "lockCommandAuthority ''s'' (writer_authority (rq_Writer demo_request)) 10 demo_reserved = Inr ()"
    by code_simp+
  then show ?thesis using r reserve_exclusive [OF demo_run_wf(2) r, of "\<lambda>_. 10"] by blast
qed

text \<open>
  C35: a pending run control can always be settled without its writer: on a well-formed store
  recovery of a readable pending reservation succeeds and settles it as \<^verbatim>\<open>outcome_unknown\<close>.
\<close>

theorem recovery_succeeds:
  assumes wf: "wf d" and r: "RunControl sid cmd d = Inr r" "rr_Outcome r = ''pending''"
    and reason: "reason = ''adapter_disconnected'' \<or> reason = ''recovery_unconfirmed''"
  shows "\<exists>d' r'. RecoverRunControl sid cmd reason clk d = (d', Inr r') \<and>
      rr_Outcome r' = ''outcome_unknown'' \<and> rr_TerminalEventSeq r' = Some (latest_seq d sid + 1)"
proof -
  obtain row where row: "map_of (session_run_controls d) (sid, cmd) = Some row"
    "r = row_reservation sid cmd row" "validRunControlReservation r"
    using r(1) by (auto simp: RunControl_def query_reservation_ok)
  let ?fin = "\<lparr>rf_ReservationVersion = rr_ReservationVersion r, rf_Writer = None,
    rf_Outcome = ''outcome_unknown'', rf_ReasonCode = Some reason, rf_EncryptedTerminalSeq = None\<rparr>"
  let ?n = "latest_seq d sid + 1"
  let ?row = "row\<lparr>rc_status := ''outcome_unknown'', rc_terminal_seq := Some ?n, rc_updated_ms := clk 0\<rparr>"
  obtain d1 where ev: "appendRunControlEventExecutor sid ''session.run.outcome''
      (run_outcome_payload cmd (rr_Operation r) ''outcome_unknown'' None (Some reason)) (clk 0) d = Inr (d1, ?n)"
    and has: "has_event d1 sid ?n"
    by (rule lifecycle_event_succeeds [OF wf_numbered [OF wf]])
  note d1 = lifecycle_event_frame [OF ev]
  have pend: "rc_status row = ''pending''" using r(2) row(2) by (simp add: row_reservation_def)
  have "check_run_row (sid, cmd) row"
    using tbl_okD [OF wf_tables(5) [OF wf] row(1)] by (simp add: run_ok_def)
  then have chk: "check_run_row (sid, cmd) ?row" "rc_terminal_seq row = None"
    using pend by (auto simp: check_run_row_def)
  have settle: "settle_run sid cmd ?fin ?n (clk 0) d1 =
      Inr (d1\<lparr>session_run_controls := AList.update (sid, cmd) ?row (session_run_controls d)\<rparr>)"
    using d1 row pend chk has by (simp add: settle_run_def put_run_def row_reservation_def)
  have valid: "validRunControlReservation (row_reservation sid cmd ?row)"
    using row(2,3) pend by (simp add: validRunControlReservation_def row_reservation_def
        validRunControlTerminalOutcome_def)
  have "validSettingsReason (Some reason)" using reason by (auto simp: validSettingsReason_def)
  then have fin: "validRunControlFinalize sid cmd ?fin"
    using row(2,3) by (simp add: validRunControlFinalize_def validRunControlReservation_def
        validRunControlRequest_def row_reservation_def validRunControlTerminalOutcome_def)
  have "RunControlFinalize_tx sid cmd ?fin clk d =
      Inr (d1\<lparr>session_run_controls := AList.update (sid, cmd) ?row (session_run_controls d)\<rparr>,
        row_reservation sid cmd ?row)"
    using r ev settle valid row(2)
    by (simp add: RunControlFinalize_tx_def RunControl_def finalize_authority_def complete_state_def
        terminal_event_def completion_state_def row_reservation_def queryRunControlReservation_def)
  then show ?thesis
    using fin r(1) reason
    by (auto simp: RecoverRunControl_def RunControlFinalize_def transaction_def row_reservation_def
        validRunControlFinalize_def)
qed

theorem recovery_succeeds_witness:
  "\<exists>d' r'. RecoverRunControl ''s'' ''c'' ''adapter_disconnected'' (\<lambda>_. 10) demo_reserved = (d', Inr r') \<and>
     rr_Outcome r' = ''outcome_unknown''"
proof -
  have "case RunControl ''s'' ''c'' demo_reserved of
      Inr r \<Rightarrow> rr_Outcome r = ''pending'' | Inl e \<Rightarrow> False" by code_simp
  then obtain r where "RunControl ''s'' ''c'' demo_reserved = Inr r" "rr_Outcome r = ''pending''"
    by (auto split: sum.splits)
  then show ?thesis using recovery_succeeds [OF demo_run_wf(3)] by blast
qed

end
