(* ===== verification/File_References.thy ===== *)
theory File_References
  imports Ledgers
begin

text \<open>
  The file-reference ledger of \<^verbatim>\<open>store/sqlite/store.go\<close>: publication of the capability, the
  commit of a user message together with its command, the acknowledgement of its delivery by
  the Adapter's writer, finalisation, recovery and reading.
\<close>

section \<open>Structs\<close>

record FileReferenceCapability =
  fc_SessionID :: string
  fc_EventSeq :: int
  fc_Fingerprint :: string
  fc_Writer :: SettingsWriter

record FileReferenceCapabilityUpdate =
  fu_EventSeq :: int
  fu_Fingerprint :: string
  fu_Writer :: SettingsWriter

record FileReferenceCommand_rec =
  fm_SessionID :: string
  fm_CommandID :: string
  fm_MessageID :: string
  fm_CapabilityFingerprint :: string
  fm_RequestFingerprint :: string
  fm_ReferenceCount :: int
  fm_ReservationVersion :: int
  fm_DeliveryDeadline :: gotime
  fm_Writer :: "SettingsWriter option"
  fm_Status :: string
  fm_TerminalEventSeq :: "int option"

record FileReferenceCommandRequest =
  fq_CommandID :: string
  fq_MessageID :: string
  fq_CapabilityFingerprint :: string
  fq_RequestFingerprint :: string
  fq_ReferenceCount :: int

record FileReferenceCommandFinalize =
  ff_ReservationVersion :: int
  ff_Writer :: "SettingsWriter option"
  ff_Outcome :: string
  ff_ReasonCode :: "string option"
  ff_ReferenceIndex :: "int option"

section \<open>Checks and rows\<close>

definition ValidFileReferenceTerminal :: "string \<Rightarrow> int \<Rightarrow> string option \<Rightarrow> int option \<Rightarrow> bool" where
  "ValidFileReferenceTerminal outcome count reason index =
     (if count < 1 \<or> count > 8 then False
      else if outcome = ''delivered'' then reason = None \<and> index = None
      else if outcome = ''rejected''
      then (case (reason, index) of
              (Some why, Some i) \<Rightarrow> 0 \<le> i \<and> i < count \<and>
                why \<in> {''missing'', ''removed'', ''stale_reference'', ''size_changed'', ''media_type_changed'',
                  ''image_unsupported'', ''provider_unsupported'', ''unsafe_path'', ''quarantined'',
                  ''access_denied''}
            | _ \<Rightarrow> False)
      else if outcome = ''outcome_unknown''
      then (case (reason, index) of
              (Some why, None) \<Rightarrow> why \<in> {''delivery_unconfirmed'', ''writer_lost'', ''adapter_deadline''}
            | _ \<Rightarrow> False)
      else False)"

definition validFileReferenceCapabilityUpdate :: "string \<Rightarrow> FileReferenceCapabilityUpdate \<Rightarrow> bool" where
  "validFileReferenceCapabilityUpdate sid u \<longleftrightarrow>
     validConnectionID sid \<and> fu_EventSeq u > 0 \<and> validSettingsFingerprint (fu_Fingerprint u) \<and>
     validSettingsWriter (fu_Writer u)"

definition validFileReferenceRequest :: "string \<Rightarrow> FileReferenceCommandRequest \<Rightarrow> bool" where
  "validFileReferenceRequest sid q \<longleftrightarrow>
     validConnectionID sid \<and> fq_CommandID q \<noteq> [] \<and> length (fq_CommandID q) \<le> 256 \<and>
     fq_MessageID q \<noteq> [] \<and> length (fq_MessageID q) \<le> 256 \<and>
     validSettingsFingerprint (fq_CapabilityFingerprint q) \<and>
     validSettingsFingerprint (fq_RequestFingerprint q) \<and>
     fq_ReferenceCount q \<ge> 1 \<and> fq_ReferenceCount q \<le> 8"

definition queryFileReferenceCapability :: "string \<Rightarrow> db \<Rightarrow> FileReferenceCapability res" where
  "queryFileReferenceCapability sid d =
     (case map_of (session_file_reference_capabilities d) sid of
        None \<Rightarrow> Inl (Fail ''file-reference capability row is invalid'')
      | Some r \<Rightarrow>
          if validFileReferenceCapabilityUpdate sid
               \<lparr>fu_EventSeq = frc_event_seq r, fu_Fingerprint = frc_fingerprint r, fu_Writer = frc_writer r\<rparr>
          then Inr \<lparr>fc_SessionID = sid, fc_EventSeq = frc_event_seq r, fc_Fingerprint = frc_fingerprint r,
                 fc_Writer = frc_writer r\<rparr>
          else Inl (Fail ''file-reference capability row is invalid''))"

definition row_writer :: "file_row \<Rightarrow> SettingsWriter option" where
  "row_writer r =
     (case (fr_writer_epoch r, fr_writer_gen r, fr_writer_lease r) of
        (Some e, Some g, Some l) \<Rightarrow>
          Some \<lparr>w_ConnectionEpoch = e, w_CredentialGeneration = g, w_LeaseID = l\<rparr>
      | _ \<Rightarrow> None)"

definition row_file_command :: "string \<Rightarrow> string \<Rightarrow> file_row \<Rightarrow> FileReferenceCommand_rec" where
  "row_file_command sid cmd r =
     \<lparr>fm_SessionID = sid, fm_CommandID = cmd, fm_MessageID = fr_message_id r,
      fm_CapabilityFingerprint = fr_capability_fingerprint r,
      fm_RequestFingerprint = fr_request_fingerprint r, fm_ReferenceCount = fr_reference_count r,
      fm_ReservationVersion = fr_reservation_version r,
      fm_DeliveryDeadline = fromMilli (fr_delivery_deadline_ms r), fm_Writer = row_writer r,
      fm_Status = fr_status r, fm_TerminalEventSeq = fr_terminal_seq r\<rparr>"

definition queryFileReferenceCommand :: "string \<Rightarrow> string \<Rightarrow> db \<Rightarrow> FileReferenceCommand_rec res" where
  "queryFileReferenceCommand sid cmd d =
     (case map_of (session_file_reference_commands d) (sid, cmd) of
        None \<Rightarrow> Inl NoRows | Some r \<Rightarrow> Inr (row_file_command sid cmd r))"

section \<open>Operations\<close>

definition PublishFileReferenceCapability_tx ::
  "string \<Rightarrow> FileReferenceCapabilityUpdate \<Rightarrow> clock \<Rightarrow> db \<Rightarrow> (db \<times> FileReferenceCapability) res" where
  "PublishFileReferenceCapability_tx sid u clk d =
     res_bind (lockCommandAuthority sid (writer_authority (fu_Writer u)) (clk 1) d) (\<lambda>_.
     res_bind (validateLiveSettingsWriter sid (fu_Writer u) (clk 2) d) (\<lambda>_.
     if map_option ev_type (event_at d sid (fu_EventSeq u)) \<noteq> Some ''session.file_references.capabilities''
     then Inl (Fail ''file-reference capability event is invalid'')
     else
       let old = map_of (session_file_reference_capabilities d) sid;
           row = \<lparr>frc_event_seq = fu_EventSeq u, frc_fingerprint = fu_Fingerprint u,
                  frc_writer = fu_Writer u,
                  frc_created_ms = (case old of None \<Rightarrow> clk 0 | Some r \<Rightarrow> frc_created_ms r),
                  frc_updated_ms = clk 0\<rparr>
       in if (case old of None \<Rightarrow> False | Some r \<Rightarrow> \<not> frc_event_seq r < fu_EventSeq u)
          then Inl (Fail ''file-reference capability is stale'')
          else res_bind (put_file_cap sid row d) (\<lambda>d.
               res_bind (queryFileReferenceCapability sid d) (\<lambda>c. Inr (d, c)))))"

definition PublishFileReferenceCapability ::
  "string \<Rightarrow> FileReferenceCapabilityUpdate \<Rightarrow> clock \<Rightarrow> db \<Rightarrow> db \<times> FileReferenceCapability res" where
  "PublishFileReferenceCapability sid u clk d =
     (if \<not> validFileReferenceCapabilityUpdate sid u
      then (d, Inl (Fail ''invalid file-reference capability''))
      else transaction (PublishFileReferenceCapability_tx sid u clk) d)"

definition new_file_row :: "FileReferenceCommandRequest \<Rightarrow> int \<Rightarrow> file_row" where
  "new_file_row q now =
     \<lparr>fr_message_id = fq_MessageID q, fr_capability_fingerprint = fq_CapabilityFingerprint q,
      fr_request_fingerprint = fq_RequestFingerprint q, fr_reference_count = fq_ReferenceCount q,
      fr_reservation_version = 1, fr_delivery_deadline_ms = now + 600000, fr_writer_epoch = None,
      fr_writer_gen = None, fr_writer_lease = None, fr_status = ''delivery_pending'',
      fr_terminal_seq = None, fr_created_ms = now, fr_updated_ms = now\<rparr>"

definition CommitFileReferenceCommand_tx ::
  "string \<Rightarrow> PendingEvent \<Rightarrow> FileReferenceCommandRequest \<Rightarrow> clock \<Rightarrow> db \<Rightarrow>
   (db \<times> FileReferenceCommand_rec \<times> bool) res" where
  "CommitFileReferenceCommand_tx sid message q clk d =
     (case queryFileReferenceCommand sid (fq_CommandID q) d of
        Inr existing \<Rightarrow>
          if fm_MessageID existing \<noteq> fq_MessageID q \<or>
             fm_CapabilityFingerprint existing \<noteq> fq_CapabilityFingerprint q \<or>
             fm_RequestFingerprint existing \<noteq> fq_RequestFingerprint q \<or>
             fm_ReferenceCount existing \<noteq> fq_ReferenceCount q
          then Inl (Fail ''file-reference command ID is reused'')
          else Inr (d, existing, True)
      | Inl (Fail e) \<Rightarrow> Inl (Fail e)
      | Inl NoRows \<Rightarrow>
          (case queryFileReferenceCapability sid d of
             Inl _ \<Rightarrow> Inl (Fail ''file-reference capability is stale'')
           | Inr c \<Rightarrow>
               if fc_Fingerprint c \<noteq> fq_CapabilityFingerprint q \<or>
                  validateLiveSettingsWriter sid (fc_Writer c) (clk 1) d \<noteq> Inr ()
               then Inl (Fail ''file-reference capability is stale'')
               else
                 res_bind (appendRunControlEventExecutor sid (pe_Type message) (pe_Payload message) (clk 0) d)
                   (\<lambda>(d, n).
                 res_bind (put_file (sid, fq_CommandID q) (new_file_row q (clk 0)) d) (\<lambda>d.
                 res_bind (queryFileReferenceCommand sid (fq_CommandID q) d) (\<lambda>command.
                 Inr (d, command, False))))))"

definition CommitFileReferenceCommand ::
  "string \<Rightarrow> PendingEvent \<Rightarrow> FileReferenceCommandRequest \<Rightarrow> clock \<Rightarrow> db \<Rightarrow>
   db \<times> (FileReferenceCommand_rec \<times> bool) res" where
  "CommitFileReferenceCommand sid message q clk d =
     (if \<not> validFileReferenceRequest sid q \<or> pe_Type message \<noteq> ''session.message'' \<or>
         \<not> json_Valid (pe_Payload message)
      then (d, Inl (Fail ''invalid file-reference command''))
      else transaction (CommitFileReferenceCommand_tx sid message q clk) d)"

definition bind_delivery :: "string \<Rightarrow> string \<Rightarrow> int \<Rightarrow> SettingsWriter \<Rightarrow> int \<Rightarrow> db \<Rightarrow> db res" where
  "bind_delivery sid cmd version writer now d =
     (case map_of (session_file_reference_commands d) (sid, cmd) of
        None \<Rightarrow> Inl (Fail ''file-reference delivery is fenced'')
      | Some r \<Rightarrow>
          if fr_reservation_version r = version \<and> fr_status r = ''delivery_pending'' \<and>
             fr_delivery_deadline_ms r > now
          then put_file (sid, cmd)
                 (r\<lparr>fr_writer_epoch := Some (w_ConnectionEpoch writer),
                    fr_writer_gen := Some (w_CredentialGeneration writer),
                    fr_writer_lease := Some (w_LeaseID writer), fr_status := ''pending'',
                    fr_updated_ms := now\<rparr>) d
          else Inl (Fail ''file-reference delivery is fenced''))"

definition AcknowledgeFileReferenceDelivery_tx ::
  "string \<Rightarrow> string \<Rightarrow> int \<Rightarrow> SettingsWriter \<Rightarrow> clock \<Rightarrow> db \<Rightarrow> (db \<times> FileReferenceCommand_rec) res" where
  "AcknowledgeFileReferenceDelivery_tx sid cmd version writer clk d =
     (if \<not> validConnectionID sid \<or> \<not> validSettingsWriter writer \<or> version < 1
      then Inl (Fail ''invalid file-reference delivery'')
      else
        res_bind (lockCommandAuthority sid (writer_authority writer) (clk 1) d) (\<lambda>_.
        res_bind (validateLiveSettingsWriter sid writer (clk 2) d) (\<lambda>_.
        case queryFileReferenceCapability sid d of
          Inl _ \<Rightarrow> Inl (Fail ''file-reference writer is fenced'')
        | Inr c \<Rightarrow>
            if fc_Writer c \<noteq> writer then Inl (Fail ''file-reference writer is fenced'')
            else res_bind (bind_delivery sid cmd version writer (clk 0) d) (\<lambda>d.
                 res_bind (queryFileReferenceCommand sid cmd d) (\<lambda>command. Inr (d, command))))))"

definition AcknowledgeFileReferenceDelivery ::
  "string \<Rightarrow> string \<Rightarrow> int \<Rightarrow> SettingsWriter \<Rightarrow> clock \<Rightarrow> db \<Rightarrow> db \<times> FileReferenceCommand_rec res" where
  "AcknowledgeFileReferenceDelivery sid cmd version writer clk =
     transaction (AcknowledgeFileReferenceDelivery_tx sid cmd version writer clk)"

definition file_writer_authority ::
  "string \<Rightarrow> FileReferenceCommand_rec \<Rightarrow> FileReferenceCommandFinalize \<Rightarrow> clock \<Rightarrow> db \<Rightarrow> unit res" where
  "file_writer_authority sid command fin clk d =
     (if ff_Outcome fin = ''outcome_unknown'' then Inr ()
      else case (ff_Writer fin, fm_Writer command) of
        (Some w, Some w') \<Rightarrow>
          if w \<noteq> w' then Inl (Fail ''file-reference writer finalization is fenced'')
          else
            res_bind (lockCommandAuthority sid (writer_authority w) (clk 1) d) (\<lambda>_.
            res_bind (validateLiveSettingsWriter sid w (clk 2) d) (\<lambda>_.
            case queryFileReferenceCapability sid d of
              Inl _ \<Rightarrow> Inl (Fail ''file-reference capability is fenced'')
            | Inr c \<Rightarrow>
                if fc_Writer c \<noteq> w \<or> fc_Fingerprint c \<noteq> fm_CapabilityFingerprint command
                then Inl (Fail ''file-reference capability is fenced'') else Inr ()))
      | _ \<Rightarrow> Inl (Fail ''file-reference writer finalization is fenced''))"

text \<open>The terminal update: its \<^verbatim>\<open>WHERE\<close> clause selects the row, the outcome and its event settle it.\<close>

definition settle_file ::
  "string \<Rightarrow> string \<Rightarrow> (file_row \<Rightarrow> bool) \<Rightarrow> string \<Rightarrow> int \<Rightarrow> int \<Rightarrow> string \<Rightarrow> db \<Rightarrow> db res" where
  "settle_file sid cmd P outcome seq now lost d =
     (case map_of (session_file_reference_commands d) (sid, cmd) of
        None \<Rightarrow> Inl (Fail lost)
      | Some r \<Rightarrow>
          if P r \<and> fr_terminal_seq r = None
          then put_file (sid, cmd) (r\<lparr>fr_status := outcome, fr_terminal_seq := Some seq,
                 fr_updated_ms := now\<rparr>) d
          else Inl (Fail lost))"

definition FinalizeFileReferenceCommand_tx ::
  "string \<Rightarrow> string \<Rightarrow> FileReferenceCommandFinalize \<Rightarrow> clock \<Rightarrow> db \<Rightarrow>
   (db \<times> FileReferenceCommand_rec) res" where
  "FinalizeFileReferenceCommand_tx sid cmd fin clk d =
     res_bind (queryFileReferenceCommand sid cmd d) (\<lambda>command.
     if fm_ReservationVersion command \<noteq> ff_ReservationVersion fin \<or> fm_Status command \<noteq> ''pending'' \<or>
        \<not> ValidFileReferenceTerminal (ff_Outcome fin) (fm_ReferenceCount command) (ff_ReasonCode fin)
            (ff_ReferenceIndex fin)
     then Inl (Fail ''file-reference finalization is fenced'')
     else
       res_bind (file_writer_authority sid command fin clk d) (\<lambda>_.
       res_bind (appendRunControlEventExecutor sid ''session.file_references.outcome''
           (file_outcome_payload (fm_MessageID command) (fm_CommandID command) (ff_Outcome fin)
              (ff_ReferenceIndex fin) (ff_ReasonCode fin)) (clk 0) d) (\<lambda>(d, seq).
       res_bind (settle_file sid cmd
           (\<lambda>r. fr_reservation_version r = ff_ReservationVersion fin \<and> fr_status r = ''pending'')
           (ff_Outcome fin) seq (clk 0) ''file-reference terminal update is fenced'' d) (\<lambda>d.
       res_bind (queryFileReferenceCommand sid cmd d) (\<lambda>command. Inr (d, command))))))"

definition FinalizeFileReferenceCommand ::
  "string \<Rightarrow> string \<Rightarrow> FileReferenceCommandFinalize \<Rightarrow> clock \<Rightarrow> db \<Rightarrow> db \<times> FileReferenceCommand_rec res" where
  "FinalizeFileReferenceCommand sid cmd fin clk d =
     (if \<not> validConnectionID sid \<or> cmd = [] \<or> ff_ReservationVersion fin < 1 \<or>
         ff_Outcome fin \<notin> {''delivered'', ''rejected'', ''outcome_unknown''}
      then (d, Inl (Fail ''invalid file-reference finalization''))
      else transaction (FinalizeFileReferenceCommand_tx sid cmd fin clk) d)"

definition FileReferenceCommand :: "string \<Rightarrow> string \<Rightarrow> db \<Rightarrow> FileReferenceCommand_rec res" where
  "FileReferenceCommand sid cmd d = queryFileReferenceCommand sid cmd d"

definition recover_delivery_tx ::
  "string \<Rightarrow> string \<Rightarrow> string \<Rightarrow> clock \<Rightarrow> db \<Rightarrow> (db \<times> FileReferenceCommand_rec) res" where
  "recover_delivery_tx sid cmd reason clk d =
     res_bind (queryFileReferenceCommand sid cmd d) (\<lambda>command.
     if fm_Status command \<noteq> ''delivery_pending'' \<or> fm_DeliveryDeadline command > fromMilli (clk 0)
     then Inl (Fail ''file-reference delivery recovery is fenced'')
     else
       res_bind (appendRunControlEventExecutor sid ''session.file_references.outcome''
           (file_outcome_payload (fm_MessageID command) (fm_CommandID command) ''outcome_unknown'' None
              (Some reason)) (clk 0) d) (\<lambda>(d, seq).
       res_bind (settle_file sid cmd
           (\<lambda>r. fr_reservation_version r = fm_ReservationVersion command \<and>
                fr_status r = ''delivery_pending'' \<and> fr_delivery_deadline_ms r \<le> clk 0)
           ''outcome_unknown'' seq (clk 0) ''file-reference delivery recovery is fenced'' d) (\<lambda>d.
       res_bind (queryFileReferenceCommand sid cmd d) (\<lambda>command. Inr (d, command)))))"

definition RecoverFileReferenceCommand ::
  "string \<Rightarrow> string \<Rightarrow> string \<Rightarrow> clock \<Rightarrow> db \<Rightarrow> db \<times> FileReferenceCommand_rec res" where
  "RecoverFileReferenceCommand sid cmd reason clk d =
     (case FileReferenceCommand sid cmd d of
        Inl e \<Rightarrow> (d, Inl e)
      | Inr command \<Rightarrow>
          if fm_Status command \<noteq> ''delivery_pending''
          then FinalizeFileReferenceCommand sid cmd
                 \<lparr>ff_ReservationVersion = fm_ReservationVersion command, ff_Writer = None,
                  ff_Outcome = ''outcome_unknown'', ff_ReasonCode = Some reason,
                  ff_ReferenceIndex = None\<rparr> clk d
          else if reason \<noteq> ''adapter_deadline''
          then (d, Inl (Fail ''file-reference delivery recovery requires adapter deadline''))
          else transaction (recover_delivery_tx sid cmd reason clk) d)"

fun query_file_commands :: "string \<Rightarrow> string list \<Rightarrow> db \<Rightarrow> FileReferenceCommand_rec list res" where
  "query_file_commands sid [] d = Inr []"
| "query_file_commands sid (cmd # cmds) d =
     res_bind (FileReferenceCommand sid cmd d) (\<lambda>r.
     res_bind (query_file_commands sid cmds d) (\<lambda>rs. Inr (r # rs)))"

definition PendingFileReferenceCommands :: "string \<Rightarrow> db \<Rightarrow> FileReferenceCommand_rec list res" where
  "PendingFileReferenceCommands sid d =
     query_file_commands sid
       (map (\<lambda>(k, r). snd k)
          (sort_key (\<lambda>(k, r). fr_reservation_version r)
            (filter (\<lambda>(k, r). fst k = sid \<and> file_active r) (session_file_reference_commands d)))) d"

section \<open>Every operation is a store step\<close>

lemma bind_delivery_step: "bind_delivery sid cmd v w now d = Inr d' \<Longrightarrow> store_step d d'"
  by (auto simp: bind_delivery_def split: option.splits if_splits elim!: store_step_file)

lemma settle_file_step:
  assumes "settle_file sid cmd P outcome n now lost d = Inr d'" "\<And>r. P r \<Longrightarrow> file_active r"
  shows "store_step d d'"
proof -
  obtain r where r: "map_of (session_file_reference_commands d) (sid, cmd) = Some r" "P r"
    and put: "put_file (sid, cmd) (r\<lparr>fr_status := outcome, fr_terminal_seq := Some n, fr_updated_ms := now\<rparr>) d = Inr d'"
    using assms(1) by (auto simp: settle_file_def split: option.splits if_splits)
  show ?thesis by (rule store_step_file [OF put]) (use r assms(2) in simp)
qed

lemma FinalizeFileReferenceCommand_step:
  "store_step d (fst (FinalizeFileReferenceCommand sid cmd fin clk d))"
proof -
  have "store_step d d'" if "FinalizeFileReferenceCommand_tx sid cmd fin clk d = Inr (d', c)" for d' c
    using that unfolding FinalizeFileReferenceCommand_tx_def
    by (auto split: if_splits prod.splits intro: store_step_trans dest!: settle_file_step store_step_lifecycle)
  then show ?thesis by (auto simp: FinalizeFileReferenceCommand_def intro!: transaction_step)
qed

lemma RecoverFileReferenceCommand_step:
  "store_step d (fst (RecoverFileReferenceCommand sid cmd reason clk d))"
proof -
  have "store_step d d'" if "recover_delivery_tx sid cmd reason clk d = Inr (d', c)" for d' c
    using that unfolding recover_delivery_tx_def
    by (auto split: if_splits prod.splits intro: store_step_trans dest!: settle_file_step store_step_lifecycle)
  then have "store_step d (fst (transaction (recover_delivery_tx sid cmd reason clk) d))"
    by (rule transaction_step)
  then show ?thesis
    using FinalizeFileReferenceCommand_step by (auto simp: RecoverFileReferenceCommand_def split: sum.splits)
qed

lemma CommitFileReferenceCommand_step:
  "store_step d (fst (CommitFileReferenceCommand sid message q clk d))"
proof -
  have "store_step d d'" if ok: "CommitFileReferenceCommand_tx sid message q clk d = Inr (d', x)" for d' x
  proof (cases "map_of (session_file_reference_commands d) (sid, fq_CommandID q)")
    case None
    then obtain n d1 where
      ev: "appendRunControlEventExecutor sid (pe_Type message) (pe_Payload message) (clk 0) d = Inr (d1, n)"
      and put: "put_file (sid, fq_CommandID q) (new_file_row q (clk 0)) d1 = Inr d'"
      using ok unfolding CommitFileReferenceCommand_tx_def
      by (auto simp: queryFileReferenceCommand_def split: if_splits sum.splits prod.splits)
    have "store_step d1 d'"
      by (rule store_step_file [OF put]) (use None lifecycle_event_frame [OF ev] in simp)
    then show ?thesis by (rule store_step_trans [OF store_step_lifecycle [OF ev]])
  next
    case (Some r)
    then show ?thesis using ok unfolding CommitFileReferenceCommand_tx_def
      by (auto simp: queryFileReferenceCommand_def split: if_splits)
  qed
  then show ?thesis by (auto simp: CommitFileReferenceCommand_def intro!: transaction_step)
qed

lemma AcknowledgeFileReferenceDelivery_step:
  "store_step d (fst (AcknowledgeFileReferenceDelivery sid cmd v w clk d))"
  unfolding AcknowledgeFileReferenceDelivery_def
  by (rule transaction_step)
    (auto simp: AcknowledgeFileReferenceDelivery_tx_def split: if_splits sum.splits dest: bind_delivery_step)

lemma PublishFileReferenceCapability_step:
  "store_step d (fst (PublishFileReferenceCapability sid u clk d))"
proof -
  have "store_step d d'" if "PublishFileReferenceCapability_tx sid u clk d = Inr (d', c)" for d' c
    using that unfolding PublishFileReferenceCapability_tx_def Let_def
    by (auto split: if_splits option.splits dest: store_step_caps(3))
  then show ?thesis by (auto simp: PublishFileReferenceCapability_def intro!: transaction_step)
qed

lemmas file_reference_steps = PublishFileReferenceCapability_step CommitFileReferenceCommand_step
  AcknowledgeFileReferenceDelivery_step FinalizeFileReferenceCommand_step RecoverFileReferenceCommand_step

section \<open>Properties\<close>

lemma commit_ok:
  assumes "CommitFileReferenceCommand sid message q clk d = (d', Inr (c, False))"
  obtains n d1 w where
    "map_of (session_file_reference_commands d) (sid, fq_CommandID q) = None"
    "appendRunControlEventExecutor sid ''session.message'' (pe_Payload message) (clk 0) d = Inr (d1, n)"
    "put_file (sid, fq_CommandID q) (new_file_row q (clk 0)) d1 = Inr d'"
    "c = row_file_command sid (fq_CommandID q) (new_file_row q (clk 0))"
    "validFileReferenceRequest sid q" "json_Valid (pe_Payload message)"
    "validateLiveSettingsWriter sid w (clk 1) d = Inr ()"
  using assms
  by (auto simp: CommitFileReferenceCommand_def transaction_def CommitFileReferenceCommand_tx_def
      queryFileReferenceCommand_def put_file_def split: if_splits sum.splits prod.splits option.splits err.splits)

text \<open>
  C22: a file-reference command and its user message are committed together: the message is the
  only event added to the session log, the command waits for delivery with the given message
  and fingerprints, a live writer had published the capability, and repeating the commit
  returns the same command as a duplicate without adding the message again.
\<close>

theorem file_commit_atomic:
  assumes ok: "CommitFileReferenceCommand sid message q clk d = (d', Inr (c, False))"
  shows "(\<exists>e. log_of d' sid = log_of d sid @ [e] \<and> ev_type e = ''session.message'' \<and>
        ev_payload e = pe_Payload message \<and> ev_seq e = latest_seq d sid + 1) \<and>
    FileReferenceCommand sid (fq_CommandID q) d' = Inr c \<and> fm_Status c = ''delivery_pending'' \<and>
    fm_MessageID c = fq_MessageID q \<and> fm_DeliveryDeadline c = fromMilli (clk 0 + 600000) \<and>
    (\<exists>w. validateLiveSettingsWriter sid w (clk 1) d = Inr ()) \<and>
    CommitFileReferenceCommand sid message q clk' d' = (d', Inr (c, True))"
  using ok
proof (cases rule: commit_ok)
  case (1 n d1 w)
  have d': "d' = d1\<lparr>session_file_reference_commands :=
      AList.update (sid, fq_CommandID q) (new_file_row q (clk 0)) (session_file_reference_commands d1)\<rparr>"
    using 1(3) by (auto simp: put_file_def split: if_splits)
  then have q: "queryFileReferenceCommand sid (fq_CommandID q) d' = Inr c"
    by (simp add: queryFileReferenceCommand_def 1(4))
  have "CommitFileReferenceCommand sid message q clk' d' = (d', Inr (c, True))"
    using ok q 1(4) by (auto simp: CommitFileReferenceCommand_def transaction_def
        CommitFileReferenceCommand_tx_def row_file_command_def new_file_row_def split: if_splits)
  then show ?thesis
    using q 1(4,7) lifecycle_event_frame [OF 1(2)] d'
    by (auto simp: rows_of_def FileReferenceCommand_def row_file_command_def new_file_row_def)
qed

definition demo_fp :: string where
  "demo_fp = ''sha256:'' @ replicate 64 (CHR ''a'')"

definition demo_file_writer :: SettingsWriter where
  "demo_file_writer = \<lparr>w_ConnectionEpoch = 1, w_CredentialGeneration = 1, w_LeaseID = ''lease''\<rparr>"

definition demo_file_db :: db where
  "demo_file_db = fst (PublishFileReferenceCapability ''s''
     \<lparr>fu_EventSeq = 1, fu_Fingerprint = demo_fp, fu_Writer = demo_file_writer\<rparr> (\<lambda>_. 8)
     (fst (Append ''s'' [\<lparr>pe_Type = ''session.file_references.capabilities'', pe_Time = fromMilli 6,
        pe_Payload = ''{}''\<rparr>] (\<lambda>_. 7) demo_bound)))"

definition demo_file_message :: PendingEvent where
  "demo_file_message = \<lparr>pe_Type = ''session.message'', pe_Time = fromMilli 9, pe_Payload = ''{}''\<rparr>"

definition demo_file_request :: FileReferenceCommandRequest where
  "demo_file_request = \<lparr>fq_CommandID = ''c'', fq_MessageID = ''m'', fq_CapabilityFingerprint = demo_fp,
     fq_RequestFingerprint = demo_fp, fq_ReferenceCount = 2\<rparr>"

definition demo_committed :: db where
  "demo_committed = fst (CommitFileReferenceCommand ''s'' demo_file_message demo_file_request (\<lambda>_. 9) demo_file_db)"

lemma demo_commit:
  "\<exists>c. CommitFileReferenceCommand ''s'' demo_file_message demo_file_request (\<lambda>_. 9) demo_file_db =
     (demo_committed, Inr (c, False))"
proof -
  have "case snd (CommitFileReferenceCommand ''s'' demo_file_message demo_file_request (\<lambda>_. 9) demo_file_db) of
      Inr (c, dup) \<Rightarrow> \<not> dup | Inl e \<Rightarrow> False" by code_simp
  then show ?thesis unfolding demo_committed_def
    by (cases "CommitFileReferenceCommand ''s'' demo_file_message demo_file_request (\<lambda>_. 9) demo_file_db")
      (auto split: sum.splits)
qed

theorem file_commit_atomic_witness:
  "\<exists>c. CommitFileReferenceCommand ''s'' demo_file_message demo_file_request (\<lambda>_. 9) demo_file_db =
       (demo_committed, Inr (c, False)) \<and>
     CommitFileReferenceCommand ''s'' demo_file_message demo_file_request (\<lambda>_. 10) demo_committed =
       (demo_committed, Inr (c, True))"
  using demo_commit file_commit_atomic [of "''s''" demo_file_message demo_file_request "\<lambda>_. 9" demo_file_db]
  by blast

lemma settle_file_succeeds:
  assumes wf: "wf d" and r: "map_of (session_file_reference_commands d) (sid, cmd) = Some r" "file_active r" "P r"
    and ev: "appendRunControlEventExecutor sid ty payload now d = Inr (d1, n)"
  shows "settle_file sid cmd P ''outcome_unknown'' n now lost d1 =
    Inr (d1\<lparr>session_file_reference_commands := AList.update (sid, cmd)
      (r\<lparr>fr_status := ''outcome_unknown'', fr_terminal_seq := Some n, fr_updated_ms := now\<rparr>)
      (session_file_reference_commands d)\<rparr>)"
proof -
  note d1 = lifecycle_event_frame [OF ev]
  have "has_event d1 sid n" using d1 by (simp add: event_exists_def)
  moreover have "check_file_row (sid, cmd) r"
    using tbl_okD [OF wf_tables(6) [OF wf] r(1)] by (simp add: file_ok_def)
  ultimately show ?thesis
    using d1 r by (auto simp: settle_file_def put_file_def check_file_row_def)
qed

lemma wf_file_row:
  assumes "wf d" "map_of (session_file_reference_commands d) (sid, cmd) = Some r"
  shows "cmd \<noteq> []" "1 \<le> fr_reservation_version r" "1 \<le> fr_reference_count r" "fr_reference_count r \<le> 8"
  using tbl_okD [OF wf_tables(6) [OF assms(1)] assms(2)]
  by (auto simp: file_ok_def check_file_row_def len_between_def sql_length_def)

text \<open>
  No file-reference command stays open for ever: on a well-formed store recovery with the
  reason \<^verbatim>\<open>adapter_deadline\<close> settles every open command as \<^verbatim>\<open>outcome_unknown\<close>, a delivered one at
  any time and an undelivered one as soon as its delivery deadline has passed.
\<close>

theorem file_recovery_succeeds:
  assumes wf: "wf d" and sid: "validConnectionID sid"
    and c: "FileReferenceCommand sid cmd d = Inr c" "fm_Status c = ''pending'' \<or>
      fm_Status c = ''delivery_pending'' \<and> fm_DeliveryDeadline c \<le> fromMilli (clk 0)"
  shows "\<exists>d' c'. RecoverFileReferenceCommand sid cmd ''adapter_deadline'' clk d = (d', Inr c') \<and>
      fm_Status c' = ''outcome_unknown'' \<and> fm_TerminalEventSeq c' = Some (latest_seq d sid + 1)"
proof -
  obtain r where r: "map_of (session_file_reference_commands d) (sid, cmd) = Some r"
    "c = row_file_command sid cmd r"
    using c(1) by (auto simp: FileReferenceCommand_def queryFileReferenceCommand_def split: option.splits)
  note row = wf_file_row [OF wf r(1)]
  obtain d1 where ev: "appendRunControlEventExecutor sid ''session.file_references.outcome''
      (file_outcome_payload (fr_message_id r) cmd ''outcome_unknown'' None (Some ''adapter_deadline'')) (clk 0) d =
      Inr (d1, latest_seq d sid + 1)"
    by (rule lifecycle_event_succeeds [OF wf_numbered [OF wf]])
  note settle = settle_file_succeeds [OF wf r(1) _ _ ev]
  show ?thesis
  proof (cases "fr_status r = ''pending''")
    case True
    have t: "ValidFileReferenceTerminal ''outcome_unknown'' (fr_reference_count r) (Some ''adapter_deadline'') None"
      using row by (simp add: ValidFileReferenceTerminal_def)
    show ?thesis
      using c r True row sid ev t
      by (simp add: RecoverFileReferenceCommand_def FileReferenceCommand_def queryFileReferenceCommand_def
          FinalizeFileReferenceCommand_def FinalizeFileReferenceCommand_tx_def transaction_def
          file_writer_authority_def row_file_command_def settle)
  next
    case False
    then have "fr_status r = ''delivery_pending''" "fr_delivery_deadline_ms r \<le> clk 0"
      using c(2) r(2) by (simp_all add: row_file_command_def fromMilli_def)
    then show ?thesis
      using c r ev by (simp add: RecoverFileReferenceCommand_def FileReferenceCommand_def
          queryFileReferenceCommand_def recover_delivery_tx_def transaction_def row_file_command_def settle)
  qed
qed

lemma demo_committed_wf: "wf demo_committed"
proof -
  have "wf demo_file_db" unfolding demo_file_db_def
    by (rule store_step_wf [OF PublishFileReferenceCapability_step store_step_wf [OF Append_step demo_wf(2)]])
  then show ?thesis unfolding demo_committed_def
    by (rule store_step_wf [OF CommitFileReferenceCommand_step])
qed

theorem file_recovery_succeeds_witness:
  "\<exists>d' c'. RecoverFileReferenceCommand ''s'' ''c'' ''adapter_deadline'' (\<lambda>_. 600009) demo_committed = (d', Inr c') \<and>
     fm_Status c' = ''outcome_unknown''"
proof -
  have "case FileReferenceCommand ''s'' ''c'' demo_committed of
      Inr c \<Rightarrow> fm_Status c = ''delivery_pending'' \<and> fm_DeliveryDeadline c \<le> fromMilli 600009
    | Inl e \<Rightarrow> False" by code_simp
  then obtain c where "FileReferenceCommand ''s'' ''c'' demo_committed = Inr c"
    "fm_Status c = ''delivery_pending''" "fm_DeliveryDeadline c \<le> fromMilli 600009"
    by (auto split: sum.splits)
  moreover have "validConnectionID ''s''" by code_simp
  ultimately show ?thesis using file_recovery_succeeds [OF demo_committed_wf, of "''s''" "''c''" c "\<lambda>_. 600009"]
    by blast
qed

end
