(* ===== verification/Settings.thy ===== *)
theory Settings
  imports Ledgers
begin

text \<open>
  The settings ledger of \<^verbatim>\<open>store/sqlite/store.go\<close>: an Adapter publishes its effective settings,
  a change is reserved against them, its delivery is acknowledged by the writer, and it settles
  as applied or with a reason, by the writer, by an elapsed deadline, or through recovery by a
  replacement writer.
\<close>

section \<open>Structs\<close>

record SettingsCapability =
  sp_SessionID :: string
  sp_EventSeq :: int
  sp_Fingerprint :: string
  sp_EffectiveModelID :: string
  sp_EffectiveReasoningEffortID :: "string option"
  sp_EffectivePermissionModeID :: string
  sp_Version :: int
  sp_Writer :: SettingsWriter

record SettingsCommandRequest =
  sq_CommandID :: string
  sq_RequestFingerprint :: string
  sq_RequestedModelID :: "string option"
  sq_RequestedReasoningEffortID :: "string option"
  sq_RequestedPermissionModeID :: "string option"
  sq_Writer :: SettingsWriter

record SettingsCommand_rec =
  so_SessionID :: string
  so_CommandID :: string
  so_RequestFingerprint :: string
  so_RequestedModelID :: "string option"
  so_RequestedReasoningEffortID :: "string option"
  so_RequestedPermissionModeID :: "string option"
  so_ReservationVersion :: int
  so_DeliveryDeadline :: gotime
  so_OperationDeadline :: "gotime option"
  so_Writer :: SettingsWriter
  so_ReservedCapability :: SettingsCapability
  so_Status :: string
  so_TerminalEventSeq :: "int option"

record SettingsCommandFinalize =
  sf_ReservationVersion :: int
  sf_ExpectedStatus :: string
  sf_Writer :: "SettingsWriter option"
  sf_Outcome :: string
  sf_ReasonCode :: "string option"
  sf_EffectiveCapability :: SettingsCapability

section \<open>Checks and rows\<close>

text \<open>
  An update (\<^verbatim>\<open>SettingsCapabilityUpdate\<close>) is a capability without session and version; it is
  given here as a capability, of which those two fields are not read.
\<close>

definition validSettingsCapabilityUpdate :: "string \<Rightarrow> SettingsCapability \<Rightarrow> bool" where
  "validSettingsCapabilityUpdate sid u \<longleftrightarrow>
     validConnectionID sid \<and> sp_EventSeq u > 0 \<and> validSettingsFingerprint (sp_Fingerprint u) \<and>
     validSettingsID (sp_EffectiveModelID u) \<and> opt_all validSettingsID (sp_EffectiveReasoningEffortID u) \<and>
     validSettingsID (sp_EffectivePermissionModeID u) \<and> validSettingsWriter (sp_Writer u)"

definition validSettingsCommandRequest :: "string \<Rightarrow> SettingsCommandRequest \<Rightarrow> bool" where
  "validSettingsCommandRequest sid q \<longleftrightarrow>
     validConnectionID sid \<and> sq_CommandID q \<noteq> [] \<and> length (sq_CommandID q) \<le> 256 \<and>
     validSettingsFingerprint (sq_RequestFingerprint q) \<and>
     (sq_RequestedModelID q \<noteq> None \<or> sq_RequestedReasoningEffortID q \<noteq> None \<or>
      sq_RequestedPermissionModeID q \<noteq> None) \<and>
     opt_all validSettingsID (sq_RequestedModelID q) \<and>
     opt_all validSettingsID (sq_RequestedReasoningEffortID q) \<and>
     opt_all validSettingsID (sq_RequestedPermissionModeID q) \<and> validSettingsWriter (sq_Writer q)"

definition validSettingsStatus :: "string \<Rightarrow> bool" where
  "validSettingsStatus status \<longleftrightarrow> status \<in> set (settings_nonterminal @ settings_terminal)"

definition validSettingsNonterminalStatus :: "string \<Rightarrow> bool" where
  "validSettingsNonterminalStatus status \<longleftrightarrow> status \<in> set settings_nonterminal"

definition validSettingsTerminalStatus :: "string \<Rightarrow> bool" where
  "validSettingsTerminalStatus status \<longleftrightarrow>
     validSettingsStatus status \<and> \<not> validSettingsNonterminalStatus status"

definition sameSettingsCapability :: "SettingsCapability \<Rightarrow> SettingsCapability \<Rightarrow> bool" where
  "sameSettingsCapability a b \<longleftrightarrow>
     sp_SessionID a = sp_SessionID b \<and> sp_EventSeq a = sp_EventSeq b \<and>
     sp_Fingerprint a = sp_Fingerprint b \<and> sp_EffectiveModelID a = sp_EffectiveModelID b \<and>
     sp_EffectiveReasoningEffortID a = sp_EffectiveReasoningEffortID b \<and>
     sp_EffectivePermissionModeID a = sp_EffectivePermissionModeID b \<and>
     sp_Version a = sp_Version b \<and> sp_Writer a = sp_Writer b"

definition validSettingsCommandRow :: "SettingsCommand_rec \<Rightarrow> bool" where
  "validSettingsCommandRow c \<longleftrightarrow>
     validSettingsCommandRequest (so_SessionID c)
       \<lparr>sq_CommandID = so_CommandID c, sq_RequestFingerprint = so_RequestFingerprint c,
        sq_RequestedModelID = so_RequestedModelID c,
        sq_RequestedReasoningEffortID = so_RequestedReasoningEffortID c,
        sq_RequestedPermissionModeID = so_RequestedPermissionModeID c, sq_Writer = so_Writer c\<rparr> \<and>
     so_ReservationVersion c > 0 \<and> so_DeliveryDeadline c \<noteq> zeroTime \<and>
     validSettingsStatus (so_Status c) \<and>
     sameSettingsCapability (so_ReservedCapability c)
       ((so_ReservedCapability c)\<lparr>sp_SessionID := so_SessionID c, sp_Version := 0, sp_Writer := so_Writer c\<rparr>) \<and>
     (\<not> validSettingsNonterminalStatus (so_Status c)) = (so_TerminalEventSeq c \<noteq> None)"

definition cap_row_capability :: "string \<Rightarrow> settings_cap_row \<Rightarrow> SettingsCapability" where
  "cap_row_capability sid r =
     \<lparr>sp_SessionID = sid, sp_EventSeq = sc_event_seq r, sp_Fingerprint = sc_fingerprint r,
      sp_EffectiveModelID = sc_model r, sp_EffectiveReasoningEffortID = sc_reasoning r,
      sp_EffectivePermissionModeID = sc_permission_mode r, sp_Version = sc_version r,
      sp_Writer = sc_writer r\<rparr>"

definition querySettingsCapability :: "string \<Rightarrow> db \<Rightarrow> SettingsCapability res" where
  "querySettingsCapability sid d =
     (case map_of (session_settings_capabilities d) sid of
        None \<Rightarrow> Inl NoRows
      | Some r \<Rightarrow>
          if \<not> validSettingsCapabilityUpdate sid (cap_row_capability sid r) \<or> sc_version r < 1
          then Inl (Fail ''settings capability row is invalid'')
          else Inr (cap_row_capability sid r))"

definition row_settings_command :: "string \<Rightarrow> string \<Rightarrow> settings_row \<Rightarrow> SettingsCommand_rec" where
  "row_settings_command sid cmd r =
     \<lparr>so_SessionID = sid, so_CommandID = cmd, so_RequestFingerprint = st_request_fingerprint r,
      so_RequestedModelID = st_requested_model r, so_RequestedReasoningEffortID = st_requested_reasoning r,
      so_RequestedPermissionModeID = st_requested_permission_mode r,
      so_ReservationVersion = st_reservation_version r,
      so_DeliveryDeadline = fromMilli (st_delivery_deadline_ms r),
      so_OperationDeadline = map_option fromMilli (st_operation_deadline_ms r), so_Writer = st_writer r,
      so_ReservedCapability =
        \<lparr>sp_SessionID = sid, sp_EventSeq = st_reserved_event_seq r,
         sp_Fingerprint = st_reserved_fingerprint r, sp_EffectiveModelID = st_reserved_model r,
         sp_EffectiveReasoningEffortID = st_reserved_reasoning r,
         sp_EffectivePermissionModeID = st_reserved_permission_mode r, sp_Version = 0,
         sp_Writer = st_writer r\<rparr>,
      so_Status = st_status r, so_TerminalEventSeq = st_terminal_seq r\<rparr>"

definition querySettingsCommand :: "string \<Rightarrow> string \<Rightarrow> db \<Rightarrow> SettingsCommand_rec res" where
  "querySettingsCommand sid cmd d =
     (case map_of (session_settings_commands d) (sid, cmd) of
        None \<Rightarrow> Inl NoRows
      | Some r \<Rightarrow>
          if validSettingsCommandRow (row_settings_command sid cmd r)
          then Inr (row_settings_command sid cmd r)
          else Inl (Fail ''settings command row is invalid''))"

definition verifySettingsCapabilityEvent :: "string \<Rightarrow> int \<Rightarrow> db \<Rightarrow> unit res" where
  "verifySettingsCapabilityEvent sid n d =
     (if n < 1 then Inl (Fail ''settings capability event reference is invalid'')
      else if map_option ev_type (event_at d sid n) = Some ''session.settings.capabilities'' then Inr ()
      else Inl (Fail ''settings capability event is not durable''))"

definition validateCurrentSettingsWriter :: "string \<Rightarrow> SettingsWriter \<Rightarrow> int \<Rightarrow> db \<Rightarrow> unit res" where
  "validateCurrentSettingsWriter sid writer now d =
     (if map_option sc_writer (map_of (session_settings_capabilities d) sid) \<noteq> Some writer
      then Inl (Fail ''settings writer is no longer current'')
      else validateLiveSettingsWriter sid writer now d)"

definition SettingsTerminalEventPayload ::
  "SettingsCommand_rec \<Rightarrow> SettingsCapability \<Rightarrow> string \<Rightarrow> string option \<Rightarrow> bytes" where
  "SettingsTerminalEventPayload command capability outcome reason =
     print_json (JObj [(''cmd_id'', JStr (so_CommandID command)),
       (''request_fingerprint'', JStr (so_RequestFingerprint command)),
       (''effective_fingerprint'', JStr (sp_Fingerprint capability)), (''outcome'', JStr outcome),
       (''effective_model_id'', JStr (sp_EffectiveModelID capability)),
       (''effective_reasoning_effort_id'', jopt (sp_EffectiveReasoningEffortID capability)),
       (''effective_permission_mode_id'', JStr (sp_EffectivePermissionModeID capability)),
       (''reason_code'', jopt reason)])"

definition applied_matches :: "SettingsCommand_rec \<Rightarrow> SettingsCapability \<Rightarrow> bool" where
  "applied_matches command capability \<longleftrightarrow>
     (case so_RequestedModelID command of
        None \<Rightarrow> sp_EffectiveModelID (so_ReservedCapability command) = sp_EffectiveModelID capability
      | Some m \<Rightarrow> m = sp_EffectiveModelID capability) \<and>
     (case so_RequestedReasoningEffortID command of
        None \<Rightarrow> sp_EffectiveReasoningEffortID (so_ReservedCapability command) =
                sp_EffectiveReasoningEffortID capability
      | Some m \<Rightarrow> sp_EffectiveReasoningEffortID capability = Some m) \<and>
     (case so_RequestedPermissionModeID command of
        None \<Rightarrow> sp_EffectivePermissionModeID (so_ReservedCapability command) =
                sp_EffectivePermissionModeID capability
      | Some m \<Rightarrow> m = sp_EffectivePermissionModeID capability)"

definition validateSettingsFinalization ::
  "SettingsCommand_rec \<Rightarrow> SettingsCapability \<Rightarrow> SettingsCommandFinalize \<Rightarrow> int \<Rightarrow> unit res" where
  "validateSettingsFinalization command capability fin now =
     (if sf_Outcome fin = ''applied'' \<and> (sf_ReasonCode fin \<noteq> None \<or> \<not> applied_matches command capability)
      then Inl (Fail ''applied settings finalization does not match the request'')
      else if sf_Outcome fin \<noteq> ''applied'' \<and> \<not> validSettingsReason (sf_ReasonCode fin)
      then Inl (Fail ''non-applied settings finalization requires a bounded reason'')
      else if sf_ExpectedStatus fin = ''delivery_pending''
      then if sf_Writer fin \<noteq> None \<or> sf_Outcome fin \<noteq> ''rejected'' \<or>
              sf_ReasonCode fin \<noteq> Some ''adapter_delivery_failed'' \<or>
              UnixMilli (so_DeliveryDeadline command) > now
           then Inl (Fail ''delivery-pending settings command may only reject'') else Inr ()
      else if sf_ExpectedStatus fin = ''pending''
      then if sf_Writer fin \<noteq> None \<and>
              (case so_OperationDeadline command of None \<Rightarrow> True | Some t \<Rightarrow> UnixMilli t \<le> now)
           then Inl (Fail ''settings operation deadline has elapsed'')
           else if sf_Writer fin = None \<and>
              (sf_Outcome fin \<noteq> ''timeout'' \<or>
               (case so_OperationDeadline command of None \<Rightarrow> True | Some t \<Rightarrow> UnixMilli t > now))
           then Inl (Fail ''unbound pending settings finalization requires an elapsed operation deadline'')
           else Inr ()
      else if sf_ExpectedStatus fin = ''recovery_pending''
      then if sf_Writer fin \<noteq> None \<or> sf_Outcome fin \<noteq> ''outcome_unknown'' \<or>
              sp_Writer capability = so_Writer command \<or>
              sp_EventSeq capability \<le> sp_EventSeq (so_ReservedCapability command)
           then Inl (Fail ''recovery-pending settings command may only finalize unknown without an old writer'')
           else Inr ()
      else Inl (Fail ''settings finalization expected status is not nonterminal''))"

section \<open>Operations\<close>

definition PublishSettingsCapability_tx ::
  "string \<Rightarrow> SettingsCapability \<Rightarrow> clock \<Rightarrow> db \<Rightarrow> (db \<times> SettingsCapability) res" where
  "PublishSettingsCapability_tx sid u clk d =
     res_bind (lockCommandAuthority sid (writer_authority (sp_Writer u)) (clk 1) d) (\<lambda>_.
     res_bind (validateLiveSettingsWriter sid (sp_Writer u) (clk 2) d) (\<lambda>_.
     res_bind (verifySettingsCapabilityEvent sid (sp_EventSeq u) d) (\<lambda>_.
     let old = map_of (session_settings_capabilities d) sid;
         row = \<lparr>sc_event_seq = sp_EventSeq u, sc_fingerprint = sp_Fingerprint u,
                sc_model = sp_EffectiveModelID u, sc_reasoning = sp_EffectiveReasoningEffortID u,
                sc_permission_mode = sp_EffectivePermissionModeID u,
                sc_version = (case old of None \<Rightarrow> 1 | Some r \<Rightarrow> sc_version r + 1),
                sc_writer = sp_Writer u,
                sc_created_ms = (case old of None \<Rightarrow> clk 0 | Some r \<Rightarrow> sc_created_ms r),
                sc_updated_ms = clk 0\<rparr>
     in res_bind (put_settings_cap sid row d) (\<lambda>d.
        res_bind (querySettingsCapability sid d) (\<lambda>c. Inr (d, c))))))"

definition PublishSettingsCapability ::
  "string \<Rightarrow> SettingsCapability \<Rightarrow> clock \<Rightarrow> db \<Rightarrow> db \<times> SettingsCapability res" where
  "PublishSettingsCapability sid u clk d =
     (if \<not> validSettingsCapabilityUpdate sid u then (d, Inl (Fail ''invalid settings capability''))
      else transaction (PublishSettingsCapability_tx sid u clk) d)"

definition new_settings_row :: "SettingsCommandRequest \<Rightarrow> SettingsCapability \<Rightarrow> int \<Rightarrow> settings_row" where
  "new_settings_row q c now =
     \<lparr>st_request_fingerprint = sq_RequestFingerprint q, st_requested_model = sq_RequestedModelID q,
      st_requested_reasoning = sq_RequestedReasoningEffortID q,
      st_requested_permission_mode = sq_RequestedPermissionModeID q, st_reservation_version = 1,
      st_delivery_deadline_ms = now + 5000, st_operation_deadline_ms = None, st_writer = sq_Writer q,
      st_reserved_event_seq = sp_EventSeq c, st_reserved_fingerprint = sp_Fingerprint c,
      st_reserved_model = sp_EffectiveModelID c, st_reserved_reasoning = sp_EffectiveReasoningEffortID c,
      st_reserved_permission_mode = sp_EffectivePermissionModeID c, st_status = ''delivery_pending'',
      st_terminal_seq = None, st_created_ms = now, st_updated_ms = now\<rparr>"

definition SettingsCommandReserve_tx ::
  "string \<Rightarrow> SettingsCommandRequest \<Rightarrow> clock \<Rightarrow> db \<Rightarrow> (db \<times> SettingsCommand_rec \<times> bool) res" where
  "SettingsCommandReserve_tx sid q clk d =
     res_bind (lockCommandAuthority sid (writer_authority (sq_Writer q)) (clk 1) d) (\<lambda>_.
     res_bind (validateCurrentSettingsWriter sid (sq_Writer q) (clk 2) d) (\<lambda>_.
     res_bind (querySettingsCapability sid d) (\<lambda>capability.
     case querySettingsCommand sid (sq_CommandID q) d of
       Inr existing \<Rightarrow>
         if so_RequestFingerprint existing \<noteq> sq_RequestFingerprint q \<or>
            so_RequestedModelID existing \<noteq> sq_RequestedModelID q \<or>
            so_RequestedReasoningEffortID existing \<noteq> sq_RequestedReasoningEffortID q \<or>
            so_RequestedPermissionModeID existing \<noteq> sq_RequestedPermissionModeID q
         then Inl (Fail ''settings command ID is reused'')
         else Inr (d, existing, True)
     | Inl (Fail e) \<Rightarrow> Inl (Fail e)
     | Inl NoRows \<Rightarrow>
         if sp_Fingerprint capability \<noteq> sq_RequestFingerprint q \<or> sp_Writer capability \<noteq> sq_Writer q
         then Inl (Fail ''settings capability is stale or writer is fenced'')
         else
           res_bind (put_settings (sid, sq_CommandID q) (new_settings_row q capability (clk 0)) d) (\<lambda>d.
           res_bind (querySettingsCommand sid (sq_CommandID q) d) (\<lambda>command.
           Inr (d, command, False))))))"

definition SettingsCommandReserve ::
  "string \<Rightarrow> SettingsCommandRequest \<Rightarrow> clock \<Rightarrow> db \<Rightarrow> db \<times> (SettingsCommand_rec \<times> bool) res" where
  "SettingsCommandReserve sid q clk d =
     (if \<not> validSettingsCommandRequest sid q
      then (d, Inl (Fail ''invalid settings command reservation''))
      else transaction (SettingsCommandReserve_tx sid q clk) d)"

text \<open>An update of one command row, guarded by the statement's \<^verbatim>\<open>WHERE\<close> clause.\<close>

definition update_settings ::
  "string \<Rightarrow> string \<Rightarrow> (settings_row \<Rightarrow> bool) \<Rightarrow> (settings_row \<Rightarrow> settings_row) \<Rightarrow> string \<Rightarrow> db \<Rightarrow> db res" where
  "update_settings sid cmd P upd lost d =
     (case map_of (session_settings_commands d) (sid, cmd) of
        None \<Rightarrow> Inl (Fail lost)
      | Some r \<Rightarrow> if P r then put_settings (sid, cmd) (upd r) d else Inl (Fail lost))"

definition AcknowledgeSettingsCommandDelivery_tx ::
  "string \<Rightarrow> string \<Rightarrow> int \<Rightarrow> SettingsWriter \<Rightarrow> clock \<Rightarrow> db \<Rightarrow> (db \<times> SettingsCommand_rec) res" where
  "AcknowledgeSettingsCommandDelivery_tx sid cmd version writer clk d =
     res_bind (lockCommandAuthority sid (writer_authority writer) (clk 1) d) (\<lambda>_.
     res_bind (validateCurrentSettingsWriter sid writer (clk 2) d) (\<lambda>_.
     res_bind (querySettingsCommand sid cmd d) (\<lambda>command.
     if so_ReservationVersion command \<noteq> version \<or> so_Writer command \<noteq> writer \<or>
        so_Status command \<noteq> ''delivery_pending'' \<or> UnixMilli (so_DeliveryDeadline command) \<le> clk 0
     then Inl (Fail ''settings delivery acknowledgement is fenced'')
     else
       res_bind (update_settings sid cmd
           (\<lambda>r. st_reservation_version r = version \<and> st_status r = ''delivery_pending'' \<and>
                st_delivery_deadline_ms r > clk 0 \<and> st_writer r = writer)
           (\<lambda>r. r\<lparr>st_status := ''pending'', st_operation_deadline_ms := Some (clk 0 + 30000),
                  st_updated_ms := clk 0\<rparr>)
           ''settings delivery acknowledgement lost race'' d) (\<lambda>d.
       res_bind (querySettingsCommand sid cmd d) (\<lambda>command. Inr (d, command))))))"

definition AcknowledgeSettingsCommandDelivery ::
  "string \<Rightarrow> string \<Rightarrow> int \<Rightarrow> SettingsWriter \<Rightarrow> clock \<Rightarrow> db \<Rightarrow> db \<times> SettingsCommand_rec res" where
  "AcknowledgeSettingsCommandDelivery sid cmd version writer clk d =
     (if \<not> validConnectionID sid \<or> cmd = [] \<or> version < 1 \<or> \<not> validSettingsWriter writer
      then (d, Inl (Fail ''invalid settings delivery acknowledgement''))
      else transaction (AcknowledgeSettingsCommandDelivery_tx sid cmd version writer clk) d)"

definition settle_settings ::
  "string \<Rightarrow> string \<Rightarrow> (settings_row \<Rightarrow> bool) \<Rightarrow> string \<Rightarrow> bytes \<Rightarrow> int \<Rightarrow> string \<Rightarrow> db \<Rightarrow> db res" where
  "settle_settings sid cmd P outcome payload now lost d =
     res_bind (appendRunControlEventExecutor sid ''session.settings.effective'' payload now d) (\<lambda>(d, seq).
     update_settings sid cmd (\<lambda>r. P r \<and> st_terminal_seq r = None)
       (\<lambda>r. r\<lparr>st_status := outcome, st_terminal_seq := Some seq, st_updated_ms := now\<rparr>) lost d)"

definition RecoverSettingsCommand_tx ::
  "string \<Rightarrow> string \<Rightarrow> SettingsWriter \<Rightarrow> clock \<Rightarrow> db \<Rightarrow> (db \<times> SettingsCommand_rec) res" where
  "RecoverSettingsCommand_tx sid cmd prior clk d =
     res_bind (querySettingsCommand sid cmd d) (\<lambda>command.
     if so_Writer command \<noteq> prior then Inl (Fail ''settings recovery lost writer fence'')
     else
       res_bind
         (if so_Status command = ''delivery_pending''
          then if UnixMilli (so_DeliveryDeadline command) > clk 0
               then Inl (Fail ''settings delivery deadline has not elapsed'')
               else settle_settings sid cmd
                 (\<lambda>r. st_status r = ''delivery_pending'' \<and> st_delivery_deadline_ms r \<le> clk 0) ''rejected''
                 (SettingsTerminalEventPayload command (so_ReservedCapability command) ''rejected''
                    (Some ''adapter_delivery_failed'')) (clk 0)
                 ''settings delivery deadline finalization lost race'' d
          else if so_Status command \<noteq> ''pending''
          then Inl (Fail ''settings recovery requires a pending command'')
          else case querySettingsCapability sid d of
              Inl _ \<Rightarrow> Inl (Fail ''settings recovery requires a fresh replacement writer'')
            | Inr capability \<Rightarrow>
                if sp_Writer capability = prior \<or>
                   sp_EventSeq capability \<le> sp_EventSeq (so_ReservedCapability command)
                then Inl (Fail ''settings recovery requires a fresh replacement writer'')
                else if validateLiveSettingsWriter sid (sp_Writer capability) (clk 1) d \<noteq> Inr ()
                then Inl (Fail ''settings recovery replacement writer is not live'')
                else update_settings sid cmd
                  (\<lambda>r. st_status r = ''pending'' \<and> st_writer r = prior)
                  (\<lambda>r. r\<lparr>st_status := ''recovery_pending'', st_updated_ms := clk 0\<rparr>)
                  ''settings recovery lost writer fence'' d)
         (\<lambda>d. res_bind (querySettingsCommand sid cmd d) (\<lambda>command. Inr (d, command))))"

definition RecoverSettingsCommand ::
  "string \<Rightarrow> string \<Rightarrow> SettingsWriter \<Rightarrow> clock \<Rightarrow> db \<Rightarrow> db \<times> SettingsCommand_rec res" where
  "RecoverSettingsCommand sid cmd prior clk d =
     (if \<not> validConnectionID sid \<or> cmd = [] \<or> \<not> validSettingsWriter prior
      then (d, Inl (Fail ''invalid settings recovery''))
      else transaction (RecoverSettingsCommand_tx sid cmd prior clk) d)"

definition bound_writer :: "string \<Rightarrow> SettingsWriter option \<Rightarrow> clock \<Rightarrow> db \<Rightarrow> unit res" where
  "bound_writer sid writer clk d =
     (case writer of
        None \<Rightarrow> Inr ()
      | Some w \<Rightarrow> res_bind (lockCommandAuthority sid (writer_authority w) (clk 1) d) (\<lambda>_.
          validateCurrentSettingsWriter sid w (clk 2) d))"

definition FinalizeSettingsCommand_tx ::
  "string \<Rightarrow> string \<Rightarrow> SettingsCommandFinalize \<Rightarrow> clock \<Rightarrow> db \<Rightarrow> (db \<times> SettingsCommand_rec) res" where
  "FinalizeSettingsCommand_tx sid cmd fin clk d =
     res_bind (querySettingsCommand sid cmd d) (\<lambda>command.
     if so_ReservationVersion command \<noteq> sf_ReservationVersion fin \<or>
        so_Status command \<noteq> sf_ExpectedStatus fin \<or>
        (sf_Writer fin \<noteq> None \<and> sf_Writer fin \<noteq> Some (so_Writer command))
     then Inl (Fail ''settings finalization is fenced'')
     else
       res_bind (bound_writer sid (sf_Writer fin) clk d) (\<lambda>_.
       case querySettingsCapability sid d of
         Inl _ \<Rightarrow> Inl (Fail ''effective settings capability is not current'')
       | Inr capability \<Rightarrow>
           if \<not> sameSettingsCapability capability (sf_EffectiveCapability fin)
           then Inl (Fail ''effective settings capability is not current'')
           else
             res_bind (validateSettingsFinalization command capability fin (clk 0)) (\<lambda>_.
             res_bind (settle_settings sid cmd
                 (\<lambda>r. st_reservation_version r = sf_ReservationVersion fin \<and>
                      st_status r = sf_ExpectedStatus fin) (sf_Outcome fin)
                 (SettingsTerminalEventPayload command capability (sf_Outcome fin) (sf_ReasonCode fin))
                 (clk 0) ''settings finalization lost race'' d) (\<lambda>d.
             res_bind (querySettingsCommand sid cmd d) (\<lambda>command. Inr (d, command))))))"

definition validSettingsFinalize :: "string \<Rightarrow> string \<Rightarrow> SettingsCommandFinalize \<Rightarrow> bool" where
  "validSettingsFinalize sid cmd fin \<longleftrightarrow>
     validConnectionID sid \<and> cmd \<noteq> [] \<and> sf_ReservationVersion fin \<ge> 1 \<and>
     validSettingsNonterminalStatus (sf_ExpectedStatus fin) \<and>
     validSettingsTerminalStatus (sf_Outcome fin) \<and>
     validSettingsCapabilityUpdate sid (sf_EffectiveCapability fin) \<and>
     (sp_SessionID (sf_EffectiveCapability fin) = [] \<or> sp_SessionID (sf_EffectiveCapability fin) = sid)"

definition FinalizeSettingsCommand ::
  "string \<Rightarrow> string \<Rightarrow> SettingsCommandFinalize \<Rightarrow> clock \<Rightarrow> db \<Rightarrow> db \<times> SettingsCommand_rec res" where
  "FinalizeSettingsCommand sid cmd fin clk d =
     (if \<not> validSettingsFinalize sid cmd fin then (d, Inl (Fail ''invalid settings finalization''))
      else transaction (FinalizeSettingsCommand_tx sid cmd fin clk) d)"

definition SettingsCommand :: "string \<Rightarrow> string \<Rightarrow> db \<Rightarrow> SettingsCommand_rec res" where
  "SettingsCommand sid cmd d = querySettingsCommand sid cmd d"

fun query_settings_commands :: "string \<Rightarrow> string list \<Rightarrow> db \<Rightarrow> SettingsCommand_rec list res" where
  "query_settings_commands sid [] d = Inr []"
| "query_settings_commands sid (cmd # cmds) d =
     res_bind (querySettingsCommand sid cmd d) (\<lambda>r.
     res_bind (query_settings_commands sid cmds d) (\<lambda>rs. Inr (r # rs)))"

definition PendingSettingsCommands :: "string \<Rightarrow> db \<Rightarrow> SettingsCommand_rec list res" where
  "PendingSettingsCommands sid d =
     (if \<not> validConnectionID sid then Inl (Fail ''invalid settings pending Session'')
      else query_settings_commands sid
        (map (\<lambda>(k, r). snd k)
          (sort_key (\<lambda>(k, r). st_reservation_version r)
            (filter (\<lambda>(k, r). fst k = sid \<and> settings_active r) (session_settings_commands d)))) d)"

section \<open>Every operation is a store step\<close>

lemma update_settings_ok:
  assumes "update_settings sid cmd P upd lost d = Inr d'"
  obtains r where "map_of (session_settings_commands d) (sid, cmd) = Some r" "P r"
    "put_settings (sid, cmd) (upd r) d = Inr d'"
  using assms by (auto simp: update_settings_def split: option.splits if_splits)

lemma update_settings_step:
  assumes "update_settings sid cmd P upd lost d = Inr d'" "\<And>r. P r \<Longrightarrow> settings_active r"
  shows "store_step d d'"
  using assms(1)
proof (cases rule: update_settings_ok)
  case (1 r)
  show ?thesis by (rule store_step_settings [OF 1(3)]) (use 1 assms(2) in simp)
qed

lemma settle_settings_step:
  assumes "settle_settings sid cmd P outcome payload now lost d = Inr d'" "\<And>r. P r \<Longrightarrow> settings_active r"
  shows "store_step d d'"
proof -
  obtain d1 n where ev: "appendRunControlEventExecutor sid ''session.settings.effective'' payload now d = Inr (d1, n)"
    and upd: "update_settings sid cmd (\<lambda>r. P r \<and> st_terminal_seq r = None)
       (\<lambda>r. r\<lparr>st_status := outcome, st_terminal_seq := Some n, st_updated_ms := now\<rparr>) lost d1 = Inr d'"
    using assms(1) by (auto simp: settle_settings_def)
  have "store_step d1 d'" by (rule update_settings_step [OF upd]) (use assms(2) in simp)
  then show ?thesis by (rule store_step_trans [OF store_step_lifecycle [OF ev]])
qed

lemma PublishSettingsCapability_step: "store_step d (fst (PublishSettingsCapability sid u clk d))"
proof -
  have "store_step d d'" if "PublishSettingsCapability_tx sid u clk d = Inr (d', c)" for d' c
    using that unfolding PublishSettingsCapability_tx_def Let_def by (auto dest: store_step_caps(1))
  then show ?thesis by (auto simp: PublishSettingsCapability_def intro!: transaction_step)
qed

lemma SettingsCommandReserve_step: "store_step d (fst (SettingsCommandReserve sid q clk d))"
proof -
  have "store_step d d'" if "SettingsCommandReserve_tx sid q clk d = Inr (d', x)" for d' x
    using that unfolding SettingsCommandReserve_tx_def
    by (auto simp: querySettingsCommand_def split: if_splits sum.splits err.splits option.splits
        elim!: store_step_settings)
  then show ?thesis by (auto simp: SettingsCommandReserve_def intro!: transaction_step)
qed

lemma nonterminal_active [simp]:
  "''delivery_pending'' \<in> set settings_nonterminal" "''pending'' \<in> set settings_nonterminal"
  "''recovery_pending'' \<in> set settings_nonterminal"
  by (simp_all add: settings_nonterminal_def)

lemma AcknowledgeSettingsCommandDelivery_step:
  "store_step d (fst (AcknowledgeSettingsCommandDelivery sid cmd v w clk d))"
proof -
  have "store_step d d'" if "AcknowledgeSettingsCommandDelivery_tx sid cmd v w clk d = Inr (d', c)" for d' c
    using that unfolding AcknowledgeSettingsCommandDelivery_tx_def
    by (auto split: if_splits dest!: update_settings_step)
  then show ?thesis by (auto simp: AcknowledgeSettingsCommandDelivery_def intro!: transaction_step)
qed

lemma RecoverSettingsCommand_step: "store_step d (fst (RecoverSettingsCommand sid cmd w clk d))"
proof -
  have "store_step d d'" if "RecoverSettingsCommand_tx sid cmd w clk d = Inr (d', c)" for d' c
    using that unfolding RecoverSettingsCommand_tx_def
    by (auto split: if_splits sum.splits dest!: update_settings_step settle_settings_step)
  then show ?thesis by (auto simp: RecoverSettingsCommand_def intro!: transaction_step)
qed

lemma FinalizeSettingsCommand_step: "store_step d (fst (FinalizeSettingsCommand sid cmd fin clk d))"
proof (cases "validSettingsFinalize sid cmd fin")
  case True
  have "store_step d d'" if "FinalizeSettingsCommand_tx sid cmd fin clk d = Inr (d', c)" for d' c
    using that True unfolding FinalizeSettingsCommand_tx_def
    by (auto simp: validSettingsFinalize_def validSettingsNonterminalStatus_def
        split: if_splits sum.splits dest!: settle_settings_step)
  then show ?thesis by (auto simp: FinalizeSettingsCommand_def intro!: transaction_step)
qed (simp add: FinalizeSettingsCommand_def)

lemmas settings_steps = PublishSettingsCapability_step SettingsCommandReserve_step
  AcknowledgeSettingsCommandDelivery_step RecoverSettingsCommand_step FinalizeSettingsCommand_step

section \<open>Properties\<close>

lemma query_settings_ok:
  "querySettingsCommand sid cmd d = Inr c \<longleftrightarrow>
   (\<exists>r. map_of (session_settings_commands d) (sid, cmd) = Some r \<and> c = row_settings_command sid cmd r \<and>
      validSettingsCommandRow c)"
  by (auto simp: querySettingsCommand_def split: option.splits if_splits)

lemma settle_settings_ok:
  assumes "settle_settings sid cmd P outcome payload now lost d = Inr d'"
  obtains r where "map_of (session_settings_commands d) (sid, cmd) = Some r" "P r"
    "session_events d' = session_events d @ [\<lparr>ev_session = sid, ev_seq = latest_seq d sid + 1,
       ev_type = ''session.settings.effective'', ev_payload = payload, ev_time_ms = now, ev_created_ms = now\<rparr>]"
    "session_settings_commands d' = AList.update (sid, cmd)
       (r\<lparr>st_status := outcome, st_terminal_seq := Some (latest_seq d sid + 1), st_updated_ms := now\<rparr>)
       (session_settings_commands d)"
  using assms unfolding settle_settings_def
  by (auto dest!: lifecycle_event_frame elim!: update_settings_ok simp: put_settings_def split: if_splits)

text \<open>
  C21: a settings change is only recorded as applied by the writer that reserved it, with current
  authority, before its operation deadline, and only when the Adapter's current effective
  settings are exactly the requested values where a value was requested and the values reserved
  against everywhere else; the outcome event is the one event added.
\<close>

theorem settings_applied_exact:
  assumes ok: "FinalizeSettingsCommand sid cmd fin clk d = (d', Inr c)" and applied: "sf_Outcome fin = ''applied''"
  shows "\<exists>row cap.
      map_of (session_settings_commands d) (sid, cmd) = Some row \<and> st_status row = ''pending'' \<and>
      map_of (session_settings_capabilities d) sid = Some cap \<and>
      sf_Writer fin = Some (st_writer row) \<and> sc_writer cap = st_writer row \<and>
      current_authority d sid (writer_authority (st_writer row)) (clk 1) \<and>
      (\<exists>t. st_operation_deadline_ms row = Some t \<and> clk 0 < t) \<and>
      sc_model cap = (case st_requested_model row of None \<Rightarrow> st_reserved_model row | Some m \<Rightarrow> m) \<and>
      sc_reasoning cap = (case st_requested_reasoning row of None \<Rightarrow> st_reserved_reasoning row | Some m \<Rightarrow> Some m) \<and>
      sc_permission_mode cap =
        (case st_requested_permission_mode row of None \<Rightarrow> st_reserved_permission_mode row | Some m \<Rightarrow> m) \<and>
      so_Status c = ''applied'' \<and>
      (\<exists>e. log_of d' sid = log_of d sid @ [e] \<and> ev_type e = ''session.settings.effective'' \<and>
        so_TerminalEventSeq c = Some (ev_seq e))"
proof -
  obtain row cap where row: "map_of (session_settings_commands d) (sid, cmd) = Some row"
      "map_of (session_settings_capabilities d) sid = Some cap"
    and guard: "sf_ExpectedStatus fin = st_status row"
      "sf_Writer fin \<noteq> None \<longrightarrow> sf_Writer fin = Some (st_writer row)"
      "bound_writer sid (sf_Writer fin) clk d = Inr ()"
      "validateSettingsFinalization (row_settings_command sid cmd row) (cap_row_capability sid cap) fin (clk 0) = Inr ()"
    and settle: "settle_settings sid cmd (\<lambda>r. st_reservation_version r = sf_ReservationVersion fin \<and>
        st_status r = sf_ExpectedStatus fin) (sf_Outcome fin)
        (SettingsTerminalEventPayload (row_settings_command sid cmd row) (cap_row_capability sid cap) (sf_Outcome fin)
          (sf_ReasonCode fin)) (clk 0) ''settings finalization lost race'' d = Inr d'"
    and c: "querySettingsCommand sid cmd d' = Inr c"
    using ok
    by (auto simp: FinalizeSettingsCommand_def transaction_def FinalizeSettingsCommand_tx_def query_settings_ok
        querySettingsCapability_def row_settings_command_def split: if_splits sum.splits option.splits)
  have status: "st_status row = ''pending''" and writer: "sf_Writer fin = Some (st_writer row)"
    and deadline: "\<exists>t. st_operation_deadline_ms row = Some t \<and> clk 0 < t"
    and same: "applied_matches (row_settings_command sid cmd row) (cap_row_capability sid cap)"
    using guard(1,2,4) applied
    by (auto simp: validateSettingsFinalization_def row_settings_command_def split: if_splits option.splits)
  have auth: "current_authority d sid (writer_authority (st_writer row)) (clk 1)" "sc_writer cap = st_writer row"
    using guard(3) writer row(2)
    by (auto simp: bound_writer_def lockCommandAuthority_def validateCurrentSettingsWriter_def split: if_splits)
  have "so_Status c = ''applied''" "so_TerminalEventSeq c = Some (latest_seq d sid + 1)"
    using c settle applied
    by (auto elim!: settle_settings_ok simp: query_settings_ok row_settings_command_def)
  moreover have "\<exists>e. log_of d' sid = log_of d sid @ [e] \<and> ev_type e = ''session.settings.effective'' \<and>
      ev_seq e = latest_seq d sid + 1"
    using settle by (auto elim!: settle_settings_ok simp: rows_of_def)
  ultimately show ?thesis
    using row status writer deadline auth same
    by (auto simp: applied_matches_def row_settings_command_def cap_row_capability_def split: option.splits)
qed

definition demo_settings_writer :: SettingsWriter where
  "demo_settings_writer = \<lparr>w_ConnectionEpoch = 1, w_CredentialGeneration = 1, w_LeaseID = ''lease''\<rparr>"

definition demo_settings :: "string \<Rightarrow> int \<Rightarrow> SettingsCapability" where
  "demo_settings model n = \<lparr>sp_SessionID = ''s'', sp_EventSeq = n, sp_Fingerprint = ''sha256:'' @ replicate 64 (CHR ''a''),
     sp_EffectiveModelID = model, sp_EffectiveReasoningEffortID = None, sp_EffectivePermissionModeID = ''ask'',
     sp_Version = n, sp_Writer = demo_settings_writer\<rparr>"

definition demo_change :: SettingsCommandRequest where
  "demo_change = \<lparr>sq_CommandID = ''c'', sq_RequestFingerprint = ''sha256:'' @ replicate 64 (CHR ''a''),
     sq_RequestedModelID = Some ''new'', sq_RequestedReasoningEffortID = None,
     sq_RequestedPermissionModeID = None, sq_Writer = demo_settings_writer\<rparr>"

definition demo_settings_log :: db where
  "demo_settings_log = fst (Append ''s'' (replicate 2 \<lparr>pe_Type = ''session.settings.capabilities'',
     pe_Time = fromMilli 6, pe_Payload = ''{}''\<rparr>) (\<lambda>_. 7) demo_bound)"

definition demo_offered :: db where
  "demo_offered = fst (SettingsCommandReserve ''s'' demo_change (\<lambda>_. 9)
     (fst (PublishSettingsCapability ''s'' (demo_settings ''old'' 1) (\<lambda>_. 8) demo_settings_log)))"

definition demo_changed :: db where
  "demo_changed = fst (PublishSettingsCapability ''s'' (demo_settings ''new'' 2) (\<lambda>_. 11)
     (fst (AcknowledgeSettingsCommandDelivery ''s'' ''c'' 1 demo_settings_writer (\<lambda>_. 10) demo_offered)))"

definition demo_applied :: SettingsCommandFinalize where
  "demo_applied = \<lparr>sf_ReservationVersion = 1, sf_ExpectedStatus = ''pending'', sf_Writer = Some demo_settings_writer,
     sf_Outcome = ''applied'', sf_ReasonCode = None, sf_EffectiveCapability = demo_settings ''new'' 2\<rparr>"

theorem settings_applied_exact_witness:
  "\<exists>d' c. FinalizeSettingsCommand ''s'' ''c'' demo_applied (\<lambda>_. 12) demo_changed = (d', Inr c) \<and>
     so_Status c = ''applied''"
proof -
  have "case snd (FinalizeSettingsCommand ''s'' ''c'' demo_applied (\<lambda>_. 12) demo_changed) of
      Inr c \<Rightarrow> True | Inl e \<Rightarrow> False" by code_simp
  then obtain d' c where f: "FinalizeSettingsCommand ''s'' ''c'' demo_applied (\<lambda>_. 12) demo_changed = (d', Inr c)"
    by (cases "FinalizeSettingsCommand ''s'' ''c'' demo_applied (\<lambda>_. 12) demo_changed") (auto split: sum.splits)
  then show ?thesis using settings_applied_exact [OF f] by (auto simp: demo_applied_def)
qed

text \<open>
  C36: the deadlines of a settings change stay within their bounds: whenever the reserving writer
  acknowledges delivery with current authority before the delivery deadline, the
  acknowledgement succeeds, and the operation deadline it sets lies 30 seconds ahead and at most
  35 seconds after the reservation.
\<close>

theorem settings_ack_bounds:
  assumes wf: "wf d" and valid: "validConnectionID sid" "cmd \<noteq> []" "validSettingsWriter w"
    and auth: "lockCommandAuthority sid (writer_authority w) (clk 1) d = Inr ()"
      "validateCurrentSettingsWriter sid w (clk 2) d = Inr ()"
    and c: "SettingsCommand sid cmd d = Inr c" "so_Status c = ''delivery_pending''" "so_Writer c = w"
    and row: "map_of (session_settings_commands d) (sid, cmd) = Some row"
    and now: "st_created_ms row \<le> clk 0" "clk 0 < st_delivery_deadline_ms row"
  shows "\<exists>d' c'. AcknowledgeSettingsCommandDelivery sid cmd (so_ReservationVersion c) w clk d = (d', Inr c') \<and>
      so_Status c' = ''pending'' \<and> so_OperationDeadline c' = Some (fromMilli (clk 0 + 30000)) \<and>
      clk 0 + 30000 \<le> st_created_ms row + 35000"
proof -
  let ?row = "row\<lparr>st_status := ''pending'', st_operation_deadline_ms := Some (clk 0 + 30000), st_updated_ms := clk 0\<rparr>"
  have cr: "c = row_settings_command sid cmd row" "validSettingsCommandRow c"
    using c(1) row by (auto simp: SettingsCommand_def query_settings_ok)
  have ok: "settings_ok (session_events d) (sid, cmd) row" by (rule tbl_okD [OF wf_tables(4) [OF wf] row])
  have st: "st_status row = ''delivery_pending''" "st_writer row = w"
    using c(2,3) cr(1) by (simp_all add: row_settings_command_def)
  have bound: "clk 0 + 30000 \<le> st_created_ms row + 35000"
    using ok now by (simp add: settings_ok_def check_settings_row_def)
  have "check_settings_row (sid, cmd) ?row" "st_terminal_seq row = None"
    using ok now bound st
    by (auto simp: settings_ok_def check_settings_row_def settings_nonterminal_def settings_terminal_def)
  moreover have "\<not> other_active settings_active (session_settings_commands d) (sid, cmd)"
    using wf_tables(1) [OF wf] map_of_SomeD [OF row] st(1) by (auto simp: one_active_def)
  ultimately have put: "put_settings (sid, cmd) ?row d =
      Inr (d\<lparr>session_settings_commands := AList.update (sid, cmd) ?row (session_settings_commands d)\<rparr>)"
    using ok by (simp add: put_settings_def settings_ok_def)
  have valid_row: "validSettingsCommandRow (row_settings_command sid cmd ?row)"
    using cr st \<open>st_terminal_seq row = None\<close>
    by (simp add: validSettingsCommandRow_def row_settings_command_def sameSettingsCapability_def
        validSettingsStatus_def validSettingsNonterminalStatus_def)
  have version: "1 \<le> st_reservation_version row"
    using ok by (simp add: settings_ok_def check_settings_row_def)
  have "AcknowledgeSettingsCommandDelivery_tx sid cmd (so_ReservationVersion c) w clk d =
      Inr (d\<lparr>session_settings_commands := AList.update (sid, cmd) ?row (session_settings_commands d)\<rparr>,
        row_settings_command sid cmd ?row)"
    using c auth cr row st now put valid_row
    by (simp add: AcknowledgeSettingsCommandDelivery_tx_def SettingsCommand_def update_settings_def
        row_settings_command_def querySettingsCommand_def)
  then show ?thesis
    using valid version cr(1) bound
    by (simp add: AcknowledgeSettingsCommandDelivery_def transaction_def row_settings_command_def)
qed

theorem settings_ack_bounds_witness:
  "\<exists>d' c'. AcknowledgeSettingsCommandDelivery ''s'' ''c'' 1 demo_settings_writer (\<lambda>_. 10) demo_offered = (d', Inr c') \<and>
     so_OperationDeadline c' = Some (fromMilli 30010)"
proof -
  have wf: "wf demo_offered" unfolding demo_offered_def demo_settings_log_def
    by (intro store_step_wf [OF SettingsCommandReserve_step] store_step_wf [OF PublishSettingsCapability_step]
        store_step_wf [OF Append_step] demo_wf)
  have "case SettingsCommand ''s'' ''c'' demo_offered of Inl e \<Rightarrow> False
    | Inr c \<Rightarrow> so_Status c = ''delivery_pending'' \<and> so_Writer c = demo_settings_writer \<and> so_ReservationVersion c = 1"
    by code_simp
  then obtain c where c: "SettingsCommand ''s'' ''c'' demo_offered = Inr c" "so_Status c = ''delivery_pending''"
    "so_Writer c = demo_settings_writer" "so_ReservationVersion c = 1" by (auto split: sum.splits)
  have "case map_of (session_settings_commands demo_offered) (''s'', ''c'') of None \<Rightarrow> False
    | Some row \<Rightarrow> st_created_ms row = 9 \<and> st_delivery_deadline_ms row = 5009" by code_simp
  then obtain row where row: "map_of (session_settings_commands demo_offered) (''s'', ''c'') = Some row"
    "st_created_ms row = 9" "st_delivery_deadline_ms row = 5009" by (auto split: option.splits)
  have valid: "validConnectionID ''s''" "validSettingsWriter demo_settings_writer" by code_simp+
  have auth: "lockCommandAuthority ''s'' (writer_authority demo_settings_writer) 10 demo_offered = Inr ()"
    "validateCurrentSettingsWriter ''s'' demo_settings_writer 10 demo_offered = Inr ()" by code_simp+
  show ?thesis
    using settings_ack_bounds [OF wf valid(1) _ valid(2) _ _ c(1,2,3) row(1), of "\<lambda>_. 10"] auth row(2,3) c(4)
    by auto
qed

text \<open>
  A finalisation may leave out the session of the effective capability, but then it never
  matches the stored one.
\<close>

lemma finalize_without_session_fails:
  assumes "sp_SessionID (sf_EffectiveCapability fin) = []"
  shows "\<exists>e. FinalizeSettingsCommand sid cmd fin clk d = (d, Inl e)"
proof (cases "validSettingsFinalize sid cmd fin")
  case True
  then have "sid \<noteq> []" by (auto simp: validSettingsFinalize_def validConnectionID_def)
  then have "\<exists>e. FinalizeSettingsCommand_tx sid cmd fin clk d = Inl e"
    using assms unfolding FinalizeSettingsCommand_tx_def querySettingsCapability_def
    by (cases "querySettingsCommand sid cmd d"; cases "bound_writer sid (sf_Writer fin) clk d")
      (auto simp: sameSettingsCapability_def cap_row_capability_def split: option.splits if_splits)
  then show ?thesis using True by (auto simp: FinalizeSettingsCommand_def transaction_def)
qed (simp add: FinalizeSettingsCommand_def)

end
