(* ===== verification/Attachments.thy ===== *)
theory Attachments
  imports Ledgers
begin

text \<open>
  Attachments of a bootstrap session to a target session (\<^verbatim>\<open>CreateAttachment\<close>,
  \<^verbatim>\<open>Attachment\<close>, \<^verbatim>\<open>AttachmentForTarget\<close>, \<^verbatim>\<open>UpdateAttachment\<close> of
  \<^verbatim>\<open>store/sqlite/store.go\<close>). The row carries a delivery version that every change raises;
  an update names the version it saw. The status moves through a small machine whose moves are
  the relation \<open>attach_move\<close>. The repetition of the update statement while the database file is
  locked by another process is not modelled.
\<close>

section \<open>Data\<close>

record AttachmentIdentity =
  an_AttachID :: string
  an_BootstrapSessionID :: string
  an_TargetSessionID :: string
  an_TargetCredentialLineageRef :: string

record Attachment_rec =
  tt_Identity :: AttachmentIdentity
  tt_Status :: string
  tt_DeliveryState :: string
  tt_DeliveryVersion :: int
  tt_QueueReason :: "string option"
  tt_ExpiresAt :: "gotime option"
  tt_CanceledAt :: "gotime option"
  tt_BlockingSessionID :: "string option"

record AttachmentBlocker =
  tb_Kind :: string
  tb_Reason :: "string option"
  tb_ExpiresAt :: "gotime option"
  tb_BlockingSessionID :: "string option"
  tb_Operation :: "string option"

record AttachmentSummary =
  ts_AttachID :: string
  ts_TargetSessionID :: string
  ts_DeliveryVersion :: int
  ts_ExpiresAt :: "gotime option"
  ts_Blocker :: "AttachmentBlocker option"

record AttachmentCreate =
  tc_Identity :: AttachmentIdentity
  tc_ExpiresAt :: gotime

record AttachmentUpdate =
  tu_Status :: string
  tu_DeliveryState :: string
  tu_QueueReason :: "string option"
  tu_ExpiresAt :: "gotime option"
  tu_BlockingSessionID :: "string option"
  tu_Blocker :: "AttachmentBlocker option"

record AttachmentCommit =
  tm_Attachment :: Attachment_rec
  tm_Summary :: AttachmentSummary
  tm_Noop :: bool

record AttachmentMutation =
  tw_Attachment :: Attachment_rec
  tw_Summary :: AttachmentSummary

section \<open>Checks\<close>

definition validAttachmentExpiry :: "gotime \<Rightarrow> gotime \<Rightarrow> bool" where
  "validAttachmentExpiry expires now \<longleftrightarrow> expires > now \<and> \<not> expires > now + 30 * sec_ns"

definition validAttachmentOperation :: "string option \<Rightarrow> bool" where
  "validAttachmentOperation v \<longleftrightarrow>
     v \<in> {Some ''start'', Some ''command'', Some ''credential_handoff''}"

definition validateAttachmentIdentity :: "AttachmentIdentity \<Rightarrow> bool" where
  "validateAttachmentIdentity i \<longleftrightarrow>
     validAttachmentText (an_AttachID i) 255 \<and> validAttachmentText (an_BootstrapSessionID i) 255 \<and>
     validAttachmentText (an_TargetSessionID i) 255 \<and>
     validAttachmentText (an_TargetCredentialLineageRef i) 255 \<and>
     an_BootstrapSessionID i \<noteq> an_TargetSessionID i"

definition validAttachmentRowShape :: "Attachment_rec \<Rightarrow> int \<Rightarrow> int \<Rightarrow> bool" where
  "validAttachmentRowShape a created now \<longleftrightarrow>
     opt_all (\<lambda>q. validAttachmentText q 128) (tt_QueueReason a) \<and>
     opt_all (\<lambda>b. validAttachmentText b 255) (tt_BlockingSessionID a) \<and>
     opt_all (\<lambda>x. created * ms_ns < x \<and> x \<le> (created + 30000) * ms_ns) (tt_ExpiresAt a) \<and>
     opt_all (\<lambda>x. created \<le> UnixMilli x \<and> UnixMilli x \<le> now) (tt_CanceledAt a) \<and>
     (if tt_Status a = ''join_pending'' then
        tt_DeliveryState a \<in> {''pending'', ''received'', ''completed''} \<and> tt_QueueReason a = None \<and>
        tt_ExpiresAt a \<noteq> None \<and> tt_CanceledAt a = None \<and> tt_BlockingSessionID a = None
      else if tt_Status a = ''queued'' then
        tt_DeliveryState a = ''pending'' \<and> tt_QueueReason a \<noteq> None \<and> tt_ExpiresAt a \<noteq> None \<and>
        tt_CanceledAt a = None \<and> tt_BlockingSessionID a \<noteq> None
      else if tt_Status a = ''start_received'' then
        tt_DeliveryState a \<in> {''received'', ''completed'', ''outcome_unknown''} \<and> tt_QueueReason a = None \<and>
        tt_ExpiresAt a = None \<and> tt_CanceledAt a = None \<and> tt_BlockingSessionID a = None
      else if tt_Status a = ''reauthorization_required'' then
        tt_DeliveryState a \<in> {''pending'', ''outcome_unknown''} \<and> tt_QueueReason a = None \<and>
        tt_ExpiresAt a = None \<and> tt_CanceledAt a = None \<and> tt_BlockingSessionID a = None
      else if tt_Status a = ''canceled'' then
        tt_DeliveryState a = ''pending'' \<and> tt_QueueReason a = None \<and> tt_ExpiresAt a = None \<and>
        tt_CanceledAt a \<noteq> None \<and> tt_BlockingSessionID a = None
      else False)"

section \<open>Reads\<close>

definition row_attachment :: "string \<Rightarrow> attachment_row \<Rightarrow> Attachment_rec" where
  "row_attachment aid r =
     \<lparr>tt_Identity = \<lparr>an_AttachID = aid, an_BootstrapSessionID = ac_bootstrap r,
        an_TargetSessionID = ac_target r, an_TargetCredentialLineageRef = ac_lineage_ref r\<rparr>,
      tt_Status = ac_status r, tt_DeliveryState = ac_delivery_state r,
      tt_DeliveryVersion = ac_delivery_version r, tt_QueueReason = ac_queue_reason r,
      tt_ExpiresAt = ac_expires_ns r, tt_CanceledAt = map_option fromMilli (ac_canceled_ms r),
      tt_BlockingSessionID = ac_blocking_session r\<rparr>"

definition queryAttachment :: "(string \<times> attachment_row) option \<Rightarrow> int \<Rightarrow> Attachment_rec res" where
  "queryAttachment row now =
     (case row of
        None \<Rightarrow> Inl NoRows
      | Some (aid, r) \<Rightarrow>
          let a = row_attachment aid r in
          if \<not> validateAttachmentIdentity (tt_Identity a) \<or> tt_DeliveryVersion a < 0 \<or>
             ac_created_ms r < 1 \<or> ac_created_ms r > now \<or> ac_updated_ms r < ac_created_ms r \<or>
             ac_updated_ms r > now \<or> \<not> validAttachmentRowShape a (ac_created_ms r) now
          then Inl (Fail ''attachment row is invalid'') else Inr a)"

definition attachment_by_id :: "string \<Rightarrow> db \<Rightarrow> (string \<times> attachment_row) option" where
  "attachment_by_id aid d = map_option (Pair aid) (map_of (session_attachments d) aid)"

definition attachment_by_target :: "string \<Rightarrow> db \<Rightarrow> (string \<times> attachment_row) option" where
  "attachment_by_target sid d = List.find (\<lambda>(a, r). ac_target r = sid) (session_attachments d)"

definition Attachment :: "string \<Rightarrow> int \<Rightarrow> db \<Rightarrow> Attachment_rec res" where
  "Attachment aid now d = queryAttachment (attachment_by_id aid d) now"

definition AttachmentForTarget :: "string \<Rightarrow> int \<Rightarrow> db \<Rightarrow> Attachment_rec res" where
  "AttachmentForTarget sid now d = queryAttachment (attachment_by_target sid d) now"

section \<open>Summaries and blockers\<close>

definition sqliteAttachmentSummary :: "Attachment_rec \<Rightarrow> AttachmentBlocker option \<Rightarrow> AttachmentSummary" where
  "sqliteAttachmentSummary a blocker =
     \<lparr>ts_AttachID = an_AttachID (tt_Identity a), ts_TargetSessionID = an_TargetSessionID (tt_Identity a),
      ts_DeliveryVersion = tt_DeliveryVersion a, ts_ExpiresAt = tt_ExpiresAt a, ts_Blocker = blocker\<rparr>"

definition sqliteAttentionBlockerForAttachment ::
  "Attachment_rec \<Rightarrow> AttachmentBlocker option \<Rightarrow> AttentionBlocker option" where
  "sqliteAttentionBlockerForAttachment a explicit =
     (case explicit of
        Some b \<Rightarrow> Some \<lparr>bl_Kind = tb_Kind b, bl_Reason = tb_Reason b, bl_ExpiresAt = tb_ExpiresAt b,
                        bl_BlockingSessionID = tb_BlockingSessionID b, bl_Operation = tb_Operation b\<rparr>
      | None \<Rightarrow>
          if tt_Status a \<noteq> ''join_pending'' then None
          else Some \<lparr>bl_Kind = ''queued'', bl_Reason = Some ''join_pending'', bl_ExpiresAt = tt_ExpiresAt a,
                     bl_BlockingSessionID = None, bl_Operation = None\<rparr>)"

section \<open>Creation\<close>

definition new_attachment_row :: "AttachmentIdentity \<Rightarrow> gotime \<Rightarrow> int \<Rightarrow> attachment_row" where
  "new_attachment_row i expires now =
     \<lparr>ac_bootstrap = an_BootstrapSessionID i, ac_target = an_TargetSessionID i,
      ac_status = ''join_pending'', ac_delivery_state = ''pending'', ac_delivery_version = 0,
      ac_queue_reason = None, ac_expires_ns = Some expires, ac_canceled_ms = None,
      ac_blocking_session = None, ac_lineage_ref = an_TargetCredentialLineageRef i,
      ac_created_ms = now, ac_updated_ms = now\<rparr>"

definition CreateAttachment_tx :: "AttachmentCreate \<Rightarrow> clock \<Rightarrow> db \<Rightarrow> (db \<times> AttachmentCommit) res" where
  "CreateAttachment_tx request clk d =
     (let i = tc_Identity request in
      case queryAttachment (attachment_by_id (an_AttachID i) d) (clk 0) of
        Inr existing \<Rightarrow>
          if tt_Identity existing \<noteq> i then Inl (Fail ''attachment identity is immutable'')
          else Inr (d, \<lparr>tm_Attachment = existing, tm_Summary = sqliteAttachmentSummary existing None,
                        tm_Noop = True\<rparr>)
      | Inl (Fail e) \<Rightarrow> Inl (Fail e)
      | Inl NoRows \<Rightarrow>
          if \<not> validAttachmentExpiry (tc_ExpiresAt request) (fromMilli (clk 1))
          then Inl (Fail ''attachment expiry is outside the Store-clock delivery window'')
          else
            res_bind (insert_attachment (an_AttachID i) (new_attachment_row i (tc_ExpiresAt request) (clk 1)) d) (\<lambda>d.
            res_bind (queryAttachment (attachment_by_id (an_AttachID i) d) (clk 2)) (\<lambda>created.
            res_bind (upsertSQLiteAttentionLedger (an_TargetSessionID (tt_Identity created))
                        (sqliteAttentionBlockerForAttachment created None) None (clk 3) d) (\<lambda>d.
            Inr (d, \<lparr>tm_Attachment = created, tm_Summary = sqliteAttachmentSummary created None,
                     tm_Noop = False\<rparr>)))))"

definition CreateAttachment :: "AttachmentCreate \<Rightarrow> clock \<Rightarrow> db \<Rightarrow> db \<times> AttachmentCommit res" where
  "CreateAttachment request clk d =
     (if \<not> validateAttachmentIdentity (tc_Identity request)
      then (d, Inl (Fail ''attachment identity is invalid''))
      else transaction (CreateAttachment_tx request clk) d)"

section \<open>Updates\<close>

definition blocker_matches ::
  "AttachmentUpdate \<Rightarrow> string \<Rightarrow> bool \<Rightarrow> bool \<Rightarrow> bool \<Rightarrow> bool \<Rightarrow> bool" where
  "blocker_matches u kind reason expiry blocking operation =
     (case tu_Blocker u of
        None \<Rightarrow> False
      | Some b \<Rightarrow>
          tb_Kind b = kind \<and> (reason \<or> tb_Reason b = None) \<and> (expiry \<or> tb_ExpiresAt b = None) \<and>
          (blocking \<or> tb_BlockingSessionID b = None) \<and> (operation \<or> tb_Operation b = None) \<and>
          (reason \<longrightarrow> tb_Reason b \<noteq> None \<and> tb_Reason b = tu_QueueReason u) \<and>
          (expiry \<longrightarrow> tb_ExpiresAt b \<noteq> None \<and> tb_ExpiresAt b = tu_ExpiresAt u) \<and>
          (blocking \<longrightarrow> tb_BlockingSessionID b \<noteq> None \<and> tb_BlockingSessionID b = tu_BlockingSessionID u))"

definition unknown_outcome_blocker :: "AttachmentUpdate \<Rightarrow> bool" where
  "unknown_outcome_blocker u \<longleftrightarrow>
     tu_DeliveryState u = ''outcome_unknown'' \<and> blocker_matches u ''outcome_unknown'' False False False True \<and>
     (case tu_Blocker u of None \<Rightarrow> False | Some b \<Rightarrow> validAttachmentOperation (tb_Operation b))"

definition valid_update_shape :: "Attachment_rec \<Rightarrow> AttachmentUpdate \<Rightarrow> bool" where
  "valid_update_shape current u \<longleftrightarrow>
     (let bare = (tu_QueueReason u = None \<and> tu_ExpiresAt u = None \<and> tu_BlockingSessionID u = None) in
      if tu_Status u = ''join_pending'' then
        tt_Status current = ''join_pending'' \<and> tu_QueueReason u = None \<and> tu_ExpiresAt u \<noteq> None \<and>
        tt_ExpiresAt current \<noteq> None \<and> tu_ExpiresAt u = tt_ExpiresAt current \<and>
        tu_BlockingSessionID u = None \<and> tu_Blocker u = None \<and>
        tu_DeliveryState u \<in> {''pending'', ''received'', ''completed''}
      else if tu_Status u = ''queued'' then
        tu_DeliveryState u = ''pending'' \<and>
        (case tu_QueueReason u of None \<Rightarrow> False | Some q \<Rightarrow> validAttachmentText q 128) \<and>
        tu_ExpiresAt u \<noteq> None \<and>
        (case tu_BlockingSessionID u of
           None \<Rightarrow> False
         | Some b \<Rightarrow> validAttachmentText b 255 \<and> b \<noteq> an_TargetSessionID (tt_Identity current)) \<and>
        blocker_matches u ''queued'' True True True False
      else if tu_Status u = ''start_received'' then
        bare \<and> (unknown_outcome_blocker u \<or>
                 (tu_DeliveryState u \<in> {''received'', ''completed''} \<and> tu_Blocker u = None))
      else if tu_Status u = ''reauthorization_required'' then
        bare \<and> (unknown_outcome_blocker u \<or>
                 (tu_DeliveryState u = ''pending'' \<and>
                  blocker_matches u ''reauthorization_required'' False False False False))
      else if tu_Status u = ''canceled'' then
        tu_DeliveryState u = ''pending'' \<and> bare \<and> blocker_matches u ''new_run_required'' False False False False
      else False)"

definition validateAttachmentUpdate :: "Attachment_rec \<Rightarrow> AttachmentUpdate \<Rightarrow> gotime \<Rightarrow> unit res" where
  "validateAttachmentUpdate current u now =
     (if tt_Status current = ''canceled'' \<or>
         (tt_Status current = ''start_received'' \<and> tu_Status u \<noteq> ''start_received'')
      then Inl (Fail ''terminal attachment status cannot be reopened'')
      else if tu_Status u = ''start_received'' \<and> tt_Status current \<noteq> ''start_received'' \<and>
              (case tt_ExpiresAt current of None \<Rightarrow> True | Some x \<Rightarrow> \<not> x > now)
      then Inl (Fail ''expired attachment cannot record start receipt'')
      else if (case tu_ExpiresAt u of
                 None \<Rightarrow> False
               | Some x \<Rightarrow> \<not> validAttachmentExpiry x now \<or>
                   (case tt_ExpiresAt current of None \<Rightarrow> False | Some y \<Rightarrow> x > y))
      then Inl (Fail ''attachment expiry is invalid'')
      else if \<not> valid_update_shape current u then Inl (Fail ''invalid attachment update'')
      else Inr ())"

definition updated_row :: "AttachmentUpdate \<Rightarrow> int \<Rightarrow> attachment_row \<Rightarrow> attachment_row" where
  "updated_row u now r =
     r\<lparr>ac_status := tu_Status u, ac_delivery_state := tu_DeliveryState u,
       ac_delivery_version := ac_delivery_version r + 1, ac_queue_reason := tu_QueueReason u,
       ac_expires_ns := tu_ExpiresAt u,
       ac_canceled_ms := (if tu_Status u = ''canceled'' then Some now else None),
       ac_blocking_session := tu_BlockingSessionID u, ac_updated_ms := now\<rparr>"

definition UpdateAttachment_tx ::
  "string \<Rightarrow> int \<Rightarrow> AttachmentUpdate \<Rightarrow> clock \<Rightarrow> db \<Rightarrow> (db \<times> AttachmentMutation) res" where
  "UpdateAttachment_tx aid expectedVersion u clk d =
     res_bind (queryAttachment (attachment_by_id aid d) (clk 0)) (\<lambda>current.
     if tt_DeliveryVersion current \<noteq> expectedVersion then Inl (Fail ''stale attachment version'')
     else res_bind (validateAttachmentUpdate current u (fromMilli (clk 1))) (\<lambda>_.
     case map_of (session_attachments d) aid of
       None \<Rightarrow> Inl (Fail ''attachment version conflict'')
     | Some r \<Rightarrow>
         if ac_delivery_version r = expectedVersion \<and>
            (tu_Status u \<noteq> ''start_received'' \<or> ac_status r = ''start_received'' \<or>
             (case ac_expires_ns r of None \<Rightarrow> False | Some x \<Rightarrow> x > clk 2 * ms_ns))
         then
           res_bind (put_attachment aid (updated_row u (clk 1) r) d) (\<lambda>d.
           res_bind (queryAttachment (attachment_by_id aid d) (clk 3)) (\<lambda>updated.
           res_bind (upsertSQLiteAttentionLedger (an_TargetSessionID (tt_Identity updated))
                       (sqliteAttentionBlockerForAttachment updated (tu_Blocker u)) None (clk 4) d) (\<lambda>d.
           Inr (d, \<lparr>tw_Attachment = updated,
                    tw_Summary = sqliteAttachmentSummary updated (tu_Blocker u)\<rparr>))))
         else Inl (Fail ''attachment version conflict'')))"

definition UpdateAttachment ::
  "string \<Rightarrow> int \<Rightarrow> AttachmentUpdate \<Rightarrow> clock \<Rightarrow> db \<Rightarrow> db \<times> AttachmentMutation res" where
  "UpdateAttachment aid expectedVersion u clk = transaction (UpdateAttachment_tx aid expectedVersion u clk)"

section \<open>Moves of the status\<close>

inductive attach_move :: "string \<Rightarrow> string \<Rightarrow> bool" where
  deliver: "attach_move ''join_pending'' ''join_pending''"
| queue: "s \<in> {''join_pending'', ''queued'', ''reauthorization_required''} \<Longrightarrow> attach_move s ''queued''"
| start: "s \<in> {''join_pending'', ''queued'', ''start_received''} \<Longrightarrow> attach_move s ''start_received''"
| reauthorize: "s \<in> {''join_pending'', ''queued'', ''reauthorization_required''} \<Longrightarrow>
    attach_move s ''reauthorization_required''"
| cancel: "s \<in> {''join_pending'', ''queued'', ''reauthorization_required''} \<Longrightarrow> attach_move s ''canceled''"

inductive_simps attach_move_iff: "attach_move s s'"

inductive_cases move_from_canceled: "attach_move ''canceled'' s"
inductive_cases move_from_started: "attach_move ''start_received'' s"
inductive_cases move_to_pending: "attach_move s ''join_pending''"

lemma query_attachment_ok:
  assumes "queryAttachment row now = Inr a"
  obtains aid r where "row = Some (aid, r)" "a = row_attachment aid r"
    "validAttachmentRowShape a (ac_created_ms r) now" "ac_created_ms r \<ge> 1" "ac_updated_ms r \<le> now"
  using assms by (auto simp: queryAttachment_def Let_def split: option.splits if_splits)

lemma row_shape_status:
  "validAttachmentRowShape a created now \<Longrightarrow>
   tt_Status a \<in> {''join_pending'', ''queued'', ''start_received'', ''reauthorization_required'', ''canceled''} \<and>
   (tt_Status a = ''reauthorization_required'' \<longrightarrow> tt_ExpiresAt a = None)"
  by (auto simp: validAttachmentRowShape_def split: if_splits)

lemma validate_update_move:
  assumes "validateAttachmentUpdate a u now = Inr ()" "validAttachmentRowShape a created t"
  shows "attach_move (tt_Status a) (tu_Status u)"
proof -
  have shape: "valid_update_shape a u" and
    open_status: "tt_Status a \<noteq> ''canceled''" "tt_Status a = ''start_received'' \<Longrightarrow> tu_Status u = ''start_received''" and
    live: "tu_Status u = ''start_received'' \<Longrightarrow> tt_Status a \<noteq> ''start_received'' \<Longrightarrow> tt_ExpiresAt a \<noteq> None"
    using assms(1) by (auto simp: validateAttachmentUpdate_def split: if_splits option.splits)
  have st: "tt_Status a \<in> {''join_pending'', ''queued'', ''reauthorization_required'', ''start_received''}"
    "tt_Status a = ''reauthorization_required'' \<Longrightarrow> tt_ExpiresAt a = None"
    using row_shape_status [OF assms(2)] open_status(1) by auto
  consider "tu_Status u = ''join_pending''" "tt_Status a = ''join_pending''" | "tu_Status u = ''queued''" |
    "tu_Status u = ''start_received''" | "tu_Status u = ''reauthorization_required''" | "tu_Status u = ''canceled''"
    using shape by (auto simp: valid_update_shape_def Let_def split: if_splits)
  then show ?thesis
    using st open_status(2) live by cases (auto simp: attach_move_iff)
qed

lemma update_attachment_ok:
  assumes "UpdateAttachment_tx aid v u clk d = Inr (d', m)"
  obtains r d1 where "map_of (session_attachments d) aid = Some r" "ac_delivery_version r = v"
    "queryAttachment (Some (aid, r)) (clk 0) = Inr (row_attachment aid r)"
    "validateAttachmentUpdate (row_attachment aid r) u (fromMilli (clk 1)) = Inr ()"
    "put_attachment aid (updated_row u (clk 1) r) d = Inr d1"
    "queryAttachment (attachment_by_id aid d1) (clk 3) = Inr (tw_Attachment m)"
    "upsertSQLiteAttentionLedger (an_TargetSessionID (tt_Identity (tw_Attachment m)))
       (sqliteAttentionBlockerForAttachment (tw_Attachment m) (tu_Blocker u)) None (clk 4) d1 = Inr d'"
proof -
  obtain a where a: "queryAttachment (attachment_by_id aid d) (clk 0) = Inr a"
    using assms by (auto simp: UpdateAttachment_tx_def)
  then obtain r where r: "map_of (session_attachments d) aid = Some r" "a = row_attachment aid r"
    by (auto simp: attachment_by_id_def elim!: query_attachment_ok)
  then show ?thesis
    using assms a
    by (auto simp: UpdateAttachment_tx_def attachment_by_id_def split: if_splits intro!: that [OF r(1)])
qed

lemma updated_row_prog:
  assumes "queryAttachment (Some (aid, r)) t = Inr (row_attachment aid r)"
    "validateAttachmentUpdate (row_attachment aid r) u now = Inr ()"
  shows "attach_prog r (updated_row u ms r)"
proof -
  have "attach_move (ac_status r) (tu_Status u)"
    using assms(1) by (rule query_attachment_ok) (use validate_update_move [OF assms(2)] in \<open>auto simp: row_attachment_def\<close>)
  moreover have "ac_status r \<noteq> ''canceled''"
    using assms(2) by (auto simp: validateAttachmentUpdate_def row_attachment_def split: if_splits)
  ultimately show ?thesis
    by (auto simp: attach_prog_def updated_row_def elim: move_from_started move_to_pending)
qed

section \<open>Every operation is a store step\<close>

lemma CreateAttachment_step: "store_step d (fst (CreateAttachment q clk d))"
proof -
  have "store_step d d'" if ok: "CreateAttachment_tx q clk d = Inr (d', m)" for d' m
  proof (cases "queryAttachment (attachment_by_id (an_AttachID (tc_Identity q)) d) (clk 0)")
    case (Inr a)
    with ok show ?thesis by (auto simp: CreateAttachment_tx_def Let_def split: if_splits)
  next
    case (Inl e)
    with ok obtain d1 a where "insert_attachment (an_AttachID (tc_Identity q))
        (new_attachment_row (tc_Identity q) (tc_ExpiresAt q) (clk 1)) d = Inr d1"
      "upsertSQLiteAttentionLedger (an_TargetSessionID (tt_Identity a))
        (sqliteAttentionBlockerForAttachment a None) None (clk 3) d1 = Inr d'"
      by (cases e) (auto simp: CreateAttachment_tx_def Let_def split: if_splits)
    then show ?thesis by (blast intro: store_step_trans store_step_insert_attachment store_step_ledger)
  qed
  then show ?thesis by (auto simp: CreateAttachment_def intro: transaction_step)
qed

lemma UpdateAttachment_step: "store_step d (fst (UpdateAttachment aid v u clk d))"
  unfolding UpdateAttachment_def
proof (rule transaction_step)
  fix d' m assume "UpdateAttachment_tx aid v u clk d = Inr (d', m)"
  then show "store_step d d'"
  proof (cases rule: update_attachment_ok)
    case (1 r d1)
    have "store_step d d1"
      by (rule store_step_attachment [OF 1(5)]) (use 1(1) updated_row_prog [OF 1(3,4)] in auto)
    then show ?thesis using store_step_ledger [OF 1(7)] by (rule store_step_trans)
  qed
qed

lemmas attachment_steps = CreateAttachment_step UpdateAttachment_step

section \<open>Properties\<close>

lemma query_attachment_later:
  assumes "queryAttachment row t = Inr a" "t \<le> now"
  shows "queryAttachment row now = Inr a"
proof -
  have "validAttachmentRowShape x created t \<Longrightarrow> validAttachmentRowShape x created now" for x created
    using assms(2) unfolding validAttachmentRowShape_def by (cases "tt_CanceledAt x") (auto split: if_splits)
  then show ?thesis
    using assms by (auto simp: queryAttachment_def Let_def split: option.splits if_splits)
qed

lemma stale_update:
  assumes "map_of (session_attachments d) aid = Some r" "v < ac_delivery_version r"
  shows "\<exists>e. UpdateAttachment aid v u clk d = (d, Inl e)"
proof -
  have "UpdateAttachment_tx aid v u clk d \<noteq> Inr x" for x
    using assms by (cases x) (auto elim: update_attachment_ok)
  then show ?thesis
    by (cases "UpdateAttachment_tx aid v u clk d") (auto simp: UpdateAttachment_def transaction_def)
qed

lemma put_attachment_other:
  "put_attachment aid r d = Inr d' \<Longrightarrow> map_of (session_attachments d') b =
     (if b = aid then Some r else map_of (session_attachments d) b)"
  by (auto simp: put_attachment_def split: if_splits)

lemma update_keeps_deadline:
  assumes "validateAttachmentUpdate (row_attachment aid r) u now = Inr ()"
    "ac_expires_ns r = Some x" "tu_ExpiresAt u = Some y"
  shows "y \<le> x"
  using assms by (auto simp: validateAttachmentUpdate_def row_attachment_def split: if_splits)

text \<open>
  C19: an update of an attachment applies to exactly the version it names. When it succeeds, the
  status makes a move of the status machine, the deadline is not extended, only this attachment
  changes, and what it returns is what every later read of the row returns. No other update that
  names the same version succeeds afterwards, in no later state of the store.
\<close>

theorem attachment_update_once:
  assumes ok: "UpdateAttachment aid v u clk d = (d', Inr m)"
  shows "\<exists>r. map_of (session_attachments d) aid = Some r \<and> ac_delivery_version r = v \<and>
    map_of (session_attachments d') aid = Some (updated_row u (clk 1) r) \<and>
    (\<forall>b. b \<noteq> aid \<longrightarrow> map_of (session_attachments d') b = map_of (session_attachments d) b) \<and>
    attach_move (ac_status r) (tu_Status u) \<and>
    (\<forall>x y. ac_expires_ns r = Some x \<and> tu_ExpiresAt u = Some y \<longrightarrow> y \<le> x) \<and>
    (\<forall>now \<ge> clk 3. Attachment aid now d' = Inr (tw_Attachment m)) \<and>
    (\<forall>later u' clk'. store_step d' later \<longrightarrow> (\<exists>e. UpdateAttachment aid v u' clk' later = (later, Inl e)))"
proof -
  have "UpdateAttachment_tx aid v u clk d = Inr (d', m)"
    using ok by (simp add: UpdateAttachment_def transaction_ok_iff)
  then show ?thesis
  proof (cases rule: update_attachment_ok)
    case (1 r d1)
    have same: "session_attachments d' = session_attachments d1" by (rule ledger_frame [OF 1(7)]) simp
    have rows: "map_of (session_attachments d') b =
        (if b = aid then Some (updated_row u (clk 1) r) else map_of (session_attachments d) b)" for b
      using put_attachment_other [OF 1(5)] same by simp
    have move: "attach_move (ac_status r) (tu_Status u)"
      using 1(3) by (rule query_attachment_ok)
        (use validate_update_move [OF 1(4)] in \<open>auto simp: row_attachment_def\<close>)
    have read: "Attachment aid now d' = Inr (tw_Attachment m)" if "clk 3 \<le> now" for now
      using query_attachment_later [OF 1(6) that] by (simp add: Attachment_def attachment_by_id_def same)
    have stale: "\<exists>e. UpdateAttachment aid v u' clk' later = (later, Inl e)" if "store_step d' later" for later u' clk'
      using attachment_rows.stale_version [OF that, of aid "updated_row u (clk 1) r" v] rows 1(2)
      by (auto simp: updated_row_def intro: stale_update)
    show ?thesis
      using 1(1,2) rows move read stale update_keeps_deadline [OF 1(4)]
      by (intro exI [of _ r] conjI allI impI) auto
  qed
qed

definition demo_identity :: AttachmentIdentity where
  "demo_identity = \<lparr>an_AttachID = ''a'', an_BootstrapSessionID = ''boot'', an_TargetSessionID = ''s'',
     an_TargetCredentialLineageRef = ''ref''\<rparr>"

definition demo_attached :: db where
  "demo_attached = fst (CreateAttachment \<lparr>tc_Identity = demo_identity, tc_ExpiresAt = fromMilli 900\<rparr> (\<lambda>_. 7) demo_bound)"

definition demo_queue_update :: AttachmentUpdate where
  "demo_queue_update = \<lparr>tu_Status = ''queued'', tu_DeliveryState = ''pending'', tu_QueueReason = Some ''busy'',
     tu_ExpiresAt = Some (fromMilli 800), tu_BlockingSessionID = Some ''other'',
     tu_Blocker = Some \<lparr>tb_Kind = ''queued'', tb_Reason = Some ''busy'', tb_ExpiresAt = Some (fromMilli 800),
       tb_BlockingSessionID = Some ''other'', tb_Operation = None\<rparr>\<rparr>"

theorem attachment_update_once_witness:
  "\<exists>d' m. UpdateAttachment ''a'' 0 demo_queue_update (\<lambda>_. 8) demo_attached = (d', Inr m) \<and>
     attach_move ''join_pending'' ''queued'' \<and>
     (\<exists>e. UpdateAttachment ''a'' 0 demo_queue_update (\<lambda>_. 9) d' = (d', Inl e))"
proof -
  have "is_ok (snd (UpdateAttachment ''a'' 0 demo_queue_update (\<lambda>_. 8) demo_attached))" by code_simp
  then obtain d' m where ok: "UpdateAttachment ''a'' 0 demo_queue_update (\<lambda>_. 8) demo_attached = (d', Inr m)"
    by (cases "UpdateAttachment ''a'' 0 demo_queue_update (\<lambda>_. 8) demo_attached") (auto simp: is_ok_iff)
  have "map_option ac_status (map_of (session_attachments demo_attached) ''a'') = Some ''join_pending''"
    "tu_Status demo_queue_update = ''queued''" by code_simp+
  then show ?thesis using attachment_update_once [OF ok] ok store_step_refl by fastforce
qed

end
