(* ===== verification/Workspace_Leases.thy ===== *)
theory Workspace_Leases
  imports Attachments
begin

text \<open>
  Workspace leases (\<^verbatim>\<open>ReserveWorkspaceLease\<close> to \<^verbatim>\<open>querySQLiteWorkspaceLease\<close> of
  \<^verbatim>\<open>store/sqlite/store.go\<close>): the durable ownership of a workspace before a provider is
  started in it. A lease is reserved by an owner, may record that a start was received, may be
  quarantined and is reserved again only after its release. Every transition names the version it
  saw. A \<^verbatim>\<open>[32]byte\<close> is a byte string; the all-zero value stands for a missing one. Expiry
  times are kept in nanoseconds as unbounded integers; \<^verbatim>\<open>UnixNano\<close> of the code is faithful to
  them for times up to the year 2262.
\<close>

section \<open>Data\<close>

record WorkspaceLeaseOwner =
  wo_WorkerID :: string
  wo_SessionID :: string
  wo_ConnectionEpoch :: int
  wo_CredentialGeneration :: int
  wo_LeaseID :: string

record WorkspaceLeaseChildScope =
  wc_ParentKey :: bytes
  wc_CapabilityDigest :: bytes
  wc_ExpiresAt :: gotime

record WorkspaceLeaseReserve =
  wr_Key :: bytes
  wr_ChildScope :: "WorkspaceLeaseChildScope option"
  wr_Owner :: WorkspaceLeaseOwner
  wr_ExpiresAt :: gotime

record WorkspaceLease_rec =
  we_Key :: bytes
  we_ChildScope :: "WorkspaceLeaseChildScope option"
  we_Owner :: WorkspaceLeaseOwner
  we_Status :: string
  we_Version :: int
  we_ExpiresAt :: gotime

definition zero32 :: bytes where
  "zero32 = replicate 32 (CHR 0x00)"

section \<open>Checks\<close>

definition validSQLiteWorkspaceLeaseOwner :: "WorkspaceLeaseOwner \<Rightarrow> bool" where
  "validSQLiteWorkspaceLeaseOwner ow \<longleftrightarrow>
     validConnectionID (wo_WorkerID ow) \<and> validConnectionID (wo_SessionID ow) \<and>
     validConnectionID (wo_LeaseID ow) \<and> wo_ConnectionEpoch ow > 0 \<and> wo_CredentialGeneration ow > 0"

definition validateSQLiteWorkspaceLeaseReserve :: "WorkspaceLeaseReserve \<Rightarrow> unit res" where
  "validateSQLiteWorkspaceLeaseReserve q =
     (if wr_Key q = zero32 \<or> \<not> validSQLiteWorkspaceLeaseOwner (wr_Owner q) \<or> wr_ExpiresAt q = zeroTime
      then Inl (Fail ''invalid workspace lease reserve'')
      else if \<not> opt_all (\<lambda>c. wc_ParentKey c \<noteq> zero32 \<and> wc_ParentKey c \<noteq> wr_Key q \<and>
                 wc_CapabilityDigest c \<noteq> zero32 \<and> wc_ExpiresAt c \<noteq> zeroTime) (wr_ChildScope q)
      then Inl (Fail ''invalid workspace child scope'')
      else Inr ())"

definition sameSQLiteWorkspaceLeaseReserve :: "WorkspaceLease_rec \<Rightarrow> WorkspaceLeaseReserve \<Rightarrow> bool" where
  "sameSQLiteWorkspaceLeaseReserve l q \<longleftrightarrow>
     we_Key l = wr_Key q \<and> we_Owner l = wr_Owner q \<and> we_ExpiresAt l = wr_ExpiresAt q \<and>
     we_ChildScope l = wr_ChildScope q"

definition sqliteWorkspaceStatuses :: "string \<Rightarrow> string list" where
  "sqliteWorkspaceStatuses value = split_at (CHR '','') value"

text \<open>A current connection of the session together with an attachment that targets it.\<close>

definition lease_connection :: "string \<Rightarrow> int \<Rightarrow> int \<Rightarrow> int \<Rightarrow> db \<Rightarrow> bool" where
  "lease_connection sid epoch gen now d \<longleftrightarrow>
     current_authority d sid \<lparr>ca_ConnectionEpoch = epoch, ca_CredentialGeneration = gen\<rparr> now \<and>
     (\<exists>(a, r) \<in> set (session_attachments d). ac_target r = sid \<and>
        ac_status r \<in> {''queued'', ''start_received''} \<and>
        (case ac_expires_ns r of None \<Rightarrow> True | Some x \<Rightarrow> x > now * ms_ns))"

definition validateSQLiteWorkspaceLeaseAuthority :: "WorkspaceLeaseOwner \<Rightarrow> int \<Rightarrow> db \<Rightarrow> unit res" where
  "validateSQLiteWorkspaceLeaseAuthority ow now d =
     (if lease_connection (wo_SessionID ow) (wo_ConnectionEpoch ow) (wo_CredentialGeneration ow) now d
      then Inr () else Inl (Fail ''workspace lease authority is no longer current''))"

section \<open>Reads\<close>

definition row_owner :: "lease_row \<Rightarrow> WorkspaceLeaseOwner" where
  "row_owner r = \<lparr>wo_WorkerID = wl_worker r, wo_SessionID = wl_session r, wo_ConnectionEpoch = wl_epoch r,
     wo_CredentialGeneration = wl_gen r, wo_LeaseID = wl_lease_id r\<rparr>"

definition row_child_scope :: "bytes \<Rightarrow> lease_row \<Rightarrow> WorkspaceLeaseChildScope option res" where
  "row_child_scope key r =
     (let parent = case_option [] id (wl_child_parent r); digest = case_option [] id (wl_child_digest r) in
      if parent = [] \<and> digest = [] \<and> wl_child_expires_ns r = None then Inr None
      else case wl_child_expires_ns r of
        None \<Rightarrow> Inl (Fail ''workspace lease row is invalid'')
      | Some x \<Rightarrow>
          if length parent \<noteq> 32 \<or> length digest \<noteq> 32 then Inl (Fail ''workspace lease row is invalid'')
          else if parent = zero32 \<or> parent = key \<or> digest = zero32 \<or> x \<le> wl_created_ms r * ms_ns
          then Inl (Fail ''workspace lease child scope is invalid'')
          else Inr (Some \<lparr>wc_ParentKey = parent, wc_CapabilityDigest = digest, wc_ExpiresAt = x\<rparr>))"

definition querySQLiteWorkspaceLease :: "bytes \<Rightarrow> db \<Rightarrow> WorkspaceLease_rec res" where
  "querySQLiteWorkspaceLease key d =
     (case map_of (session_workspace_leases d) key of
        None \<Rightarrow> Inl NoRows
      | Some r \<Rightarrow>
          if length key \<noteq> 32 \<or> \<not> validSQLiteWorkspaceLeaseOwner (row_owner r) \<or> wl_version r < 1 \<or>
             wl_expires_ns r \<le> wl_created_ms r * ms_ns \<or> wl_updated_ms r < wl_created_ms r \<or>
             wl_status r \<notin> {''reserved'', ''start_received'', ''quarantined'', ''released''}
          then Inl (Fail ''workspace lease row is invalid'')
          else res_bind (row_child_scope key r) (\<lambda>scope.
            Inr \<lparr>we_Key = key, we_ChildScope = scope, we_Owner = row_owner r, we_Status = wl_status r,
                 we_Version = wl_version r, we_ExpiresAt = wl_expires_ns r\<rparr>))"

definition WorkspaceLease :: "bytes \<Rightarrow> db \<Rightarrow> WorkspaceLease_rec res" where
  "WorkspaceLease key d =
     (if key = zero32 then Inl (Fail ''workspace lease key is required'')
      else querySQLiteWorkspaceLease key d)"

section \<open>Reservation\<close>

definition reserved_row :: "WorkspaceLeaseReserve \<Rightarrow> int \<Rightarrow> int \<Rightarrow> int \<Rightarrow> lease_row" where
  "reserved_row q version created now =
     \<lparr>wl_worker = wo_WorkerID (wr_Owner q), wl_session = wo_SessionID (wr_Owner q),
      wl_epoch = wo_ConnectionEpoch (wr_Owner q), wl_gen = wo_CredentialGeneration (wr_Owner q),
      wl_lease_id = wo_LeaseID (wr_Owner q), wl_child_parent = map_option wc_ParentKey (wr_ChildScope q),
      wl_child_digest = map_option wc_CapabilityDigest (wr_ChildScope q),
      wl_child_expires_ns = map_option wc_ExpiresAt (wr_ChildScope q), wl_status = ''reserved'',
      wl_version = version, wl_expires_ns = wr_ExpiresAt q, wl_created_ms = created, wl_updated_ms = now\<rparr>"

definition ReserveWorkspaceLease_tx ::
  "WorkspaceLeaseReserve \<Rightarrow> clock \<Rightarrow> db \<Rightarrow> (db \<times> WorkspaceLease_rec) res" where
  "ReserveWorkspaceLease_tx q clk d =
     (let now = clk 0 in
      if UnixMilli (wr_ExpiresAt q) \<le> now
      then Inl (Fail ''workspace lease expiry is not in the future'')
      else if \<not> opt_all (\<lambda>c. UnixMilli (wc_ExpiresAt c) > now) (wr_ChildScope q)
      then Inl (Fail ''workspace lease child scope expiry is not in the future'')
      else
        let d = or_ignore (insert_lease (wr_Key q) (reserved_row q 1 now now) d) d in
        res_bind (querySQLiteWorkspaceLease (wr_Key q) d) (\<lambda>lease.
        if we_Status lease = ''reserved'' \<and> sameSQLiteWorkspaceLeaseReserve lease q then Inr (d, lease)
        else if we_Status lease \<noteq> ''released'' then Inl (Fail ''workspace lease already has a live owner'')
        else case map_of (session_workspace_leases d) (wr_Key q) of
          None \<Rightarrow> Inl (Fail ''workspace lease reserve conflict'')
        | Some r \<Rightarrow>
            if wl_status r \<noteq> ''released'' then Inl (Fail ''workspace lease reserve conflict'')
            else res_bind (put_lease (wr_Key q) (reserved_row q (wl_version r + 1) (wl_created_ms r) now) d) (\<lambda>d.
              res_bind (querySQLiteWorkspaceLease (wr_Key q) d) (\<lambda>lease. Inr (d, lease)))))"

definition ReserveWorkspaceLease :: "WorkspaceLeaseReserve \<Rightarrow> clock \<Rightarrow> db \<Rightarrow> db \<times> WorkspaceLease_rec res" where
  "ReserveWorkspaceLease q clk d =
     (case validateSQLiteWorkspaceLeaseReserve q of
        Inl e \<Rightarrow> (d, Inl e)
      | Inr _ \<Rightarrow> transaction (ReserveWorkspaceLease_tx q clk) d)"

section \<open>Transitions\<close>

definition unexpired_lease :: "lease_row \<Rightarrow> int \<Rightarrow> db \<Rightarrow> bool" where
  "unexpired_lease r now d \<longleftrightarrow>
     wl_expires_ns r > now * ms_ns \<and>
     (case wl_child_expires_ns r of None \<Rightarrow> True | Some x \<Rightarrow> x > now * ms_ns) \<and>
     lease_connection (wl_session r) (wl_epoch r) (wl_gen r) now d"

definition updateSQLiteWorkspaceLease_tx ::
  "bytes \<Rightarrow> int \<Rightarrow> WorkspaceLeaseOwner \<Rightarrow> string \<Rightarrow> string \<Rightarrow> bool \<Rightarrow> bool \<Rightarrow> clock \<Rightarrow> db \<Rightarrow>
   (db \<times> WorkspaceLease_rec) res" where
  "updateSQLiteWorkspaceLease_tx key v ow from target requireOwner requireAuthority clk d =
     res_bind (if requireAuthority then validateSQLiteWorkspaceLeaseAuthority ow (clk 0) d else Inr ()) (\<lambda>_.
     case map_of (session_workspace_leases d) key of
       None \<Rightarrow> Inl (Fail ''workspace lease transition conflict'')
     | Some r \<Rightarrow>
         if wl_version r = v \<and> (requireOwner \<longrightarrow> row_owner r = ow) \<and>
            (target = ''start_received'' \<longrightarrow> unexpired_lease r (clk 1) d) \<and>
            wl_status r \<in> set (sqliteWorkspaceStatuses from)
         then
           res_bind (put_lease key (r\<lparr>wl_status := target, wl_version := wl_version r + 1,
                       wl_updated_ms := clk 0\<rparr>) d) (\<lambda>d.
           res_bind (querySQLiteWorkspaceLease key d) (\<lambda>lease. Inr (d, lease)))
         else Inl (Fail ''workspace lease transition conflict''))"

definition updateSQLiteWorkspaceLease ::
  "bytes \<Rightarrow> int \<Rightarrow> WorkspaceLeaseOwner \<Rightarrow> string \<Rightarrow> string \<Rightarrow> bool \<Rightarrow> bool \<Rightarrow> clock \<Rightarrow> db \<Rightarrow>
   db \<times> WorkspaceLease_rec res" where
  "updateSQLiteWorkspaceLease key v ow from target requireOwner requireAuthority clk d =
     (if key = zero32 \<or> v < 1 \<or> (requireOwner \<and> \<not> validSQLiteWorkspaceLeaseOwner ow)
      then (d, Inl (Fail ''invalid workspace lease transition''))
      else transaction (updateSQLiteWorkspaceLease_tx key v ow from target requireOwner requireAuthority clk) d)"

definition no_owner :: WorkspaceLeaseOwner where
  "no_owner = \<lparr>wo_WorkerID = [], wo_SessionID = [], wo_ConnectionEpoch = 0, wo_CredentialGeneration = 0,
     wo_LeaseID = []\<rparr>"

definition RecordWorkspaceStartReceived ::
  "bytes \<Rightarrow> int \<Rightarrow> WorkspaceLeaseOwner \<Rightarrow> clock \<Rightarrow> db \<Rightarrow> db \<times> WorkspaceLease_rec res" where
  "RecordWorkspaceStartReceived key v ow =
     updateSQLiteWorkspaceLease key v ow ''reserved'' ''start_received'' True True"

definition QuarantineWorkspaceLease ::
  "bytes \<Rightarrow> int \<Rightarrow> clock \<Rightarrow> db \<Rightarrow> db \<times> WorkspaceLease_rec res" where
  "QuarantineWorkspaceLease key v =
     updateSQLiteWorkspaceLease key v no_owner ''reserved,start_received'' ''quarantined'' False False"

definition ReleaseWorkspaceLeaseAfterQuiescence ::
  "bytes \<Rightarrow> int \<Rightarrow> WorkspaceLeaseOwner \<Rightarrow> clock \<Rightarrow> db \<Rightarrow> db \<times> WorkspaceLease_rec res" where
  "ReleaseWorkspaceLeaseAfterQuiescence key v ow =
     updateSQLiteWorkspaceLease key v ow ''reserved,start_received,quarantined'' ''released'' True False"

section \<open>Every operation is a store step\<close>

lemma lease_of_row:
  assumes "querySQLiteWorkspaceLease key d = Inr l"
  obtains r where "map_of (session_workspace_leases d) key = Some r" "we_Status l = wl_status r"
    "we_Version l = wl_version r" "we_Owner l = row_owner r" "we_Key l = key" "we_ExpiresAt l = wl_expires_ns r"
  using assms by (auto simp: querySQLiteWorkspaceLease_def split: option.splits if_splits)

lemma update_lease_ok:
  assumes "updateSQLiteWorkspaceLease key v ow from target ro ra clk d = (d', Inr l)"
  obtains r where "map_of (session_workspace_leases d) key = Some r" "wl_version r = v" "ro \<Longrightarrow> row_owner r = ow"
    "target = ''start_received'' \<Longrightarrow> unexpired_lease r (clk 1) d"
    "wl_status r \<in> set (sqliteWorkspaceStatuses from)"
    "ra \<Longrightarrow> validateSQLiteWorkspaceLeaseAuthority ow (clk 0) d = Inr ()"
    "put_lease key (r\<lparr>wl_status := target, wl_version := v + 1, wl_updated_ms := clk 0\<rparr>) d = Inr d'"
    "querySQLiteWorkspaceLease key d' = Inr l"
  using assms
  by (auto simp: updateSQLiteWorkspaceLease_def updateSQLiteWorkspaceLease_tx_def transaction_ok_iff
      split: if_splits option.splits)

lemma update_lease_error:
  "updateSQLiteWorkspaceLease key v ow from target ro ra clk d = (d', Inl e) \<Longrightarrow> d' = d"
  by (auto simp: updateSQLiteWorkspaceLease_def transaction_def split: if_splits sum.splits)

lemma updateSQLiteWorkspaceLease_step:
  "store_step d (fst (updateSQLiteWorkspaceLease key v ow from target ro ra clk d))"
proof (cases "updateSQLiteWorkspaceLease key v ow from target ro ra clk d")
  case (Pair d' x)
  show ?thesis
  proof (cases x)
    case (Inr l)
    with Pair have "updateSQLiteWorkspaceLease key v ow from target ro ra clk d = (d', Inr l)" by simp
    then show ?thesis
    proof (cases rule: update_lease_ok)
      case (1 r)
      have "store_step d d'"
        by (rule store_step_lease [OF 1(7)]) (use 1(1,2) in \<open>auto simp: lease_prog_def\<close>)
      then show ?thesis by (simp add: Pair)
    qed
  next
    case (Inl e)
    with Pair update_lease_error [of key v ow "from" target ro ra clk d d' e] show ?thesis by simp
  qed
qed

lemma reserve_lease_cases:
  assumes "ReserveWorkspaceLease_tx q clk d = Inr (d', l)"
  defines "d1 \<equiv> or_ignore (insert_lease (wr_Key q) (reserved_row q 1 (clk 0) (clk 0)) d) d"
  obtains (held) "d' = d1" "querySQLiteWorkspaceLease (wr_Key q) d1 = Inr l" "we_Status l = ''reserved''"
      "sameSQLiteWorkspaceLeaseReserve l q"
  | (replaced) r where "map_of (session_workspace_leases d1) (wr_Key q) = Some r" "wl_status r = ''released''"
      "put_lease (wr_Key q) (reserved_row q (wl_version r + 1) (wl_created_ms r) (clk 0)) d1 = Inr d'"
      "querySQLiteWorkspaceLease (wr_Key q) d' = Inr l"
  using assms(1)
  by (auto simp: ReserveWorkspaceLease_tx_def Let_def d1_def [symmetric] split: if_splits option.splits
      intro: held replaced)

lemma ReserveWorkspaceLease_step: "store_step d (fst (ReserveWorkspaceLease q clk d))"
proof -
  let ?d1 = "or_ignore (insert_lease (wr_Key q) (reserved_row q 1 (clk 0) (clk 0)) d) d"
  have one: "store_step d ?d1" by (intro store_step_or_ignore store_step_insert_lease)
  have "store_step d d'" if "ReserveWorkspaceLease_tx q clk d = Inr (d', l)" for d' l
    using that
  proof (cases rule: reserve_lease_cases)
    case (replaced r)
    have "store_step ?d1 d'"
      by (rule store_step_lease [OF replaced(3)]) (use replaced(1) in \<open>auto simp: lease_prog_def reserved_row_def\<close>)
    with one show ?thesis by (rule store_step_trans)
  qed (use one in simp)
  then show ?thesis
    by (auto simp: ReserveWorkspaceLease_def split: sum.splits intro: transaction_step)
qed

lemmas lease_steps = ReserveWorkspaceLease_step updateSQLiteWorkspaceLease_step

section \<open>Properties\<close>

lemma put_lease_other:
  "put_lease key r d = Inr d' \<Longrightarrow> map_of (session_workspace_leases d') k =
     (if k = key then Some r else map_of (session_workspace_leases d) k)"
  by (auto simp: put_lease_def split: if_splits)

lemma insert_lease_row:
  "map_of (session_workspace_leases (or_ignore (insert_lease key r d) d)) key =
     (case map_of (session_workspace_leases d) key of
        Some old \<Rightarrow> Some old
      | None \<Rightarrow> if check_lease_row key r then Some r else None)"
  by (auto simp: or_ignore_def insert_lease_def put_lease_def split: sum.splits if_splits option.splits)

lemma reserved_row_simps [simp]:
  "row_owner (reserved_row q v c n) = wr_Owner q" "wl_status (reserved_row q v c n) = ''reserved''"
  "wl_expires_ns (reserved_row q v c n) = wr_ExpiresAt q" "wl_version (reserved_row q v c n) = v"
  by (simp_all add: row_owner_def reserved_row_def)

lemma reserve_lease_row:
  assumes "ReserveWorkspaceLease q clk d = (d', Inr l)"
  shows "\<exists>r. map_of (session_workspace_leases d') (wr_Key q) = Some r \<and> row_owner r = wr_Owner q \<and>
    wl_status r = ''reserved'' \<and> wl_expires_ns r = wr_ExpiresAt q"
    "querySQLiteWorkspaceLease (wr_Key q) d' = Inr l"
    "\<forall>r. map_of (session_workspace_leases d) (wr_Key q) = Some r \<longrightarrow>
       wl_status r = ''released'' \<or> (wl_status r = ''reserved'' \<and> row_owner r = wr_Owner q)"
proof -
  have tx: "ReserveWorkspaceLease_tx q clk d = Inr (d', l)"
    using assms by (auto simp: ReserveWorkspaceLease_def transaction_ok_iff split: sum.splits)
  then have "(\<exists>r. map_of (session_workspace_leases d') (wr_Key q) = Some r \<and> row_owner r = wr_Owner q \<and>
    wl_status r = ''reserved'' \<and> wl_expires_ns r = wr_ExpiresAt q) \<and>
    querySQLiteWorkspaceLease (wr_Key q) d' = Inr l \<and>
    (\<forall>r. map_of (session_workspace_leases d) (wr_Key q) = Some r \<longrightarrow>
       wl_status r = ''released'' \<or> (wl_status r = ''reserved'' \<and> row_owner r = wr_Owner q))"
  proof (cases rule: reserve_lease_cases)
    case held
    then show ?thesis
      using insert_lease_row [of "wr_Key q" "reserved_row q 1 (clk 0) (clk 0)" d]
      by (auto simp: sameSQLiteWorkspaceLeaseReserve_def elim!: lease_of_row split: option.splits if_splits)
  next
    case (replaced r)
    then show ?thesis
      using insert_lease_row [of "wr_Key q" "reserved_row q 1 (clk 0) (clk 0)" d] put_lease_other [OF replaced(3)]
      by (auto split: option.splits if_splits)
  qed
  then show "\<exists>r. map_of (session_workspace_leases d') (wr_Key q) = Some r \<and> row_owner r = wr_Owner q \<and>
      wl_status r = ''reserved'' \<and> wl_expires_ns r = wr_ExpiresAt q"
    "querySQLiteWorkspaceLease (wr_Key q) d' = Inr l"
    "\<forall>r. map_of (session_workspace_leases d) (wr_Key q) = Some r \<longrightarrow>
       wl_status r = ''released'' \<or> (wl_status r = ''reserved'' \<and> row_owner r = wr_Owner q)" by blast+
qed

lemma reserve_lease_refused:
  assumes "map_of (session_workspace_leases d) (wr_Key q) = Some r" "row_owner r \<noteq> wr_Owner q"
    "wl_status r \<noteq> ''released''"
  shows "\<exists>e. ReserveWorkspaceLease q clk d = (d, Inl e)"
proof (cases "ReserveWorkspaceLease q clk d")
  case (Pair d' x)
  show ?thesis
  proof (cases x)
    case (Inr l)
    with Pair have "ReserveWorkspaceLease q clk d = (d', Inr l)" by simp
    then show ?thesis using reserve_lease_row(3) [of q clk d d' l] assms by blast
  next
    case (Inl e)
    with Pair show ?thesis
      by (auto simp: ReserveWorkspaceLease_def transaction_def split: sum.splits)
  qed
qed

text \<open>
  C17: a workspace has at most one live owner. A reservation succeeds only on a workspace that is
  free, released or already reserved by the same owner, and the lease it returns is the stored one.
  From then on, as long as the row keeps its version, every reservation by another owner is refused
  without effect.
\<close>

theorem lease_exclusive:
  assumes ok: "ReserveWorkspaceLease q clk d = (d', Inr l)"
  shows "(\<forall>r. map_of (session_workspace_leases d) (wr_Key q) = Some r \<longrightarrow>
       wl_status r = ''released'' \<or> (wl_status r = ''reserved'' \<and> row_owner r = wr_Owner q)) \<and>
    querySQLiteWorkspaceLease (wr_Key q) d' = Inr l \<and> we_Owner l = wr_Owner q \<and>
    we_Status l = ''reserved'' \<and> we_ExpiresAt l = wr_ExpiresAt q \<and>
    (\<forall>later q' clk'. store_step d' later \<and> wr_Key q' = wr_Key q \<and> wr_Owner q' \<noteq> wr_Owner q \<and>
       (\<forall>r. map_of (session_workspace_leases later) (wr_Key q) = Some r \<longrightarrow> wl_version r = we_Version l) \<longrightarrow>
       (\<exists>e. ReserveWorkspaceLease q' clk' later = (later, Inl e)))"
proof -
  note row = reserve_lease_row [OF ok]
  obtain r where r: "map_of (session_workspace_leases d') (wr_Key q) = Some r" "row_owner r = wr_Owner q"
    "wl_status r = ''reserved''" "wl_expires_ns r = wr_ExpiresAt q" using row(1) by blast
  have l: "we_Owner l = wr_Owner q" "we_Status l = ''reserved''" "we_ExpiresAt l = wr_ExpiresAt q"
    "we_Version l = wl_version r"
    by (rule lease_of_row [OF row(2)], use r in simp)+
  have "\<exists>e. ReserveWorkspaceLease q' clk' later = (later, Inl e)"
    if step: "store_step d' later" and key: "wr_Key q' = wr_Key q" and other: "wr_Owner q' \<noteq> wr_Owner q"
      and version: "\<forall>x. map_of (session_workspace_leases later) (wr_Key q) = Some x \<longrightarrow> wl_version x = we_Version l"
    for later q' clk'
  proof (rule reserve_lease_refused)
    obtain r' where r': "map_of (session_workspace_leases later) (wr_Key q) = Some r'"
      using lease_rows.advance [OF step r(1)] by blast
    then have "r' = r" using lease_rows.same_version [OF step r(1)] version l(4) by simp
    then show "map_of (session_workspace_leases later) (wr_Key q') = Some r" using r' key by simp
  qed (use r other in auto)
  then show ?thesis using row(2,3) l by blast
qed

definition demo_owner :: "string \<Rightarrow> WorkspaceLeaseOwner" where
  "demo_owner worker = \<lparr>wo_WorkerID = worker, wo_SessionID = ''s'', wo_ConnectionEpoch = 1,
     wo_CredentialGeneration = 1, wo_LeaseID = ''lease''\<rparr>"

definition demo_reserve :: "string \<Rightarrow> WorkspaceLeaseReserve" where
  "demo_reserve worker = \<lparr>wr_Key = replicate 32 (CHR ''k''), wr_ChildScope = None, wr_Owner = demo_owner worker,
     wr_ExpiresAt = fromMilli 900\<rparr>"

definition demo_leased :: db where
  "demo_leased = fst (ReserveWorkspaceLease (demo_reserve ''w'') (\<lambda>_. 8)
     (fst (UpdateAttachment ''a'' 0 demo_queue_update (\<lambda>_. 8) demo_attached)))"

lemma demo_lease:
  "\<exists>l. ReserveWorkspaceLease (demo_reserve ''w'') (\<lambda>_. 8)
     (fst (UpdateAttachment ''a'' 0 demo_queue_update (\<lambda>_. 8) demo_attached)) = (demo_leased, Inr l)"
proof -
  have "is_ok (snd (ReserveWorkspaceLease (demo_reserve ''w'') (\<lambda>_. 8)
      (fst (UpdateAttachment ''a'' 0 demo_queue_update (\<lambda>_. 8) demo_attached))))" by code_simp
  then show ?thesis by (auto simp: demo_leased_def is_ok_iff prod_eq_iff)
qed

theorem lease_exclusive_witness:
  "\<exists>e. ReserveWorkspaceLease (demo_reserve ''v'') (\<lambda>_. 9) demo_leased = (demo_leased, Inl e)"
proof -
  obtain l where ok: "ReserveWorkspaceLease (demo_reserve ''w'') (\<lambda>_. 8)
     (fst (UpdateAttachment ''a'' 0 demo_queue_update (\<lambda>_. 8) demo_attached)) = (demo_leased, Inr l)"
    using demo_lease by blast
  have same: "wr_Key (demo_reserve ''v'') = wr_Key (demo_reserve ''w'')"
    "wr_Owner (demo_reserve ''v'') \<noteq> wr_Owner (demo_reserve ''w'')"
    by (simp_all add: demo_reserve_def demo_owner_def)
  note facts = lease_exclusive [OF ok]
  have "\<forall>r. map_of (session_workspace_leases demo_leased) (wr_Key (demo_reserve ''w'')) = Some r \<longrightarrow>
      wl_version r = we_Version l"
    using facts by (auto elim: lease_of_row)
  then show ?thesis using facts same store_step_refl [of demo_leased] by blast
qed

text \<open>
  C18: the start of a provider is recorded only for the owner of an unexpired reservation, on the
  version it names, while the owner's connection is current and its session is the target of a live
  attachment. The lease then changes its status and version only, and no transition that names the
  old version succeeds any more.
\<close>

theorem lease_start_authorised:
  assumes ok: "RecordWorkspaceStartReceived key v ow clk d = (d', Inr l)"
  shows "\<exists>r. map_of (session_workspace_leases d) key = Some r \<and> row_owner r = ow \<and> wl_version r = v \<and>
    wl_status r = ''reserved'' \<and> clk 1 * ms_ns < wl_expires_ns r \<and>
    current_authority d (wo_SessionID ow) \<lparr>ca_ConnectionEpoch = wo_ConnectionEpoch ow,
      ca_CredentialGeneration = wo_CredentialGeneration ow\<rparr> (clk 1) \<and>
    (\<exists>(a, t) \<in> set (session_attachments d). ac_target t = wo_SessionID ow \<and>
       ac_status t \<in> {''queued'', ''start_received''}) \<and>
    map_of (session_workspace_leases d') key =
      Some (r\<lparr>wl_status := ''start_received'', wl_version := v + 1, wl_updated_ms := clk 0\<rparr>) \<and>
    (\<forall>later ow' from target ro ra clk'. store_step d' later \<longrightarrow>
       (\<exists>e. updateSQLiteWorkspaceLease key v ow' from target ro ra clk' later = (later, Inl e)))"
proof -
  have upd: "updateSQLiteWorkspaceLease key v ow ''reserved'' ''start_received'' True True clk d = (d', Inr l)"
    using ok by (simp add: RecordWorkspaceStartReceived_def)
  then show ?thesis
  proof (cases rule: update_lease_ok)
    case (1 r)
    let ?r = "r\<lparr>wl_status := ''start_received'', wl_version := v + 1, wl_updated_ms := clk 0\<rparr>"
    have row: "map_of (session_workspace_leases d') key = Some ?r" using put_lease_other [OF 1(7)] by simp
    have status: "wl_status r = ''reserved''" using 1(5) by (simp add: sqliteWorkspaceStatuses_def)
    have live: "unexpired_lease r (clk 1) d" and ow: "row_owner r = ow" using 1(3,4) by simp_all
    have stale: "\<exists>e. updateSQLiteWorkspaceLease key v ow' from target ro ra clk' later = (later, Inl e)"
      if step: "store_step d' later" for later ow' "from" target ro ra clk'
    proof (cases "updateSQLiteWorkspaceLease key v ow' from target ro ra clk' later")
      case (Pair d2 x)
      have "v < wl_version ?r" by simp
      then obtain r2 where r2: "map_of (session_workspace_leases later) key = Some r2" "v < wl_version r2"
        using lease_rows.stale_version [OF step row] by blast
      show ?thesis
      proof (cases x)
        case (Inl e) with Pair update_lease_error show ?thesis by blast
      next
        case (Inr l2)
        with Pair have "updateSQLiteWorkspaceLease key v ow' from target ro ra clk' later = (d2, Inr l2)" by simp
        then show ?thesis by (rule update_lease_ok) (use r2 in auto)
      qed
    qed
    have "\<exists>(a, t) \<in> set (session_attachments d). ac_target t = wo_SessionID ow \<and>
        ac_status t \<in> {''queued'', ''start_received''}"
      using live ow unfolding unexpired_lease_def lease_connection_def by (fastforce simp: row_owner_def)
    then show ?thesis
      using live ow status 1(1,2) row stale
      by (intro exI [of _ r] conjI) (auto simp: unexpired_lease_def lease_connection_def row_owner_def)
  qed
qed

theorem lease_start_authorised_witness:
  "\<exists>d' l. RecordWorkspaceStartReceived (replicate 32 (CHR ''k'')) 1 (demo_owner ''w'') (\<lambda>_. 9) demo_leased = (d', Inr l) \<and>
     (\<exists>e. QuarantineWorkspaceLease (replicate 32 (CHR ''k'')) 1 (\<lambda>_. 10) d' = (d', Inl e))"
proof -
  have "is_ok (snd (RecordWorkspaceStartReceived (replicate 32 (CHR ''k'')) 1 (demo_owner ''w'') (\<lambda>_. 9) demo_leased))"
    by code_simp
  then obtain d' l where ok: "RecordWorkspaceStartReceived (replicate 32 (CHR ''k'')) 1 (demo_owner ''w'') (\<lambda>_. 9) demo_leased = (d', Inr l)"
    by (auto simp: is_ok_iff prod_eq_iff)
  then show ?thesis
    using lease_start_authorised [OF ok] store_step_refl [of d'] unfolding QuarantineWorkspaceLease_def by blast
qed

text \<open>
  C39: an owner can always release a readable lease on its current version, from every status but
  released; no current connection is needed for it.
\<close>

theorem lease_release_succeeds:
  assumes wf: "wf d" and l: "WorkspaceLease key d = Inr l" and held: "we_Status l \<noteq> ''released''"
    and time: "\<forall>r. map_of (session_workspace_leases d) key = Some r \<longrightarrow> wl_created_ms r \<le> clk 0"
  shows "\<exists>d'. ReleaseWorkspaceLeaseAfterQuiescence key (we_Version l) (we_Owner l) clk d =
    (d', Inr (l\<lparr>we_Status := ''released'', we_Version := we_Version l + 1\<rparr>))"
proof -
  have key: "key \<noteq> zero32" and q: "querySQLiteWorkspaceLease key d = Inr l"
    using l by (auto simp: WorkspaceLease_def split: if_splits)
  then obtain r sc where r: "map_of (session_workspace_leases d) key = Some r" "length key = 32"
    "validSQLiteWorkspaceLeaseOwner (row_owner r)" "wl_version r \<ge> 1" "wl_created_ms r * ms_ns < wl_expires_ns r"
    "wl_status r \<in> {''reserved'', ''start_received'', ''quarantined'', ''released''}"
    "row_child_scope key r = Inr sc"
    "l = \<lparr>we_Key = key, we_ChildScope = sc, we_Owner = row_owner r, we_Status = wl_status r,
          we_Version = wl_version r, we_ExpiresAt = wl_expires_ns r\<rparr>"
    by (auto simp: querySQLiteWorkspaceLease_def split: option.splits if_splits)
  let ?r = "r\<lparr>wl_status := ''released'', wl_version := wl_version r + 1, wl_updated_ms := clk 0\<rparr>"
  let ?d = "d\<lparr>session_workspace_leases := AList.update key ?r (session_workspace_leases d)\<rparr>"
  have "check_lease_row key r" using wf r(1) by (auto simp: wf_def plain_ok_def dest: tbl_okD)
  then have "put_lease key ?r d = Inr ?d" using time r(1,4) by (simp add: put_lease_def check_lease_row_def)
  moreover have "row_child_scope key ?r = Inr sc" using r(7) by (simp add: row_child_scope_def cong: if_cong option.case_cong)
  then have "querySQLiteWorkspaceLease key ?d = Inr (l\<lparr>we_Status := ''released'', we_Version := we_Version l + 1\<rparr>)"
    using r time by (simp add: querySQLiteWorkspaceLease_def row_owner_def)
  moreover have "wl_status r \<in> set (sqliteWorkspaceStatuses ''reserved,start_received,quarantined'')"
    using r(6,8) held by (auto simp: sqliteWorkspaceStatuses_def)
  ultimately show ?thesis
    using r key by (simp add: ReleaseWorkspaceLeaseAfterQuiescence_def updateSQLiteWorkspaceLease_def
        updateSQLiteWorkspaceLease_tx_def transaction_def)
qed

lemma demo_leased_wf: "wf demo_leased"
proof -
  have "wf demo_attached" unfolding demo_attached_def
    by (rule store_step_wf [OF CreateAttachment_step demo_wf(2)])
  then show ?thesis unfolding demo_leased_def
    by (intro store_step_wf [OF ReserveWorkspaceLease_step] store_step_wf [OF UpdateAttachment_step])
qed

theorem lease_release_succeeds_witness:
  "\<exists>d' l. WorkspaceLease (replicate 32 (CHR ''k'')) demo_leased = Inr l \<and>
     ReleaseWorkspaceLeaseAfterQuiescence (replicate 32 (CHR ''k'')) 1 (demo_owner ''w'') (\<lambda>_. 9) demo_leased =
       (d', Inr (l\<lparr>we_Status := ''released'', we_Version := 2\<rparr>))"
proof -
  have "case WorkspaceLease (replicate 32 (CHR ''k'')) demo_leased of Inl e \<Rightarrow> False
      | Inr l \<Rightarrow> we_Status l \<noteq> ''released'' \<and> we_Version l = 1 \<and> we_Owner l = demo_owner ''w''"
    by code_simp
  then obtain l where l: "WorkspaceLease (replicate 32 (CHR ''k'')) demo_leased = Inr l"
    "we_Status l \<noteq> ''released''" "we_Version l = 1" "we_Owner l = demo_owner ''w''"
    by (auto split: sum.splits)
  have "map_option wl_created_ms (map_of (session_workspace_leases demo_leased) (replicate 32 (CHR ''k''))) = Some 8"
    by code_simp
  then have "\<forall>r. map_of (session_workspace_leases demo_leased) (replicate 32 (CHR ''k'')) = Some r \<longrightarrow>
      wl_created_ms r \<le> (\<lambda>_::nat. 9) 0" by auto
  from lease_release_succeeds [OF demo_leased_wf l(1,2) this] show ?thesis using l by auto
qed

end
