(* ===== verification/Attach_Attempts.thy ===== *)
theory Attach_Attempts
  imports Workspace_Leases "HOL-Library.Multiset"
begin

text \<open>
  Attach attempts (\<^verbatim>\<open>CommitAttachAttempt\<close> and \<^verbatim>\<open>AttachAttempt\<close> of
  \<^verbatim>\<open>store/sqlite/store.go\<close>): one immutable admission result per token hash until it
  expires. Each access first removes a bounded number of expired rows, the oldest first. Hashes and
  digests are 32-byte strings; the all-zero value stands for a missing one.
\<close>

section \<open>Data\<close>

record AttachAttemptIdentity =
  ax_JTIHash :: bytes
  ax_AttachID :: string
  ax_BootstrapSessionID :: string
  ax_TargetSessionID :: string
  ax_Provider :: string

record AttachAttemptFingerprint =
  af_Domain :: string
  af_Version :: int
  af_Digest :: bytes
  af_KeyVersion :: int

record AttachAttemptRequest =
  aq_Identity :: AttachAttemptIdentity
  aq_Fingerprint :: AttachAttemptFingerprint
  aq_ExpiresAt :: gotime
  aq_Outcome :: string
  aq_IssuedCredentialGeneration :: "int option"

record AttachAttempt_rec =
  az_Identity :: AttachAttemptIdentity
  az_Fingerprint :: AttachAttemptFingerprint
  az_ExpiresAt :: gotime
  az_Outcome :: string
  az_IssuedCredentialGeneration :: "int option"

record AttachAttemptCommit =
  ay_Attempt :: AttachAttempt_rec
  ay_Duplicate :: bool

definition maxAttachAttemptTTL :: gotime where "maxAttachAttemptTTL = 300 * sec_ns"

definition maxAttachAttemptCleanupRows :: nat where "maxAttachAttemptCleanupRows = 128"

section \<open>Checks\<close>

definition valid_attempt_identity :: "AttachAttemptIdentity \<Rightarrow> AttachAttemptFingerprint \<Rightarrow> bool" where
  "valid_attempt_identity i g \<longleftrightarrow>
     ax_JTIHash i \<noteq> zero32 \<and> validConnectionID (ax_AttachID i) \<and> validConnectionID (ax_BootstrapSessionID i) \<and>
     validConnectionID (ax_TargetSessionID i) \<and> ax_BootstrapSessionID i \<noteq> ax_TargetSessionID i \<and>
     length (ax_Provider i) \<noteq> 0 \<and> length (ax_Provider i) \<le> 128 \<and>
     af_Domain g = ''agentwharf.attach-request.v1'' \<and> af_Version g = 1 \<and> af_Digest g \<noteq> zero32 \<and>
     af_KeyVersion g \<ge> 1 \<and> af_KeyVersion g \<le> 2147483647"

definition valid_attempt_outcome :: "string \<Rightarrow> int option \<Rightarrow> bool" where
  "valid_attempt_outcome outcome issued \<longleftrightarrow>
     (outcome = ''accepted'' \<and> (case issued of None \<Rightarrow> False | Some g \<Rightarrow> g > 0)) \<or>
     (outcome = ''rejected'' \<and> issued = None)"

definition validateSQLiteAttachAttempt :: "AttachAttemptRequest \<Rightarrow> gotime \<Rightarrow> unit res" where
  "validateSQLiteAttachAttempt q now =
     (if \<not> valid_attempt_identity (aq_Identity q) (aq_Fingerprint q) \<or> aq_ExpiresAt q = zeroTime \<or>
         \<not> aq_ExpiresAt q > now \<or> aq_ExpiresAt q > now + maxAttachAttemptTTL
      then Inl (Fail ''invalid attach attempt'')
      else if valid_attempt_outcome (aq_Outcome q) (aq_IssuedCredentialGeneration q) then Inr ()
      else Inl (Fail ''invalid attach attempt outcome''))"

definition validStoredSQLiteAttachAttempt :: "AttachAttempt_rec \<Rightarrow> bool" where
  "validStoredSQLiteAttachAttempt a \<longleftrightarrow>
     valid_attempt_identity (az_Identity a) (az_Fingerprint a) \<and> az_ExpiresAt a \<noteq> zeroTime \<and>
     az_ExpiresAt a \<ge> 1 \<and> valid_attempt_outcome (az_Outcome a) (az_IssuedCredentialGeneration a)"

definition sameSQLiteAttachAttempt :: "AttachAttempt_rec \<Rightarrow> AttachAttemptRequest \<Rightarrow> bool" where
  "sameSQLiteAttachAttempt a q \<longleftrightarrow>
     az_Identity a = aq_Identity q \<and> az_Fingerprint a = aq_Fingerprint q \<and> az_ExpiresAt a = aq_ExpiresAt q \<and>
     az_Outcome a = aq_Outcome q \<and> az_IssuedCredentialGeneration a = aq_IssuedCredentialGeneration q"

section \<open>Rows\<close>

definition row_attempt :: "bytes \<Rightarrow> attempt_row \<Rightarrow> AttachAttempt_rec" where
  "row_attempt jti r =
     \<lparr>az_Identity = \<lparr>ax_JTIHash = jti, ax_AttachID = at_attach_id r, ax_BootstrapSessionID = at_bootstrap r,
        ax_TargetSessionID = at_target r, ax_Provider = at_provider r\<rparr>,
      az_Fingerprint = \<lparr>af_Domain = at_domain r, af_Version = at_version r, af_Digest = at_digest r,
        af_KeyVersion = at_key_version r\<rparr>,
      az_ExpiresAt = at_expires_ns r, az_Outcome = at_outcome r, az_IssuedCredentialGeneration = at_issued_gen r\<rparr>"

definition querySQLiteAttachAttempt :: "bytes \<Rightarrow> db \<Rightarrow> AttachAttempt_rec res" where
  "querySQLiteAttachAttempt jti d =
     (case map_of (session_attach_attempts d) jti of
        None \<Rightarrow> Inl NoRows
      | Some r \<Rightarrow>
          if length jti \<noteq> 32 \<or> length (at_digest r) \<noteq> 32 \<or> at_created_ms r < 1 \<or>
             at_expires_ns r \<le> at_created_ms r * ms_ns \<or> \<not> validStoredSQLiteAttachAttempt (row_attempt jti r)
          then Inl (Fail ''attach attempt row is invalid'')
          else Inr (row_attempt jti r))"

definition attempt_row_of :: "AttachAttemptRequest \<Rightarrow> int \<Rightarrow> attempt_row" where
  "attempt_row_of q now =
     \<lparr>at_attach_id = ax_AttachID (aq_Identity q), at_bootstrap = ax_BootstrapSessionID (aq_Identity q),
      at_target = ax_TargetSessionID (aq_Identity q), at_provider = ax_Provider (aq_Identity q),
      at_domain = af_Domain (aq_Fingerprint q), at_version = af_Version (aq_Fingerprint q),
      at_digest = af_Digest (aq_Fingerprint q), at_key_version = af_KeyVersion (aq_Fingerprint q),
      at_expires_ns = aq_ExpiresAt q, at_outcome = aq_Outcome q,
      at_issued_gen = aq_IssuedCredentialGeneration q, at_created_ms = now\<rparr>"

section \<open>Clean-up\<close>

definition expired_attempts :: "int \<Rightarrow> db \<Rightarrow> bytes list" where
  "expired_attempts now d =
     map fst (sort_key (\<lambda>(j, r). at_expires_ns r) (sort_key fst
       (filter (\<lambda>(j, r). at_expires_ns r \<le> now * ms_ns) (session_attach_attempts d))))"

definition cleanupExpiredSQLiteAttachAttempts :: "int \<Rightarrow> db \<Rightarrow> db" where
  "cleanupExpiredSQLiteAttachAttempts now d =
     (let victims = take maxAttachAttemptCleanupRows (expired_attempts now d)
      in d\<lparr>session_attach_attempts := filter (\<lambda>x. fst x \<notin> set victims) (session_attach_attempts d)\<rparr>)"

section \<open>Operations\<close>

definition CommitAttachAttempt_tx :: "AttachAttemptRequest \<Rightarrow> clock \<Rightarrow> db \<Rightarrow> (db \<times> AttachAttemptCommit) res" where
  "CommitAttachAttempt_tx q clk d =
     res_bind (validateSQLiteAttachAttempt q (fromMilli (clk 0))) (\<lambda>_.
     let jti = ax_JTIHash (aq_Identity q); d = cleanupExpiredSQLiteAttachAttempts (clk 1) d in
     res_bind (validateSQLiteAttachAttempt q (fromMilli (clk 2))) (\<lambda>_.
     let w = insert_attempt jti (attempt_row_of q (clk 2)) d; changed = is_ok w; d = or_ignore w d in
     res_bind (querySQLiteAttachAttempt jti d) (\<lambda>current.
     if changed then Inr (d, \<lparr>ay_Attempt = current, ay_Duplicate = False\<rparr>)
     else if \<not> sameSQLiteAttachAttempt current q then Inl (Fail ''attach attempt is immutable'')
     else Inr (d, \<lparr>ay_Attempt = current, ay_Duplicate = True\<rparr>))))"

definition CommitAttachAttempt :: "AttachAttemptRequest \<Rightarrow> clock \<Rightarrow> db \<Rightarrow> db \<times> AttachAttemptCommit res" where
  "CommitAttachAttempt q clk = transaction (CommitAttachAttempt_tx q clk)"

text \<open>A read that finds nothing, or an attempt that has expired meanwhile, keeps the clean-up.\<close>

definition AttachAttempt :: "bytes \<Rightarrow> clock \<Rightarrow> db \<Rightarrow> db \<times> AttachAttempt_rec res" where
  "AttachAttempt jti clk d =
     (if jti = zero32 then (d, Inl (Fail ''attach attempt JTI hash is required''))
      else
        let d1 = cleanupExpiredSQLiteAttachAttempts (clk 0) d in
        case querySQLiteAttachAttempt jti d1 of
          Inl NoRows \<Rightarrow> (d1, Inl NoRows)
        | Inl (Fail e) \<Rightarrow> (d, Inl (Fail e))
        | Inr a \<Rightarrow> if \<not> az_ExpiresAt a > fromMilli (clk 1) then (d1, Inl NoRows) else (d1, Inr a))"

section \<open>Every operation is a store step\<close>

lemma cleanup_step: "store_step d (cleanupExpiredSQLiteAttachAttempts now d)"
  unfolding cleanupExpiredSQLiteAttachAttempts_def Let_def by (rule store_step_drop_attempts)

lemma CommitAttachAttempt_step: "store_step d (fst (CommitAttachAttempt q clk d))"
  unfolding CommitAttachAttempt_def
proof (rule transaction_step)
  fix d' c assume ok: "CommitAttachAttempt_tx q clk d = Inr (d', c)"
  let ?d = "cleanupExpiredSQLiteAttachAttempts (clk 1) d"
  let ?w = "insert_attempt (ax_JTIHash (aq_Identity q)) (attempt_row_of q (clk 2)) ?d"
  have "d' = or_ignore ?w ?d"
    using ok by (auto simp: CommitAttachAttempt_tx_def Let_def split: if_splits)
  moreover have "store_step ?d (or_ignore ?w ?d)" by (intro store_step_or_ignore store_step_attempt)
  ultimately show "store_step d d'" using cleanup_step store_step_trans by blast
qed

lemma AttachAttempt_step: "store_step d (fst (AttachAttempt jti clk d))"
  using cleanup_step [of d "clk 0"]
  by (auto simp: AttachAttempt_def Let_def split: sum.splits err.splits)

lemmas attempt_steps = CommitAttachAttempt_step AttachAttempt_step

section \<open>Properties\<close>

lemma expired_attempts_set:
  "set (expired_attempts now d) = {j. \<exists>r. (j, r) \<in> set (session_attach_attempts d) \<and> at_expires_ns r \<le> now * ms_ns}"
  by (force simp: expired_attempts_def)

lemma cleanup_keeps:
  assumes "unique_keys (session_attach_attempts d)" "map_of (session_attach_attempts d) jti = Some r"
    "now * ms_ns < at_expires_ns r"
  shows "map_of (session_attach_attempts (cleanupExpiredSQLiteAttachAttempts now d)) jti = Some r"
proof -
  let ?v = "set (take maxAttachAttemptCleanupRows (expired_attempts now d))"
  have "jti \<notin> set (expired_attempts now d)"
    using assms by (auto simp: expired_attempts_set unique_keys_set_iff)
  then have "jti \<notin> ?v" by (meson in_set_takeD)
  have "map_of (filter (\<lambda>x. fst x \<notin> V) t) jti = (if jti \<in> V then None else map_of t jti)"
    for V and t :: "(bytes, attempt_row) table"
    by (induction t) auto
  with \<open>jti \<notin> ?v\<close> assms(2) show ?thesis by (simp add: cleanupExpiredSQLiteAttachAttempts_def)
qed

lemma query_attempt_cong:
  "map_of (session_attach_attempts d') jti = map_of (session_attach_attempts d) jti \<Longrightarrow>
   querySQLiteAttachAttempt jti d' = querySQLiteAttachAttempt jti d"
  by (simp add: querySQLiteAttachAttempt_def)

lemma commit_attempt_ok:
  assumes "CommitAttachAttempt q clk d = (d', Inr c)"
  shows "querySQLiteAttachAttempt (ax_JTIHash (aq_Identity q)) d' = Inr (ay_Attempt c)"
    "sameSQLiteAttachAttempt (ay_Attempt c) q"
proof -
  let ?j = "ax_JTIHash (aq_Identity q)" and ?d = "cleanupExpiredSQLiteAttachAttempts (clk 1) d"
  let ?w = "insert_attempt ?j (attempt_row_of q (clk 2)) ?d"
  have tx: "CommitAttachAttempt_tx q clk d = Inr (d', c)"
    using assms by (simp add: CommitAttachAttempt_def transaction_ok_iff)
  then have d': "d' = or_ignore ?w ?d" and same: "\<not> is_ok ?w \<Longrightarrow> sameSQLiteAttachAttempt (ay_Attempt c) q"
    by (auto simp: CommitAttachAttempt_tx_def Let_def split: if_splits)
  show query: "querySQLiteAttachAttempt ?j d' = Inr (ay_Attempt c)"
    using tx by (auto simp: CommitAttachAttempt_tx_def Let_def split: if_splits)
  show "sameSQLiteAttachAttempt (ay_Attempt c) q"
  proof (cases "is_ok ?w")
    case True
    then have "map_of (session_attach_attempts d') ?j = Some (attempt_row_of q (clk 2))"
      by (auto simp: d' is_ok_iff or_ignore_def insert_attempt_def split: if_splits)
    with query have "ay_Attempt c = row_attempt ?j (attempt_row_of q (clk 2))"
      by (auto simp: querySQLiteAttachAttempt_def split: if_splits)
    then show ?thesis by (simp add: sameSQLiteAttachAttempt_def row_attempt_def attempt_row_of_def)
  qed (rule same)
qed

text \<open>
  C40: an attach attempt is immutable while it lives. As long as the row is there and has not
  expired, every commit for the same token hash either is an exact retry, which returns the original
  result as a duplicate, or is refused without effect, and a read returns the original result.
\<close>

theorem attempt_immutable:
  assumes ok: "CommitAttachAttempt q clk d = (d', Inr c)"
    and row: "wf later" "map_of (session_attach_attempts later) (ax_JTIHash (aq_Identity q)) =
      map_of (session_attach_attempts d') (ax_JTIHash (aq_Identity q))"
    and hash: "ax_JTIHash (aq_Identity q') = ax_JTIHash (aq_Identity q)" "ax_JTIHash (aq_Identity q) \<noteq> zero32"
    and live: "\<And>i. fromMilli (clk' i) < aq_ExpiresAt q"
  shows "sameSQLiteAttachAttempt (ay_Attempt c) q \<and>
    (if sameSQLiteAttachAttempt (ay_Attempt c) q' \<and>
        (\<forall>i \<in> {0, 2}. validateSQLiteAttachAttempt q' (fromMilli (clk' i)) = Inr ())
     then CommitAttachAttempt q' clk' later = (cleanupExpiredSQLiteAttachAttempts (clk' 1) later,
        Inr \<lparr>ay_Attempt = ay_Attempt c, ay_Duplicate = True\<rparr>)
     else \<exists>e. CommitAttachAttempt q' clk' later = (later, Inl e)) \<and>
    snd (AttachAttempt (ax_JTIHash (aq_Identity q)) clk' later) = Inr (ay_Attempt c)"
proof -
  let ?j = "ax_JTIHash (aq_Identity q)"
  note c = commit_attempt_ok [OF ok]
  have expiry: "az_ExpiresAt (ay_Attempt c) = aq_ExpiresAt q" using c(2) by (simp add: sameSQLiteAttachAttempt_def)
  obtain r where r: "map_of (session_attach_attempts d') ?j = Some r" "ay_Attempt c = row_attempt ?j r"
    using c(1) by (auto simp: querySQLiteAttachAttempt_def split: option.splits if_splits)
  have "unique_keys (session_attach_attempts later)"
    using row(1) by (auto simp: wf_def plain_ok_def tbl_ok_def)
  then have kept: "map_of (session_attach_attempts (cleanupExpiredSQLiteAttachAttempts (clk' i) later)) ?j = Some r" for i
    using row(2) r expiry live [of i]
    by (intro cleanup_keeps) (auto simp: row_attempt_def fromMilli_def)
  then have query: "querySQLiteAttachAttempt ?j (cleanupExpiredSQLiteAttachAttempts (clk' i) later) = Inr (ay_Attempt c)" for i
    using c(1) query_attempt_cong [of d' ?j] r(1) by (metis query_attempt_cong)
  have ignored: "insert_attempt ?j x (cleanupExpiredSQLiteAttachAttempts (clk' 1) later) = Inl constraint_failed" for x
    using kept [of 1] by (auto simp: insert_attempt_def)
  have "if sameSQLiteAttachAttempt (ay_Attempt c) q' \<and>
        (\<forall>i \<in> {0, 2}. validateSQLiteAttachAttempt q' (fromMilli (clk' i)) = Inr ())
     then CommitAttachAttempt_tx q' clk' later = Inr (cleanupExpiredSQLiteAttachAttempts (clk' 1) later,
        \<lparr>ay_Attempt = ay_Attempt c, ay_Duplicate = True\<rparr>)
     else \<exists>e. CommitAttachAttempt_tx q' clk' later = Inl e"
    using query [of 1] ignored
    by (cases "validateSQLiteAttachAttempt q' (fromMilli (clk' 0))"; cases "validateSQLiteAttachAttempt q' (fromMilli (clk' 2))")
      (auto simp: CommitAttachAttempt_tx_def Let_def hash or_ignore_def)
  moreover have "snd (AttachAttempt ?j clk' later) = Inr (ay_Attempt c)"
    using query [of 0] hash(2) live [of 1] expiry by (simp add: AttachAttempt_def Let_def)
  ultimately show ?thesis
    using c(2) by (auto simp: CommitAttachAttempt_def transaction_def split: if_splits)
qed

definition demo_attempt :: AttachAttemptRequest where
  "demo_attempt =
     \<lparr>aq_Identity = \<lparr>ax_JTIHash = replicate 32 (CHR ''j''), ax_AttachID = ''a'', ax_BootstrapSessionID = ''boot'',
        ax_TargetSessionID = ''s'', ax_Provider = ''p''\<rparr>,
      aq_Fingerprint = \<lparr>af_Domain = ''agentwharf.attach-request.v1'', af_Version = 1,
        af_Digest = replicate 32 (CHR ''d''), af_KeyVersion = 1\<rparr>,
      aq_ExpiresAt = fromMilli 900, aq_Outcome = ''rejected'', aq_IssuedCredentialGeneration = None\<rparr>"

definition demo_attempted :: db where
  "demo_attempted = fst (CommitAttachAttempt demo_attempt (\<lambda>_. 7) initial_db)"

lemma demo_attempted_wf: "wf demo_attempted"
  unfolding demo_attempted_def by (rule store_step_wf [OF CommitAttachAttempt_step wf_initial])

theorem attempt_immutable_witness:
  "\<exists>c e. CommitAttachAttempt demo_attempt (\<lambda>_. 7) initial_db = (demo_attempted, Inr c) \<and>
     snd (CommitAttachAttempt demo_attempt (\<lambda>_. 8) demo_attempted) = Inr \<lparr>ay_Attempt = ay_Attempt c, ay_Duplicate = True\<rparr> \<and>
     CommitAttachAttempt (demo_attempt\<lparr>aq_ExpiresAt := fromMilli 800\<rparr>) (\<lambda>_. 8) demo_attempted = (demo_attempted, Inl e)"
proof -
  have "is_ok (snd (CommitAttachAttempt demo_attempt (\<lambda>_. 7) initial_db))" by code_simp
  then obtain c where ok: "CommitAttachAttempt demo_attempt (\<lambda>_. 7) initial_db = (demo_attempted, Inr c)"
    by (auto simp: demo_attempted_def is_ok_iff prod_eq_iff)
  have valid: "validateSQLiteAttachAttempt demo_attempt (fromMilli 8) = Inr ()"
    "ax_JTIHash (aq_Identity demo_attempt) \<noteq> zero32"
    "fromMilli 8 < aq_ExpiresAt demo_attempt" by code_simp+
  note retry = attempt_immutable [OF ok demo_attempted_wf refl refl valid(2), of "\<lambda>_. 8", OF valid(3)]
  let ?other = "demo_attempt\<lparr>aq_ExpiresAt := fromMilli 800\<rparr>"
  have hash: "ax_JTIHash (aq_Identity ?other) = ax_JTIHash (aq_Identity demo_attempt)" by simp
  note change = attempt_immutable [OF ok demo_attempted_wf refl hash valid(2), of "\<lambda>_. 8", OF valid(3)]
  have same: "sameSQLiteAttachAttempt (ay_Attempt c) demo_attempt" using retry by blast
  then have other: "\<not> sameSQLiteAttachAttempt (ay_Attempt c) ?other"
    by (simp add: sameSQLiteAttachAttempt_def demo_attempt_def)
  have "snd (CommitAttachAttempt demo_attempt (\<lambda>_. 8) demo_attempted) =
      Inr \<lparr>ay_Attempt = ay_Attempt c, ay_Duplicate = True\<rparr>"
    using retry same valid(1) by simp
  moreover have "\<exists>e. CommitAttachAttempt ?other (\<lambda>_. 8) demo_attempted = (demo_attempted, Inl e)"
    using change other by presburger
  ultimately show ?thesis using ok by blast
qed

text \<open>
  The clean-up before an access is bounded and safe: it removes at most 128 rows, only expired
  ones, the oldest first, and leaves every other attempt as it is; when no more than 128 have expired,
  none of them is left.
\<close>

theorem cleanup_bounded:
  fixes now :: int and d :: db
  assumes "wf d"
  defines "t \<equiv> map_of (session_attach_attempts d)"
    and "t' \<equiv> map_of (session_attach_attempts (cleanupExpiredSQLiteAttachAttempts now d))"
  shows "card (dom t - dom t') \<le> 128 \<and> (\<forall>j. j \<in> dom t' \<longrightarrow> t' j = t j) \<and>
    (\<forall>j \<in> dom t - dom t'. \<exists>r. t j = Some r \<and> at_expires_ns r \<le> now * ms_ns \<and>
       (\<forall>j' r'. t' j' = Some r' \<and> at_expires_ns r' \<le> now * ms_ns \<longrightarrow> at_expires_ns r \<le> at_expires_ns r')) \<and>
    (card {j. \<exists>r. t j = Some r \<and> at_expires_ns r \<le> now * ms_ns} \<le> 128 \<longrightarrow>
       (\<forall>j r. t' j = Some r \<longrightarrow> now * ms_ns < at_expires_ns r))"
proof -
  define rows where "rows = session_attach_attempts d"
  define xs where "xs = sort_key (\<lambda>(j, r). at_expires_ns r) (sort_key fst
       (filter (\<lambda>(j, r). at_expires_ns r \<le> now * ms_ns) rows))"
  define V where "V = set (map fst (take 128 xs))"
  have uniq: "unique_keys rows" using assms(1) by (auto simp: wf_def plain_ok_def tbl_ok_def rows_def)
  have xs: "(j, r) \<in> set xs \<longleftrightarrow> t j = Some r \<and> at_expires_ns r \<le> now * ms_ns" for j r
    using unique_keys_set_iff [OF uniq] by (auto simp: xs_def t_def rows_def)
  have dist: "distinct (map fst xs)"
  proof -
    have "mset (map fst xs) = mset (map fst (filter (\<lambda>(j, r). at_expires_ns r \<le> now * ms_ns) rows))"
      by (simp add: xs_def)
    then show ?thesis
      using uniq distinct_map_filter by (metis mset_eq_imp_distinct_iff unique_keys_def)
  qed
  have t': "t' j = (if j \<in> V then None else t j)" for j
  proof -
    have "map_of (filter (\<lambda>x. fst x \<notin> V) u) j = (if j \<in> V then None else map_of u j)"
      for u :: "(bytes, attempt_row) table" by (induction u) auto
    then show ?thesis
      by (simp add: t'_def t_def cleanupExpiredSQLiteAttachAttempts_def expired_attempts_def V_def xs_def rows_def
          maxAttachAttemptCleanupRows_def take_map)
  qed
  have V: "\<exists>r. (j, r) \<in> set (take 128 xs) \<and> t j = Some r \<and> at_expires_ns r \<le> now * ms_ns" if jV: "j \<in> V" for j
  proof -
    obtain r where "(j, r) \<in> set (take 128 xs)" using jV by (auto simp: V_def)
    then show ?thesis using xs [of j r] in_set_takeD by fast
  qed
  have gone: "dom t - dom t' = V"
    using V by (auto simp: t' split: if_splits)
  have "card V \<le> 128" unfolding V_def by (rule order_trans [OF card_length]) simp
  moreover have old: "at_expires_ns r \<le> at_expires_ns r'"
    if "(j, r) \<in> set (take 128 xs)" "t' j' = Some r'" "at_expires_ns r' \<le> now * ms_ns" for j r j' r'
  proof -
    have "(j', r') \<in> set xs" "j' \<notin> V" using that(2,3) xs by (auto simp: t' split: if_splits)
    then have "(j', r') \<in> set (drop 128 xs)"
      using append_take_drop_id [of 128 xs] by (metis V_def UnE fst_conv image_eqI list.set_map set_append)
    moreover have "sorted (map (\<lambda>(j, r). at_expires_ns r) (take 128 xs @ drop 128 xs))"
      unfolding append_take_drop_id xs_def by (rule sorted_sort_key)
    ultimately show ?thesis using that(1) by (force simp: sorted_append simp del: append_take_drop_id)
  qed
  moreover have "now * ms_ns < at_expires_ns r"
    if small: "card {j. \<exists>r. t j = Some r \<and> at_expires_ns r \<le> now * ms_ns} \<le> 128" and j: "t' j = Some r" for j r
  proof (rule ccontr)
    assume "\<not> ?thesis"
    then have "(j, r) \<in> set xs" "j \<notin> V" using j xs by (auto simp: t' split: if_splits)
    have "{j. \<exists>r. t j = Some r \<and> at_expires_ns r \<le> now * ms_ns} = set (map fst xs)" using xs by force
    then have "length xs \<le> 128" using small dist distinct_card [of "map fst xs"] by simp
    then have "V = fst ` set xs" by (simp add: V_def)
    with \<open>(j, r) \<in> set xs\<close> \<open>j \<notin> V\<close> show False by force
  qed
  moreover have "\<exists>r. t j = Some r \<and> at_expires_ns r \<le> now * ms_ns \<and>
      (\<forall>j' r'. t' j' = Some r' \<and> at_expires_ns r' \<le> now * ms_ns \<longrightarrow> at_expires_ns r \<le> at_expires_ns r')" if "j \<in> V" for j
    using V [OF that] old by blast
  ultimately show ?thesis
    unfolding gone by (intro conjI allI impI ballI) (auto simp: t' split: if_splits)
qed

theorem cleanup_bounded_witness:
  "wf demo_attempted \<and>
   map_of (session_attach_attempts (cleanupExpiredSQLiteAttachAttempts 1000 demo_attempted))
     (ax_JTIHash (aq_Identity demo_attempt)) = None"
proof -
  let ?t = "map_of (session_attach_attempts demo_attempted)"
  have "map (\<lambda>(j, r). at_expires_ns r) (session_attach_attempts demo_attempted) = [fromMilli 900]" by code_simp
  then obtain j r where row: "session_attach_attempts demo_attempted = [(j, r)]" "at_expires_ns r = fromMilli 900"
    by (auto simp: map_eq_Cons_conv)
  have "{k. \<exists>x. ?t k = Some x \<and> at_expires_ns x \<le> 1000 * ms_ns} \<subseteq> {j}" by (auto simp: row(1) split: if_splits)
  then have "card {k. \<exists>x. ?t k = Some x \<and> at_expires_ns x \<le> 1000 * ms_ns} \<le> card {j}"
    by (rule card_mono [rotated]) simp
  then have few: "card {k. \<exists>x. ?t k = Some x \<and> at_expires_ns x \<le> 1000 * ms_ns} \<le> 128" by simp
  note facts = cleanup_bounded [OF demo_attempted_wf, of 1000]
  have "map_of (session_attach_attempts (cleanupExpiredSQLiteAttachAttempts 1000 demo_attempted)) k = None" for k
  proof (rule ccontr)
    assume "\<not> ?thesis"
    then obtain x where x: "map_of (session_attach_attempts (cleanupExpiredSQLiteAttachAttempts 1000 demo_attempted)) k = Some x"
      by blast
    then have late: "1000 * ms_ns < at_expires_ns x"
      using mp [OF conjunct2 [OF conjunct2 [OF conjunct2 [OF facts]]] few] by blast
    have "?t k = Some x" using conjunct1 [OF conjunct2 [OF facts]] x by (metis domI)
    then have "x = r" by (simp add: row(1) split: if_splits)
    with late row(2) show False by (simp add: fromMilli_def)
  qed
  then show ?thesis using demo_attempted_wf by blast
qed

end
