(* ===== verification/Dispatch.thy ===== *)
theory Dispatch
  imports Ledgers
begin

text \<open>
  Events an adapter appends under its admission (\<^verbatim>\<open>store/sqlite/adapter_dispatch.go\<close>) and
  the public projection of an encrypted event (\<^verbatim>\<open>store/sqlite/encrypted_event.go\<close>). A batch
  is written event by event in one transaction; the admission is checked after the writes and a
  terminal event, which only the last one may be, revokes the connection for good.
\<close>

section \<open>Projection of encrypted events\<close>

definition sqliteProjectionEvent :: "PendingEvent \<Rightarrow> bool \<Rightarrow> PendingEvent res" where
  "sqliteProjectionEvent ev encrypted =
     (if \<not> encrypted then Inr ev
      else case DecodeEncryptedPacketCarrier (pe_Payload ev) ''event'' (pe_Type ev) [] of
        None \<Rightarrow> Inl (Fail ''invalid encrypted packet carrier'')
      | Some c \<Rightarrow> Inr \<lparr>pe_Type = pe_Type ev, pe_Time = pe_Time ev,
          pe_Payload = print_json (JObj (projection_fields (op_Public (pk_Packet c))))\<rparr>)"

section \<open>Operations\<close>

definition ValidateAdapterEffectAdmission ::
  "string \<Rightarrow> AdapterConnectionAdmission \<Rightarrow> int \<Rightarrow> db \<Rightarrow> AdapterConnection_rec res" where
  "ValidateAdapterEffectAdmission sid admission now d = ValidateAdapterAdmission sid admission now d"

text \<open>The projections of a batch; a terminal event before the last one refuses the batch.\<close>

fun batch_projections :: "bool \<Rightarrow> PendingEvent list \<Rightarrow> PendingEvent list res" where
  "batch_projections encrypted [] = Inr []"
| "batch_projections encrypted (ev # evs) =
     res_bind (sqliteProjectionEvent ev encrypted) (\<lambda>projection.
     if evs \<noteq> [] \<and> p_terminal (sqliteAttentionEventProjection projection)
     then Inl (Fail ''terminal adapter event must be final'')
     else res_bind (batch_projections encrypted evs) (\<lambda>projections. Inr (projection # projections)))"

fun adapter_loop ::
  "string \<Rightarrow> int \<Rightarrow> int \<Rightarrow> clock \<Rightarrow> nat \<Rightarrow> (PendingEvent \<times> PendingEvent) list \<Rightarrow> bool \<Rightarrow> db \<Rightarrow>
   (db \<times> bool) res" where
  "adapter_loop sid seq created clk i [] terminal d = Inr (d, terminal)"
| "adapter_loop sid seq created clk i ((ev, projection) # evs) terminal d =
     res_bind (insert_event \<lparr>ev_session = sid, ev_seq = seq, ev_type = pe_Type ev,
                  ev_payload = pe_Payload ev, ev_time_ms = UnixMilli (pe_Time ev),
                  ev_created_ms = created\<rparr> d) (\<lambda>d.
     res_bind (projectSQLiteAttentionEvent sid seq projection (clk i) d) (\<lambda>(d, terminal).
     adapter_loop sid (seq + 1) created clk (Suc i) evs terminal d))"

text \<open>Reading 0 is the creation time, then one reading per event, one for the admission and one
  for the fence.\<close>

definition appendAdapterEvents_tx ::
  "string \<Rightarrow> AdapterConnectionAdmission \<Rightarrow> (PendingEvent \<times> PendingEvent) list \<Rightarrow> clock \<Rightarrow> db \<Rightarrow>
   (db \<times> int) res" where
  "appendAdapterEvents_tx sid admission evs clk d =
     (let firstSeq = latest_seq d sid + 1 in
      res_bind (adapter_loop sid firstSeq (clk 0) clk 1 evs False d) (\<lambda>(d, terminal).
      case ValidateAdapterAdmission sid admission (clk (Suc (length evs))) d of
        Inl e \<Rightarrow> Inl (Fail ''adapter authority lost'')
      | Inr c \<Rightarrow>
          res_bind (if terminal then fence_terminal sid (clk (length evs + 2)) d else Inr d) (\<lambda>d.
          Inr (d, firstSeq))))"

definition appendAdapterEvents ::
  "string \<Rightarrow> AdapterConnectionAdmission \<Rightarrow> PendingEvent list \<Rightarrow> bool \<Rightarrow> clock \<Rightarrow> db \<Rightarrow> db \<times> int res" where
  "appendAdapterEvents sid admission evs encrypted clk d =
     (if evs = [] then (d, Inl (Fail ''invalid sqlite adapter event commit''))
      else case batch_projections encrypted evs of
        Inl e \<Rightarrow> (d, Inl e)
      | Inr projections \<Rightarrow> transaction (appendAdapterEvents_tx sid admission (zip evs projections) clk) d)"

definition AppendAdapterEvents ::
  "string \<Rightarrow> AdapterConnectionAdmission \<Rightarrow> PendingEvent list \<Rightarrow> clock \<Rightarrow> db \<Rightarrow> db \<times> int res" where
  "AppendAdapterEvents sid admission evs = appendAdapterEvents sid admission evs False"

definition AppendEncryptedAdapterEvents ::
  "string \<Rightarrow> AdapterConnectionAdmission \<Rightarrow> PendingEvent list \<Rightarrow> clock \<Rightarrow> db \<Rightarrow> db \<times> int res" where
  "AppendEncryptedAdapterEvents sid admission evs = appendAdapterEvents sid admission evs True"

section \<open>Every append is a store step\<close>

lemma batch_projections_ok:
  assumes "batch_projections encrypted evs = Inr ps"
  shows "length ps = length evs"
    and "i < length evs \<Longrightarrow> sqliteProjectionEvent (evs ! i) encrypted = Inr (ps ! i)"
    and "Suc i < length evs \<Longrightarrow> \<not> p_terminal (sqliteAttentionEventProjection (ps ! i))"
proof -
  have "length ps = length evs \<and> (\<forall>i < length evs. sqliteProjectionEvent (evs ! i) encrypted = Inr (ps ! i) \<and>
      (Suc i < length evs \<longrightarrow> \<not> p_terminal (sqliteAttentionEventProjection (ps ! i))))"
    using assms
  proof (induction evs arbitrary: ps)
    case (Cons ev evs)
    then obtain p qs where "sqliteProjectionEvent ev encrypted = Inr p" "ps = p # qs"
      "batch_projections encrypted evs = Inr qs" "evs = [] \<or> \<not> p_terminal (sqliteAttentionEventProjection p)"
      by (auto split: if_splits)
    then show ?case using Cons.IH [of qs] by (auto simp: nth_Cons split: nat.splits)
  qed simp
  then show "length ps = length evs"
    "i < length evs \<Longrightarrow> sqliteProjectionEvent (evs ! i) encrypted = Inr (ps ! i)"
    "Suc i < length evs \<Longrightarrow> \<not> p_terminal (sqliteAttentionEventProjection (ps ! i))" by auto
qed

lemma adapter_loop_ok:
  assumes "adapter_loop sid n c clk i evs t d = Inr (d', t')"
  shows "session_events d' = session_events d @ event_rows sid n c (map fst evs)"
    "session_adapter_connections d' = session_adapter_connections d \<and> main_next_fence d' = main_next_fence d \<and>
     side_next_fence d' = side_next_fence d"
    "t' = (if evs = [] then t else p_terminal (sqliteAttentionEventProjection (snd (last evs))))"
    "n = latest_seq d sid + 1 \<Longrightarrow> store_step d d'"
proof -
  have "session_events d' = session_events d @ event_rows sid n c (map fst evs) \<and>
    (session_adapter_connections d' = session_adapter_connections d \<and> main_next_fence d' = main_next_fence d \<and>
     side_next_fence d' = side_next_fence d) \<and>
    t' = (if evs = [] then t else p_terminal (sqliteAttentionEventProjection (snd (last evs)))) \<and>
    (n = latest_seq d sid + 1 \<longrightarrow> store_step d d')"
    using assms
  proof (induction evs arbitrary: n i t d)
    case (Cons x evs)
    obtain ev p where x: "x = (ev, p)" by force
    let ?r = "event_row_of sid n c ev"
    obtain d1 d2 t1 where step: "insert_event ?r d = Inr d1"
      "projectSQLiteAttentionEvent sid n p (clk i) d1 = Inr (d2, t1)"
      "adapter_loop sid (n + 1) c clk (Suc i) evs t1 d2 = Inr (d', t')"
      using Cons.prems by (auto simp: event_row_of_def x)
    have d2: "session_events d2 = session_events d @ [?r]"
      "session_adapter_connections d2 = session_adapter_connections d" "main_next_fence d2 = main_next_fence d"
      "side_next_fence d2 = side_next_fence d"
      "t1 = p_terminal (sqliteAttentionEventProjection p)"
      by (rule project_frame [OF step(2)], use insert_event_frame [OF step(1)] in simp)+
    have r: "ev_session ?r = sid" "ev_seq ?r = n" by (simp_all add: event_row_of_def)
    have "store_step d d'" if seq: "n = latest_seq d sid + 1"
    proof -
      have "session_events d2 = session_events d1"
        by (rule project_frame [OF step(2)]) simp
      then have "latest_seq d2 sid = n"
        using latest_after_insert [OF step(1)] r seq by simp
      moreover have "store_step d d1" using store_step_event [OF step(1)] r seq by simp
      ultimately show ?thesis
        using Cons.IH [OF step(3)] store_step_project [OF step(2)] by (auto intro: store_step_trans)
    qed
    then show ?case using Cons.IH [OF step(3)] d2 by (simp add: x)
  qed simp
  then show "session_events d' = session_events d @ event_rows sid n c (map fst evs)"
    "session_adapter_connections d' = session_adapter_connections d \<and> main_next_fence d' = main_next_fence d \<and>
     side_next_fence d' = side_next_fence d"
    "t' = (if evs = [] then t else p_terminal (sqliteAttentionEventProjection (snd (last evs))))"
    "n = latest_seq d sid + 1 \<Longrightarrow> store_step d d'" by blast+
qed

lemma append_adapter_ok:
  assumes "appendAdapterEvents sid adm evs enc clk d = (d', Inr n)"
  obtains ps d1 t c where "batch_projections enc evs = Inr ps" "evs \<noteq> []" "n = latest_seq d sid + 1"
    "adapter_loop sid n (clk 0) clk 1 (zip evs ps) False d = Inr (d1, t)"
    "ValidateAdapterAdmission sid adm (clk (Suc (length evs))) d1 = Inr c"
    "(if t then fence_terminal sid (clk (length evs + 2)) d1 else Inr d1) = Inr d'"
proof -
  obtain ps where ps: "batch_projections enc evs = Inr ps" "evs \<noteq> []"
    "appendAdapterEvents_tx sid adm (zip evs ps) clk d = Inr (d', n)"
    using assms by (auto simp: appendAdapterEvents_def transaction_ok_iff split: if_splits sum.splits)
  have len: "length (zip evs ps) = length evs" using batch_projections_ok(1) [OF ps(1)] by simp
  obtain d1 t where loop: "adapter_loop sid (latest_seq d sid + 1) (clk 0) clk 1 (zip evs ps) False d = Inr (d1, t)"
    using ps(3) by (auto simp: appendAdapterEvents_tx_def Let_def)
  show ?thesis
  proof (cases "ValidateAdapterAdmission sid adm (clk (Suc (length evs))) d1")
    case (Inl e)
    with ps(3) loop len show ?thesis by (simp add: appendAdapterEvents_tx_def Let_def)
  next
    case (Inr c)
    with ps(3) loop len have "n = latest_seq d sid + 1"
      "(if t then fence_terminal sid (clk (length evs + 2)) d1 else Inr d1) = Inr d'"
      by (auto simp: appendAdapterEvents_tx_def Let_def)
    then show ?thesis using that [OF ps(1,2)] loop Inr by blast
  qed
qed

lemma appendAdapterEvents_step: "store_step d (fst (appendAdapterEvents sid adm evs enc clk d))"
proof (cases "appendAdapterEvents sid adm evs enc clk d")
  case (Pair d' r)
  show ?thesis
  proof (cases r)
    case (Inr n)
    with Pair have "appendAdapterEvents sid adm evs enc clk d = (d', Inr n)" by simp
    then show ?thesis
    proof (cases rule: append_adapter_ok)
      case (1 ps d1 t c)
      then have "store_step d d1" by (intro adapter_loop_ok(4))
      moreover have "store_step d1 d'" using 1(6) by (auto split: if_splits dest: store_step_fence_terminal)
      ultimately show ?thesis using Pair by (auto intro: store_step_trans)
    qed
  next
    case (Inl e)
    with Pair have "d' = d"
      by (auto simp: appendAdapterEvents_def transaction_def split: if_splits sum.splits)
    then show ?thesis using Pair by simp
  qed
qed

section \<open>Properties\<close>

lemma admission_ok:
  assumes "ValidateAdapterAdmission sid adm now d = Inr x"
  obtains c where "map_of (session_adapter_connections d) sid = Some c" "admitted adm now d c"
  using assms
  by (auto simp: ValidateAdapterAdmission_def queryAdapterConnectionWhere_def
      split: if_splits option.splits)

lemma terminal_stays:
  assumes "store_step d d'" "map_of (session_adapter_connections d) sid = Some c" "cn_terminal_ms c \<noteq> None"
  shows "\<not> current_authority d' sid a now" "ValidateAdapterAdmission sid adm now d' \<noteq> Inr x"
proof -
  obtain c' where c': "map_of (session_adapter_connections d') sid = Some c'" "cn_terminal_ms c' \<noteq> None"
    using store_step_tables(6) [OF assms(1)] assms(2,3) unfolding tab_step_def conn_prog_def by blast
  then show "\<not> current_authority d' sid a now" by (simp add: current_authority_def)
  show "ValidateAdapterAdmission sid adm now d' \<noteq> Inr x"
    using c' by (auto simp: admitted_def elim: admission_ok)
qed

text \<open>An append succeeds only if its admission is valid behind the events it inserted.\<close>

lemma append_needs_admission:
  assumes "\<And>d1 now x. store_step d d1 \<Longrightarrow> ValidateAdapterAdmission sid adm now d1 \<noteq> Inr x"
  shows "\<exists>e. appendAdapterEvents sid adm evs enc clk d = (d, Inl e)"
proof (cases "appendAdapterEvents sid adm evs enc clk d")
  case (Pair d2 r)
  show ?thesis
  proof (cases r)
    case (Inl e)
    with Pair show ?thesis
      by (auto simp: appendAdapterEvents_def transaction_def split: if_splits sum.splits)
  next
    case (Inr n)
    with Pair have "appendAdapterEvents sid adm evs enc clk d = (d2, Inr n)" by simp
    then show ?thesis
    proof (cases rule: append_adapter_ok)
      case (1 ps d1 t x)
      then show ?thesis using assms [OF adapter_loop_ok(4) [OF 1(4,3)]] by blast
    qed
  qed
qed

lemma terminal_refuses_append:
  assumes "store_step d d'" "map_of (session_adapter_connections d) sid = Some c" "cn_terminal_ms c \<noteq> None"
  shows "\<exists>e. appendAdapterEvents sid adm evs enc clk d' = (d', Inl e)"
  by (rule append_needs_admission) (use terminal_stays(2) assms in \<open>blast intro: store_step_trans\<close>)

lemma append_adapter_rows:
  assumes "appendAdapterEvents sid adm evs enc clk d = (d', Inr n)"
  shows "session_events d' = session_events d @ event_rows sid n (clk 0) evs" "n = latest_seq d sid + 1" "evs \<noteq> []"
  using assms
proof (atomize (full), cases rule: append_adapter_ok)
  case (1 ps d1 t x)
  have "session_events d' = session_events d1"
    using 1(6) by (auto split: if_splits dest!: fence_terminal_frame)
  then show "session_events d' = session_events d @ event_rows sid n (clk 0) evs \<and> n = latest_seq d sid + 1 \<and> evs \<noteq> []"
    using adapter_loop_ok(1) [OF 1(4)] batch_projections_ok(1) [OF 1(1)] 1(2,3) by simp
qed

definition ends_session :: "bool \<Rightarrow> PendingEvent \<Rightarrow> bool" where
  "ends_session enc ev =
     (case sqliteProjectionEvent ev enc of Inl e \<Rightarrow> False | Inr p \<Rightarrow> p_terminal (sqliteAttentionEventProjection p))"

text \<open>
  C14: an adapter's batch is appended exactly in order and without gaps, only while its admission
  holds; only the last event may end the session, and once such an event is written the session is
  sealed in this store: in no state its operations lead to does an adapter append anything to the
  session or hold a command authority for it. None of them clears the terminal mark of a connection.
  The platform's reopening of an ended session (\<^verbatim>\<open>spec/v1.md\<close>) clears it, and only the
  Postgres store has that call (\<^verbatim>\<open>ReopenAdapterConnection\<close>), which is not modelled.
\<close>

theorem adapter_append_seals:
  assumes ok: "appendAdapterEvents sid adm evs enc clk d = (d', Inr n)"
  shows "session_events d' = session_events d @ event_rows sid n (clk 0) evs \<and> n = latest_seq d sid + 1 \<and>
    (\<exists>c. map_of (session_adapter_connections d) sid = Some c \<and> admitted adm (clk (Suc (length evs))) d c) \<and>
    (\<forall>ev \<in> set (butlast evs). \<not> ends_session enc ev) \<and>
    (ends_session enc (last evs) \<longrightarrow>
       (\<forall>later. store_step d' later \<longrightarrow>
          (\<forall>adm' evs' enc' clk'. \<exists>e. appendAdapterEvents sid adm' evs' enc' clk' later = (later, Inl e)) \<and>
          (\<forall>a now. \<not> current_authority later sid a now)))"
  using ok
proof (cases rule: append_adapter_ok)
  case (1 ps d1 t x)
  note ps = batch_projections_ok [OF 1(1)] and loop = adapter_loop_ok [OF 1(4)]
  note log = append_adapter_rows(1) [OF ok]
  obtain c where c: "map_of (session_adapter_connections d1) sid = Some c"
    "admitted adm (clk (Suc (length evs))) d1 c" using 1(5) by (rule admission_ok)
  have adm: "admitted adm (clk (Suc (length evs))) d c" using c(2) loop(2) by (simp add: admitted_def)
  have early: "\<not> ends_session enc ev" if "ev \<in> set (butlast evs)" for ev
    using that ps(2,3) by (auto simp: ends_session_def in_set_conv_nth nth_butlast)
  have seal: "\<exists>c'. map_of (session_adapter_connections d') sid = Some c' \<and> cn_terminal_ms c' \<noteq> None"
    if "ends_session enc (last evs)"
  proof -
    have "ps \<noteq> []" using 1(2) ps(1) by auto
    then have "t" using that loop(3) 1(2) ps(1) ps(2) [of "length evs - 1"]
      by (simp add: ends_session_def last_conv_nth)
    then have "fence_terminal sid (clk (length evs + 2)) d1 = Inr d'" using 1(6) by simp
    then show ?thesis using c(1)
      by (auto simp: fence_terminal_def update_connection_def split: if_splits)
  qed
  have sealed: "(\<exists>e. appendAdapterEvents sid adm' evs' enc' clk' later = (later, Inl e)) \<and>
      \<not> current_authority later sid a now"
    if "ends_session enc (last evs)" "store_step d' later" for later adm' evs' enc' clk' a now
    using seal [OF that(1)] terminal_refuses_append [OF that(2)] terminal_stays(1) [OF that(2)] by blast
  show ?thesis
    using log 1(3) c(1) adm loop(2) early sealed by (intro conjI ballI impI allI) auto
qed

definition demo_admission :: AdapterConnectionAdmission where
  "demo_admission = \<lparr>am_CredentialGeneration = 1, am_ConnectionEpoch = 1, am_AcceptedFence = 1, am_GrantFence = 2\<rparr>"

definition demo_granted :: db where
  "demo_granted = fst (AllocateAdapterGrantFence demo_bound)"

definition demo_ending :: "PendingEvent list" where
  "demo_ending = [\<lparr>pe_Type = ''session.message'', pe_Time = 0, pe_Payload = ''{}''\<rparr>,
     \<lparr>pe_Type = ''session.error'', pe_Time = 0, pe_Payload = ''{}''\<rparr>]"

theorem adapter_append_seals_witness:
  "\<exists>d'. appendAdapterEvents ''s'' demo_admission demo_ending False (\<lambda>_. 8) demo_granted = (d', Inr 1) \<and>
     \<not> current_authority d' ''s'' \<lparr>ca_ConnectionEpoch = 1, ca_CredentialGeneration = 1\<rparr> 8"
proof -
  have "snd (appendAdapterEvents ''s'' demo_admission demo_ending False (\<lambda>_. 8) demo_granted) = Inr 1"
    "ends_session False (last demo_ending)" by code_simp+
  then obtain d' where ok: "appendAdapterEvents ''s'' demo_admission demo_ending False (\<lambda>_. 8) demo_granted = (d', Inr 1)"
    and ends: "ends_session False (last demo_ending)"
    by (cases "appendAdapterEvents ''s'' demo_admission demo_ending False (\<lambda>_. 8) demo_granted") auto
  then show ?thesis using adapter_append_seals [OF ok] by blast
qed

end
