(* ===== verification/Commands.thy ===== *)
theory Commands
  imports Ledgers
begin

text \<open>
  The command ledger of \<^verbatim>\<open>store/sqlite/store.go\<close> and \<^verbatim>\<open>store/sqlite/encrypted_command.go\<close>: a
  client command is committed with its durable event, listed and claimed by the current
  connection, and resolved with an outcome. The same operations serve plain messages
  (\<^verbatim>\<open>session.send\<close>) and endpoint-encrypted command carriers (\<open>encrypted\<close> set).
\<close>

section \<open>Structs and checks\<close>

record PendingCommandRequest =
  cq_CommandID :: string
  cq_Type :: string
  cq_ExpiresAt :: gotime

record PendingCommand =
  cm_SessionID :: string
  cm_CommandID :: string
  cm_Type :: string
  cm_EventSeq :: int
  cm_Status :: string
  cm_ExpiresAt :: gotime

definition maxEventPayloadSize :: int where
  "maxEventPayloadSize = 64 * 1024"

definition validPendingCommandStatus :: "string \<Rightarrow> bool" where
  "validPendingCommandStatus status \<longleftrightarrow>
     status \<in> {''pending'', ''received'', ''completed'', ''outcome_unknown''}"

definition user_message :: "bytes \<Rightarrow> bool" where
  "user_message payload =
     (case unmarshal_strings [''role''] payload of None \<Rightarrow> False | Some env \<Rightarrow> env ''role'' = ''user'')"

definition validatePendingCommandInput :: "PendingEvent \<Rightarrow> PendingCommandRequest \<Rightarrow> gotime \<Rightarrow> unit res" where
  "validatePendingCommandInput ev q now =
     (if cq_CommandID q = [] \<or> length (cq_CommandID q) > 256 \<or> cq_Type q \<noteq> ''session.send'' \<or>
         pe_Type ev \<noteq> ''session.message'' \<or> length (pe_Payload ev) < 1 \<or>
         int (length (pe_Payload ev)) > maxEventPayloadSize \<or> \<not> user_message (pe_Payload ev) \<or>
         \<not> cq_ExpiresAt q > now \<or> cq_ExpiresAt q > now + 30 * sec_ns
      then Inl (Fail ''invalid pending command'') else Inr ())"

definition validateEncryptedPendingCommandInput ::
  "PendingEvent \<Rightarrow> PendingCommandRequest \<Rightarrow> gotime \<Rightarrow> unit res" where
  "validateEncryptedPendingCommandInput ev q now =
     (if cq_CommandID q = [] \<or> length (cq_CommandID q) > 256 \<or> \<not> ValidEncryptedCommandType (cq_Type q) \<or>
         pe_Type ev \<noteq> ''session.command'' \<or> \<not> cq_ExpiresAt q > now \<or> cq_ExpiresAt q > now + 30 * sec_ns \<or>
         DecodeEncryptedPacketCarrier (pe_Payload ev) ''command'' (cq_Type q) (cq_CommandID q) = None
      then Inl (Fail ''invalid encrypted pending command'') else Inr ())"

definition validate_input :: "bool \<Rightarrow> PendingEvent \<Rightarrow> PendingCommandRequest \<Rightarrow> gotime \<Rightarrow> unit res" where
  "validate_input encrypted =
     (if encrypted then validateEncryptedPendingCommandInput else validatePendingCommandInput)"

section \<open>Rows\<close>

definition row_command :: "string \<times> string \<Rightarrow> pending_row \<Rightarrow> PendingCommand" where
  "row_command k r =
     \<lparr>cm_SessionID = fst k, cm_CommandID = snd k, cm_Type = pc_type r, cm_EventSeq = pc_event_seq r,
      cm_Status = pc_status r, cm_ExpiresAt = pc_expires_ns r\<rparr>"

text \<open>The join of a command with its event, restricted to payloads of an allowed size.\<close>

definition joined_command :: "string \<Rightarrow> string \<Rightarrow> db \<Rightarrow> (pending_row \<times> event_row) option" where
  "joined_command sid cmd d =
     (case map_of (session_pending_commands d) (sid, cmd) of
        None \<Rightarrow> None
      | Some r \<Rightarrow>
          (case event_at d sid (pc_event_seq r) of
             None \<Rightarrow> None
           | Some e \<Rightarrow>
               if 1 \<le> length (ev_payload e) \<and> int (length (ev_payload e)) \<le> maxEventPayloadSize
               then Some (r, e) else None))"

definition queryPendingCommand :: "string \<Rightarrow> string \<Rightarrow> int \<Rightarrow> db \<Rightarrow> PendingCommand res" where
  "queryPendingCommand sid cmd now d =
     (case joined_command sid cmd d of
        None \<Rightarrow> Inl NoRows
      | Some (r, e) \<Rightarrow>
          if sid = [] \<or> length sid > 255 \<or> cmd = [] \<or> length cmd > 256 \<or> pc_type r \<noteq> ''session.send'' \<or>
             pc_event_seq r < 1 \<or> \<not> validPendingCommandStatus (pc_status r) \<or> pc_created_ms r < 1 \<or>
             pc_created_ms r > now \<or> pc_expires_ns r \<le> pc_created_ms r * ms_ns \<or>
             pc_expires_ns r > (pc_created_ms r + 30000) * ms_ns \<or> ev_type e \<noteq> ''session.message'' \<or>
             pc_expires_ns r > (now + 30000) * ms_ns \<or> \<not> user_message (ev_payload e)
          then Inl (Fail ''pending command row is invalid'')
          else Inr (row_command (sid, cmd) r))"

definition queryEncryptedPendingCommand :: "string \<Rightarrow> string \<Rightarrow> int \<Rightarrow> db \<Rightarrow> PendingCommand res" where
  "queryEncryptedPendingCommand sid cmd now d =
     (case joined_command sid cmd d of
        None \<Rightarrow> Inl NoRows
      | Some (r, e) \<Rightarrow>
          if sid = [] \<or> cmd = [] \<or> pc_event_seq r < 1 \<or> \<not> validPendingCommandStatus (pc_status r) \<or>
             pc_created_ms r < 1 \<or> pc_created_ms r > now \<or> pc_expires_ns r \<le> pc_created_ms r * ms_ns \<or>
             pc_expires_ns r > (now + 30000) * ms_ns \<or> ev_type e \<noteq> ''session.command'' \<or>
             DecodeEncryptedPacketCarrier (ev_payload e) ''command'' (pc_type r) cmd = None
          then Inl (Fail ''encrypted pending command row is invalid'')
          else Inr (row_command (sid, cmd) r))"

definition validateEncryptedCommandRow :: "PendingCommand \<Rightarrow> db \<Rightarrow> unit res" where
  "validateEncryptedCommandRow c d =
     (if \<not> ValidEncryptedCommandType (cm_Type c) \<or> cm_EventSeq c < 1
      then Inl (Fail ''invalid encrypted command reference'')
      else case event_at d (cm_SessionID c) (cm_EventSeq c) of
        None \<Rightarrow> Inl (Fail ''encrypted command event unavailable'')
      | Some e \<Rightarrow>
          if DecodeEncryptedPacketCarrier (ev_payload e) ''command'' (cm_Type c) (cm_CommandID c) = None \<or>
             ev_type e \<noteq> ''session.command''
          then Inl (Fail ''invalid encrypted command event'') else Inr ())"

definition query_command :: "bool \<Rightarrow> string \<Rightarrow> string \<Rightarrow> int \<Rightarrow> db \<Rightarrow> PendingCommand res" where
  "query_command encrypted sid cmd now d =
     (if encrypted
      then res_bind (queryEncryptedPendingCommand sid cmd now d) (\<lambda>c.
           res_bind (validateEncryptedCommandRow c d) (\<lambda>_. Inr c))
      else queryPendingCommand sid cmd now d)"

section \<open>Operations\<close>

definition insert_command_event ::
  "string \<Rightarrow> PendingEvent \<Rightarrow> int \<Rightarrow> db \<Rightarrow> (db \<times> int) res" where
  "insert_command_event sid ev now d =
     (let seq = latest_seq d sid + 1
      in res_bind (insert_event \<lparr>ev_session = sid, ev_seq = seq, ev_type = pe_Type ev,
            ev_payload = pe_Payload ev, ev_time_ms = UnixMilli (pe_Time ev), ev_created_ms = now\<rparr> d)
          (\<lambda>d. Inr (d, seq)))"

definition commitPendingCommand_tx ::
  "string \<Rightarrow> CommandAuthority \<Rightarrow> PendingEvent \<Rightarrow> PendingCommandRequest \<Rightarrow> bool \<Rightarrow> clock \<Rightarrow> db \<Rightarrow>
   (db \<times> PendingCommand \<times> bool) res" where
  "commitPendingCommand_tx sid authority ev q encrypted clk d =
     res_bind (validate_input encrypted ev q (fromMilli (clk 0))) (\<lambda>_.
     res_bind (validateCommandAuthority sid authority (clk 0) d) (\<lambda>_.
     case queryPendingCommand sid (cq_CommandID q) (clk 0) d of
       Inr existing \<Rightarrow>
         if encrypted \<and>
            (case event_at d sid (cm_EventSeq existing) of
               None \<Rightarrow> True
             | Some e \<Rightarrow> ev_type e \<noteq> pe_Type ev \<or> ev_payload e \<noteq> pe_Payload ev \<or>
                 cm_Type existing \<noteq> cq_Type q)
         then Inl (Fail ''conflicting encrypted command retry'')
         else Inr (d, existing, True)
     | Inl (Fail e) \<Rightarrow> Inl (Fail e)
     | Inl NoRows \<Rightarrow>
         res_bind (insert_command_event sid ev (clk 0) d) (\<lambda>(d, seq).
         res_bind (projectSQLiteAttentionEvent sid seq ev (clk 0) d) (\<lambda>(d, terminal).
         if terminal then Inl (Fail ''pending command event must not be terminal'')
         else
           res_bind (validate_input encrypted ev q (fromMilli (clk 1))) (\<lambda>_.
           res_bind (validateCommandAuthority sid authority (clk 1) d) (\<lambda>_.
           res_bind (insert_pending (sid, cq_CommandID q)
              \<lparr>pc_type = cq_Type q, pc_event_seq = seq, pc_status = ''pending'',
               pc_expires_ns = cq_ExpiresAt q, pc_created_ms = clk 1, pc_updated_ms = clk 1\<rparr> d) (\<lambda>d.
           res_bind (upsertSQLiteAttentionLedger sid None (Some (clk 1)) (clk 2) d) (\<lambda>d.
           Inr (d, \<lparr>cm_SessionID = sid, cm_CommandID = cq_CommandID q, cm_Type = cq_Type q,
                    cm_EventSeq = seq, cm_Status = ''pending'', cm_ExpiresAt = cq_ExpiresAt q\<rparr>, False)))))))))"

definition commitPendingCommand ::
  "string \<Rightarrow> CommandAuthority \<Rightarrow> PendingEvent \<Rightarrow> PendingCommandRequest \<Rightarrow> bool \<Rightarrow> clock \<Rightarrow> db \<Rightarrow>
   db \<times> (PendingCommand \<times> bool) res" where
  "commitPendingCommand sid authority ev q encrypted clk =
     transaction (commitPendingCommand_tx sid authority ev q encrypted clk)"

definition CommitPendingCommand ::
  "string \<Rightarrow> CommandAuthority \<Rightarrow> PendingEvent \<Rightarrow> PendingCommandRequest \<Rightarrow> clock \<Rightarrow> db \<Rightarrow>
   db \<times> (PendingCommand \<times> bool) res" where
  "CommitPendingCommand sid authority ev q = commitPendingCommand sid authority ev q False"

definition CommitEncryptedPendingCommand ::
  "string \<Rightarrow> CommandAuthority \<Rightarrow> PendingEvent \<Rightarrow> PendingCommandRequest \<Rightarrow> clock \<Rightarrow> db \<Rightarrow>
   db \<times> (PendingCommand \<times> bool) res" where
  "CommitEncryptedPendingCommand sid authority ev q = commitPendingCommand sid authority ev q True"

definition listed_rows :: "string \<Rightarrow> int \<Rightarrow> db \<Rightarrow> ((string \<times> string) \<times> pending_row \<times> event_row) list" where
  "listed_rows sid now d =
     sort_key (\<lambda>(k, r, e). pc_event_seq r)
       (concat (map (\<lambda>(k, r).
          case event_at d (fst k) (pc_event_seq r) of
            None \<Rightarrow> []
          | Some e \<Rightarrow>
              if fst k = sid \<and> pc_status r \<in> {''pending'', ''received''} \<and> pc_expires_ns r > now * ms_ns \<and>
                 ev_type e \<in> {''session.message'', ''session.command''} \<and>
                 1 \<le> length (ev_payload e) \<and> int (length (ev_payload e)) \<le> maxEventPayloadSize
              then [(k, r, e)] else [])
        (session_pending_commands d)))"

definition listed_command ::
  "bool \<Rightarrow> string \<Rightarrow> int \<Rightarrow> (string \<times> string) \<times> pending_row \<times> event_row \<Rightarrow> PendingCommand res" where
  "listed_command encrypted sid now x =
     (case x of (k, r, e) \<Rightarrow>
        if fst k \<noteq> sid \<or> snd k = [] \<or> length (snd k) > 256 \<or> (\<not> encrypted \<and> pc_type r \<noteq> ''session.send'') \<or>
           pc_event_seq r < 1 \<or> (pc_status r \<noteq> ''pending'' \<and> pc_status r \<noteq> ''received'') \<or>
           pc_created_ms r < 1 \<or> pc_created_ms r > now \<or> pc_expires_ns r \<le> pc_created_ms r * ms_ns \<or>
           pc_expires_ns r > (pc_created_ms r + 30000) * ms_ns \<or> pc_expires_ns r > (now + 30000) * ms_ns \<or>
           ev_type e \<noteq> (if encrypted then ''session.command'' else ''session.message'') \<or>
           validate_input encrypted
             \<lparr>pe_Type = ev_type e, pe_Time = fromMilli (pc_created_ms r), pe_Payload = ev_payload e\<rparr>
             \<lparr>cq_CommandID = snd k, cq_Type = pc_type r, cq_ExpiresAt = pc_expires_ns r\<rparr> (fromMilli now) \<noteq> Inr ()
        then Inl (Fail ''pending command row is invalid'')
        else Inr (row_command k r))"

definition listPendingCommands ::
  "string \<Rightarrow> CommandAuthority \<Rightarrow> bool \<Rightarrow> clock \<Rightarrow> db \<Rightarrow> PendingCommand list res" where
  "listPendingCommands sid authority encrypted clk d =
     res_bind (validateCommandAuthority sid authority (clk 0) d) (\<lambda>_.
     scan_rows (listed_command encrypted sid (clk 0)) (listed_rows sid (clk 0) d))"

text \<open>An update of one command row, guarded by the statement's \<^verbatim>\<open>WHERE\<close> clause.\<close>

definition update_pending ::
  "string \<Rightarrow> string \<Rightarrow> (pending_row \<Rightarrow> bool) \<Rightarrow> string \<Rightarrow> int \<Rightarrow> string \<Rightarrow> db \<Rightarrow> db res" where
  "update_pending sid cmd P status now lost d =
     (case map_of (session_pending_commands d) (sid, cmd) of
        None \<Rightarrow> Inl (Fail lost)
      | Some r \<Rightarrow>
          if P r then put_pending (sid, cmd) (r\<lparr>pc_status := status, pc_updated_ms := now\<rparr>) d
          else Inl (Fail lost))"

definition claimPendingCommand_tx ::
  "string \<Rightarrow> CommandAuthority \<Rightarrow> string \<Rightarrow> bool \<Rightarrow> clock \<Rightarrow> db \<Rightarrow> (db \<times> PendingCommand \<times> bool) res" where
  "claimPendingCommand_tx sid authority cmd encrypted clk d =
     res_bind (validateCommandAuthority sid authority (clk 0) d) (\<lambda>_.
     res_bind (query_command encrypted sid cmd (clk 0) d) (\<lambda>c.
     if encrypted \<and> cm_Status c \<noteq> ''pending'' \<and> cm_Status c \<noteq> ''received''
     then Inl (Fail ''encrypted command is not claimable'')
     else if \<not> validPendingCommandStatus (cm_Status c) then Inl (Fail ''pending command status is invalid'')
     else if cm_ExpiresAt c \<le> clk 0 * ms_ns then Inl (Fail ''pending command expired'')
     else if cm_Status c = ''pending''
     then
       res_bind (validateCommandAuthority sid authority (clk 1) d) (\<lambda>_.
       res_bind (update_pending sid cmd (\<lambda>r. pc_status r = ''pending'' \<and> pc_expires_ns r > clk 1 * ms_ns)
                   ''received'' (clk 1) ''pending command claim lost authority'' d) (\<lambda>d.
       Inr (d, c\<lparr>cm_Status := ''received''\<rparr>, True)))
     else Inr (d, c, False)))"

definition claimPendingCommand ::
  "string \<Rightarrow> CommandAuthority \<Rightarrow> string \<Rightarrow> bool \<Rightarrow> clock \<Rightarrow> db \<Rightarrow> db \<times> (PendingCommand \<times> bool) res" where
  "claimPendingCommand sid authority cmd encrypted clk =
     transaction (claimPendingCommand_tx sid authority cmd encrypted clk)"

definition unknown_blocker :: AttentionBlocker where
  "unknown_blocker = \<lparr>bl_Kind = ''outcome_unknown'', bl_Reason = None, bl_ExpiresAt = None,
     bl_BlockingSessionID = None, bl_Operation = Some ''command''\<rparr>"

definition resolvePendingCommand_tx ::
  "string \<Rightarrow> CommandAuthority \<Rightarrow> string \<Rightarrow> string \<Rightarrow> bool \<Rightarrow> clock \<Rightarrow> db \<Rightarrow> (db \<times> PendingCommand) res" where
  "resolvePendingCommand_tx sid authority cmd status encrypted clk d =
     res_bind (validateCommandAuthority sid authority (clk 0) d) (\<lambda>_.
     res_bind (query_command encrypted sid cmd (clk 0) d) (\<lambda>c.
     if \<not> validPendingCommandStatus (cm_Status c) \<or> cm_Status c \<noteq> ''received''
     then Inl (Fail ''pending command is not received'')
     else
       res_bind (validateCommandAuthority sid authority (clk 1) d) (\<lambda>_.
       res_bind (update_pending sid cmd (\<lambda>r. pc_status r = ''received'') status (clk 1)
                   ''pending command resolution lost authority'' d) (\<lambda>d.
       res_bind (if status = ''outcome_unknown''
                 then upsertSQLiteAttentionLedger sid (Some unknown_blocker) None (clk 2) d else Inr d) (\<lambda>d.
       Inr (d, c\<lparr>cm_Status := status\<rparr>))))))"

definition resolvePendingCommand ::
  "string \<Rightarrow> CommandAuthority \<Rightarrow> string \<Rightarrow> string \<Rightarrow> bool \<Rightarrow> clock \<Rightarrow> db \<Rightarrow> db \<times> PendingCommand res" where
  "resolvePendingCommand sid authority cmd status encrypted clk d =
     (if status \<noteq> ''completed'' \<and> status \<noteq> ''outcome_unknown''
      then (d, Inl (Fail ''invalid pending command outcome''))
      else transaction (resolvePendingCommand_tx sid authority cmd status encrypted clk) d)"

definition resolvePendingCommandUnknown_tx ::
  "string \<Rightarrow> string \<Rightarrow> bool \<Rightarrow> clock \<Rightarrow> db \<Rightarrow> (db \<times> PendingCommand) res" where
  "resolvePendingCommandUnknown_tx sid cmd encrypted clk d =
     (case map_of (session_pending_commands d) (sid, cmd) of
        None \<Rightarrow> Inl NoRows
      | Some r \<Rightarrow>
          if pc_status r \<noteq> ''received'' then Inl NoRows
          else if (encrypted \<and> \<not> ValidEncryptedCommandType (pc_type r)) \<or>
                  (\<not> encrypted \<and> pc_type r \<noteq> ''session.send'') \<or> pc_event_seq r < 1 \<or>
                  pc_created_ms r < 1 \<or> pc_created_ms r > clk 0
          then Inl (Fail ''received pending command row is invalid'')
          else
            res_bind
              (if encrypted
               then case event_at d sid (pc_event_seq r) of
                   None \<Rightarrow> Inl NoRows
                 | Some e \<Rightarrow>
                     if DecodeEncryptedPacketCarrier (ev_payload e) ''command'' (pc_type r) cmd = None \<or>
                        ev_type e \<noteq> ''session.command''
                     then Inl (Fail ''invalid encrypted pending command'') else Inr ()
               else Inr ()) (\<lambda>_.
            res_bind (update_pending sid cmd (\<lambda>r. pc_status r = ''received'') ''outcome_unknown'' (clk 0)
                        ''pending command outcome unknown lost race'' d) (\<lambda>d.
            res_bind (upsertSQLiteAttentionLedger sid (Some unknown_blocker) None (clk 1) d) (\<lambda>d.
            Inr (d, (row_command (sid, cmd) r)\<lparr>cm_Status := ''outcome_unknown''\<rparr>)))))"

definition resolvePendingCommandUnknown ::
  "string \<Rightarrow> string \<Rightarrow> bool \<Rightarrow> clock \<Rightarrow> db \<Rightarrow> db \<times> PendingCommand res" where
  "resolvePendingCommandUnknown sid cmd encrypted clk =
     transaction (resolvePendingCommandUnknown_tx sid cmd encrypted clk)"

section \<open>Every operation is a store step\<close>

lemma insert_command_event_step: "insert_command_event sid ev now d = Inr (d', n) \<Longrightarrow> store_step d d'"
  by (auto simp: insert_command_event_def Let_def dest!: store_step_event)

lemma update_pending_ok:
  assumes "update_pending sid cmd P status now lost d = Inr d'"
  obtains r where "map_of (session_pending_commands d) (sid, cmd) = Some r" "P r"
    "put_pending (sid, cmd) (r\<lparr>pc_status := status, pc_updated_ms := now\<rparr>) d = Inr d'"
  using assms by (auto simp: update_pending_def split: option.splits if_splits)

lemma update_pending_step:
  assumes "update_pending sid cmd P status now lost d = Inr d'"
    "\<And>r. P r \<Longrightarrow> command_rank (pc_status r) < command_rank status"
  shows "store_step d d'"
  using assms(1)
proof (cases rule: update_pending_ok)
  case (1 r)
  show ?thesis by (rule store_step_pending [OF 1(3)]) (use 1 assms(2) in \<open>simp add: pending_prog_def\<close>)
qed

lemma commitPendingCommand_step: "store_step d (fst (commitPendingCommand sid authority ev q enc clk d))"
  unfolding commitPendingCommand_def
proof (rule transaction_step)
  fix d' x assume ok: "commitPendingCommand_tx sid authority ev q enc clk d = Inr (d', x)"
  consider "d' = d" | n d1 d2 d3 r where "insert_command_event sid ev (clk 0) d = Inr (d1, n)"
    "projectSQLiteAttentionEvent sid n ev (clk 0) d1 = Inr (d2, False)"
    "insert_pending (sid, cq_CommandID q) r d2 = Inr d3"
    "upsertSQLiteAttentionLedger sid None (Some (clk 1)) (clk 2) d3 = Inr d'"
    using ok unfolding commitPendingCommand_tx_def
    by (auto split: sum.splits err.splits if_splits)
  then show "store_step d d'"
  proof cases
    case 2
    then show ?thesis
      by (meson insert_command_event_step store_step_project store_step_insert_pending store_step_ledger
          store_step_trans)
  qed simp
qed

lemma claimPendingCommand_step: "store_step d (fst (claimPendingCommand sid authority cmd enc clk d))"
  unfolding claimPendingCommand_def
  by (rule transaction_step)
    (auto simp: claimPendingCommand_tx_def command_rank_def split: if_splits dest!: update_pending_step)

lemma resolvePendingCommand_step:
  "store_step d (fst (resolvePendingCommand sid authority cmd status enc clk d))"
proof (cases "status \<noteq> ''completed'' \<and> status \<noteq> ''outcome_unknown''")
  case False
  then have rank: "command_rank ''received'' < command_rank status" by (auto simp: command_rank_def)
  have "store_step d d'" if ok: "resolvePendingCommand_tx sid authority cmd status enc clk d = Inr (d', c)" for d' c
  proof -
    obtain d1 where u: "update_pending sid cmd (\<lambda>r. pc_status r = ''received'') status (clk 1)
        ''pending command resolution lost authority'' d = Inr d1"
      and l: "(if status = ''outcome_unknown''
        then upsertSQLiteAttentionLedger sid (Some unknown_blocker) None (clk 2) d1 else Inr d1) = Inr d'"
      using ok unfolding resolvePendingCommand_tx_def by (auto split: if_splits)
    have "store_step d d1" by (rule update_pending_step [OF u]) (use rank in simp)
    moreover have "store_step d1 d'" using l by (auto split: if_splits dest: store_step_ledger)
    ultimately show ?thesis by (rule store_step_trans)
  qed
  then show ?thesis using False by (auto simp: resolvePendingCommand_def intro!: transaction_step)
qed (simp add: resolvePendingCommand_def)

lemma resolvePendingCommandUnknown_step:
  "store_step d (fst (resolvePendingCommandUnknown sid cmd enc clk d))"
  unfolding resolvePendingCommandUnknown_def
proof (rule transaction_step)
  fix d' x assume ok: "resolvePendingCommandUnknown_tx sid cmd enc clk d = Inr (d', x)"
  obtain d1 where u: "update_pending sid cmd (\<lambda>r. pc_status r = ''received'') ''outcome_unknown'' (clk 0)
      ''pending command outcome unknown lost race'' d = Inr d1"
    and l: "upsertSQLiteAttentionLedger sid (Some unknown_blocker) None (clk 1) d1 = Inr d'"
    using ok unfolding resolvePendingCommandUnknown_tx_def by (auto split: option.splits if_splits)
  have "store_step d d1" by (rule update_pending_step [OF u]) (simp add: command_rank_def)
  then show "store_step d d'" by (rule store_step_trans [OF _ store_step_ledger [OF l]])
qed

lemmas command_steps = commitPendingCommand_step claimPendingCommand_step resolvePendingCommand_step
  resolvePendingCommandUnknown_step

section \<open>Properties\<close>

lemma query_command_ok:
  assumes "query_command enc sid cmd now d = Inr c"
  obtains r e where "map_of (session_pending_commands d) (sid, cmd) = Some r"
    "event_at d sid (pc_event_seq r) = Some e" "c = row_command (sid, cmd) r"
  using assms
  by (auto simp: query_command_def queryPendingCommand_def queryEncryptedPendingCommand_def joined_command_def
      split: option.splits if_splits prod.splits)

lemma claim_ok:
  assumes "claimPendingCommand sid a cmd enc clk d = (d', Inr (c, claimed))"
  obtains r where "map_of (session_pending_commands d) (sid, cmd) = Some r" "current_authority d sid a (clk 0)"
    "claimed = (pc_status r = ''pending'')" "clk 0 * ms_ns < pc_expires_ns r"
    "claimed \<Longrightarrow> put_pending (sid, cmd) (r\<lparr>pc_status := ''received'', pc_updated_ms := clk 1\<rparr>) d = Inr d'"
    "\<not> claimed \<Longrightarrow> d' = d"
proof -
  obtain c' where q: "query_command enc sid cmd (clk 0) d = Inr c'" "current_authority d sid a (clk 0)"
    "clk 0 * ms_ns < cm_ExpiresAt c'" "claimed = (cm_Status c' = ''pending'')"
    "claimed \<Longrightarrow> update_pending sid cmd (\<lambda>r. pc_status r = ''pending'' \<and> pc_expires_ns r > clk 1 * ms_ns)
        ''received'' (clk 1) ''pending command claim lost authority'' d = Inr d'"
    "\<not> claimed \<Longrightarrow> d' = d"
    using assms by (auto simp: claimPendingCommand_def transaction_def claimPendingCommand_tx_def
        validateCommandAuthority_def split: sum.splits if_splits)
  obtain r where r: "map_of (session_pending_commands d) (sid, cmd) = Some r" "c' = row_command (sid, cmd) r"
    by (rule query_command_ok [OF q(1)])
  show ?thesis
    using that [OF r(1)] q r by (auto simp: row_command_def elim!: update_pending_ok)
qed

text \<open>
  C10: a durable command is handed out at most once. After a claim that reports the command as
  newly claimed, no later claim does so again, whatever the store did in between and whichever
  connection asks; the command stays in the ledger with the event it was committed with.
\<close>

theorem claim_at_most_once:
  assumes first: "claimPendingCommand sid a cmd enc clk d = (d1, Inr (c, True))" and later: "store_step d1 d2"
    and again: "claimPendingCommand sid a' cmd enc' clk' d2 = (d3, Inr (c', claimed))"
  shows "\<not> claimed \<and> d3 = d2 \<and> cm_EventSeq c' = cm_EventSeq c \<and> cm_Status c' \<noteq> ''pending''"
proof -
  obtain r where r: "map_of (session_pending_commands d) (sid, cmd) = Some r" "pc_status r = ''pending''"
    "put_pending (sid, cmd) (r\<lparr>pc_status := ''received'', pc_updated_ms := clk 1\<rparr>) d = Inr d1"
    by (rule claim_ok [OF first]) auto
  have c: "cm_EventSeq c = pc_event_seq r"
    using first r(1,2) by (auto simp: claimPendingCommand_def transaction_def claimPendingCommand_tx_def
        row_command_def split: sum.splits if_splits elim!: query_command_ok)
  have r1: "map_of (session_pending_commands d1) (sid, cmd) =
      Some (r\<lparr>pc_status := ''received'', pc_updated_ms := clk 1\<rparr>)"
    using r(3) by (auto simp: put_pending_def split: if_splits)
  let ?r1 = "r\<lparr>pc_status := ''received'', pc_updated_ms := clk 1\<rparr>"
  obtain r2 where r2: "map_of (session_pending_commands d2) (sid, cmd) = Some r2" "pending_prog ?r1 r2"
    using store_step_tables(4) [OF later] r1 unfolding tab_step_def by blast
  then have r2': "pc_status r2 \<noteq> ''pending''" "pc_event_seq r2 = pc_event_seq r"
    by (auto simp: pending_prog_def command_rank_def split: if_splits)
  have "\<not> claimed" "d3 = d2" by (rule claim_ok [OF again], use r2 r2' in simp)+
  moreover have "cm_EventSeq c' = pc_event_seq r2" "cm_Status c' = pc_status r2"
    using again \<open>\<not> claimed\<close> r2(1) by (auto simp: claimPendingCommand_def transaction_def
        claimPendingCommand_tx_def row_command_def split: sum.splits if_splits elim!: query_command_ok)
  ultimately show ?thesis using c r2' by simp
qed

definition demo_authority :: CommandAuthority where
  "demo_authority = \<lparr>ca_ConnectionEpoch = 1, ca_CredentialGeneration = 1\<rparr>"

definition demo_message :: PendingEvent where
  "demo_message = \<lparr>pe_Type = ''session.message'', pe_Time = fromMilli 7,
     pe_Payload = print_json (JObj [(''role'', JStr ''user'')])\<rparr>"

definition demo_command :: PendingCommandRequest where
  "demo_command = \<lparr>cq_CommandID = ''c'', cq_Type = ''session.send'', cq_ExpiresAt = fromMilli 900\<rparr>"

definition demo_queued :: db where
  "demo_queued = fst (commitPendingCommand ''s'' demo_authority demo_message demo_command False (\<lambda>_. 7) demo_bound)"

lemma demo_queue:
  "\<exists>c. commitPendingCommand ''s'' demo_authority demo_message demo_command False (\<lambda>_. 7) demo_bound =
     (demo_queued, Inr (c, False))"
proof -
  have "case snd (commitPendingCommand ''s'' demo_authority demo_message demo_command False (\<lambda>_. 7) demo_bound) of
      Inr (c, dup) \<Rightarrow> \<not> dup | Inl e \<Rightarrow> False"
    by code_simp
  then show ?thesis unfolding demo_queued_def
    by (cases "commitPendingCommand ''s'' demo_authority demo_message demo_command False (\<lambda>_. 7) demo_bound")
      (auto split: sum.splits)
qed

theorem claim_at_most_once_witness:
  "\<exists>d1 c. claimPendingCommand ''s'' demo_authority ''c'' False (\<lambda>_. 8) demo_queued = (d1, Inr (c, True)) \<and>
     (\<exists>c'. claimPendingCommand ''s'' demo_authority ''c'' False (\<lambda>_. 9) d1 = (d1, Inr (c', False)))"
proof -
  let ?first = "claimPendingCommand ''s'' demo_authority ''c'' False (\<lambda>_. 8) demo_queued"
  have "case ?first of (d1, Inl e) \<Rightarrow> False | (d1, Inr (c, b)) \<Rightarrow> b \<and>
      (case claimPendingCommand ''s'' demo_authority ''c'' False (\<lambda>_. 9) d1 of (d3, Inl e) \<Rightarrow> False | (d3, Inr x) \<Rightarrow> True)"
    by code_simp
  then obtain d1 c d3 c' claimed where f: "?first = (d1, Inr (c, True))"
    and g: "claimPendingCommand ''s'' demo_authority ''c'' False (\<lambda>_. 9) d1 = (d3, Inr (c', claimed))"
    by (auto split: prod.splits sum.splits)
  then show ?thesis using claim_at_most_once [OF f store_step_refl g] by auto
qed

lemma commit_command_ok:
  assumes "commitPendingCommand sid a ev q enc clk d = (d', Inr (c, False))"
  obtains d1 d2 d3 n where "insert_command_event sid ev (clk 0) d = Inr (d1, n)"
    "projectSQLiteAttentionEvent sid n ev (clk 0) d1 = Inr (d2, False)"
    "insert_pending (sid, cq_CommandID q)
       \<lparr>pc_type = cq_Type q, pc_event_seq = n, pc_status = ''pending'', pc_expires_ns = cq_ExpiresAt q,
        pc_created_ms = clk 1, pc_updated_ms = clk 1\<rparr> d2 = Inr d3"
    "upsertSQLiteAttentionLedger sid None (Some (clk 1)) (clk 2) d3 = Inr d'"
    "current_authority d sid a (clk 0)"
    "validate_input enc ev q (fromMilli (clk 0)) = Inr ()"
    "c = \<lparr>cm_SessionID = sid, cm_CommandID = cq_CommandID q, cm_Type = cq_Type q,
           cm_EventSeq = n, cm_Status = ''pending'', cm_ExpiresAt = cq_ExpiresAt q\<rparr>"
  using assms
  by (auto simp: commitPendingCommand_def transaction_def commitPendingCommand_tx_def
      validateCommandAuthority_def split: sum.splits err.splits if_splits prod.splits)

lemma commit_command_state:
  assumes "commitPendingCommand sid a ev q enc clk d = (d', Inr (c, False))"
  shows "session_events d' = session_events d @ [\<lparr>ev_session = sid, ev_seq = cm_EventSeq c, ev_type = pe_Type ev,
      ev_payload = pe_Payload ev, ev_time_ms = UnixMilli (pe_Time ev), ev_created_ms = clk 0\<rparr>] \<and>
    cm_EventSeq c = latest_seq d sid + 1 \<and> \<not> has_event d sid (cm_EventSeq c) \<and>
    map_of (session_pending_commands d') (sid, cq_CommandID q) =
      Some \<lparr>pc_type = cq_Type q, pc_event_seq = cm_EventSeq c, pc_status = ''pending'',
        pc_expires_ns = cq_ExpiresAt q, pc_created_ms = clk 1, pc_updated_ms = clk 1\<rparr> \<and>
    session_pending_commands d' = AList.update (sid, cq_CommandID q)
      \<lparr>pc_type = cq_Type q, pc_event_seq = cm_EventSeq c, pc_status = ''pending'',
        pc_expires_ns = cq_ExpiresAt q, pc_created_ms = clk 1, pc_updated_ms = clk 1\<rparr> (session_pending_commands d)"
  using assms
proof (cases rule: commit_command_ok)
  case (1 d1 d2 d3 n)
  have d1: "d1 = d\<lparr>session_events := session_events d @ [\<lparr>ev_session = sid, ev_seq = n, ev_type = pe_Type ev,
      ev_payload = pe_Payload ev, ev_time_ms = UnixMilli (pe_Time ev), ev_created_ms = clk 0\<rparr>]\<rparr>"
    "n = latest_seq d sid + 1" "\<not> has_event d sid n"
    using 1(1) by (auto simp: insert_command_event_def Let_def insert_event_def split: if_splits)
  have "session_events d2 = session_events d1" "session_pending_commands d2 = session_pending_commands d1"
    by (rule project_frame [OF 1(2)], simp)+
  moreover have "session_events d' = session_events d3" "session_pending_commands d' = session_pending_commands d3"
    by (rule ledger_frame [OF 1(4)], simp)+
  ultimately show ?thesis
    using 1(3,7) d1 by (auto simp: insert_pending_def put_pending_def split: if_splits)
qed

lemma find_snoc: "List.find P xs = None \<Longrightarrow> P x \<Longrightarrow> List.find P (xs @ [x]) = Some x"
  by (induction xs) (auto split: if_splits)

lemma event_at_new:
  assumes "session_events d' = session_events d @ [e]" "ev_session e = sid" "ev_seq e = n" "\<not> has_event d sid n"
  shows "event_at d' sid n = Some e"
  using assms unfolding event_at_def
  by (auto simp: find_None_iff event_exists_def intro!: find_snoc)

lemma validated_payload:
  assumes "validate_input enc ev q now = Inr ()"
  shows "pe_Payload ev \<noteq> []" "int (length (pe_Payload ev)) \<le> maxEventPayloadSize"
    "pe_Type ev = (if enc then ''session.command'' else ''session.message'')"
proof -
  have none: "DecodeEncryptedPacketCarrier [] scope ty cmd = None" for scope ty cmd
    by (simp add: DecodeEncryptedPacketCarrier_def parse_json_def at_eof_def)
  have size: "int (length p) \<le> maxEventPayloadSize"
    if "DecodeEncryptedPacketCarrier p scope ty cmd = Some x" for p scope ty cmd x
    using that by (auto simp: DecodeEncryptedPacketCarrier_def MaxEncryptedPacketCarrierBytes_def
        maxEventPayloadSize_def split: if_splits)
  show "pe_Payload ev \<noteq> []" using assms none
    by (auto simp: validate_input_def validatePendingCommandInput_def validateEncryptedPendingCommandInput_def
        split: if_splits)
  show "int (length (pe_Payload ev)) \<le> maxEventPayloadSize" using assms
    by (auto simp: validate_input_def validatePendingCommandInput_def validateEncryptedPendingCommandInput_def
        split: if_splits dest: size)
  show "pe_Type ev = (if enc then ''session.command'' else ''session.message'')" using assms
    by (auto simp: validate_input_def validatePendingCommandInput_def validateEncryptedPendingCommandInput_def
        split: if_splits)
qed

lemma commit_joined:
  assumes ok: "commitPendingCommand sid a ev q enc clk d = (d', Inr (c, False))"
  obtains r e where "joined_command sid (cq_CommandID q) d' = Some (r, e)"
    "r = \<lparr>pc_type = cq_Type q, pc_event_seq = cm_EventSeq c, pc_status = ''pending'',
        pc_expires_ns = cq_ExpiresAt q, pc_created_ms = clk 1, pc_updated_ms = clk 1\<rparr>"
    "ev_type e = pe_Type ev" "ev_payload e = pe_Payload ev"
    "validate_input enc ev q (fromMilli (clk 0)) = Inr ()" "row_command (sid, cq_CommandID q) r = c"
    "check_pending_row (sid, cq_CommandID q) r"
  using ok
proof (cases rule: commit_command_ok)
  case (1 d1 d2 d3 n)
  note st = commit_command_state [OF ok]
  have ev: "event_at d' sid (cm_EventSeq c) = Some \<lparr>ev_session = sid, ev_seq = cm_EventSeq c, ev_type = pe_Type ev,
      ev_payload = pe_Payload ev, ev_time_ms = UnixMilli (pe_Time ev), ev_created_ms = clk 0\<rparr>"
    using st by (intro event_at_new [of d' d]) auto
  show ?thesis
    using st ev validated_payload [OF 1(6)] 1(3,6,7)
    by (intro that) (auto simp: joined_command_def row_command_def Suc_le_eq insert_pending_def put_pending_def
        split: if_splits)
qed

text \<open>
  C37: committing a client command adds exactly its event to the session log and a pending
  ledger entry that refers to it, under a current authority; repeating the commit of a plain
  message while it is valid and the authority current returns the same command as a duplicate
  and changes nothing.
\<close>

theorem command_commit_idempotent:
  assumes ok: "commitPendingCommand sid a ev q False clk d = (d', Inr (c, False))"
    and sid: "validConnectionID sid" and time: "1 \<le> clk 1" "clk 1 \<le> clk' 0"
    and valid: "validate_input False ev q (fromMilli (clk' 0)) = Inr ()" "current_authority d' sid a (clk' 0)"
  shows "(\<exists>e. log_of d' sid = log_of d sid @ [e] \<and> ev_seq e = cm_EventSeq c \<and> ev_payload e = pe_Payload ev) \<and>
    cm_EventSeq c = latest_seq d sid + 1 \<and> current_authority d sid a (clk 0) \<and>
    commitPendingCommand sid a ev q False clk' d' = (d', Inr (c, True))"
  using ok
proof (cases rule: commit_joined)
  case (1 r e)
  have auth: "current_authority d sid a (clk 0)" by (rule commit_command_ok [OF ok])
  have msg: "user_message (pe_Payload ev)" "cq_Type q = ''session.send''" "pe_Type ev = ''session.message''"
    "cq_CommandID q \<noteq> []" "length (cq_CommandID q) \<le> 256"
    using valid(1) by (auto simp: validate_input_def validatePendingCommandInput_def split: if_splits)
  have exp: "clk 1 * ms_ns < cq_ExpiresAt q" "cq_ExpiresAt q \<le> (clk 1 + 30000) * ms_ns" "cm_EventSeq c > 0"
    using 1(7) by (simp_all add: 1(2) check_pending_row_def)
  have exp': "cq_ExpiresAt q \<le> (clk' 0 + 30000) * ms_ns" using exp(2) time by (simp add: algebra_simps)
  have row: "pc_type r = cq_Type q" "pc_event_seq r = cm_EventSeq c" "pc_status r = ''pending''"
    "pc_expires_ns r = cq_ExpiresAt q" "pc_created_ms r = clk 1"
    by (simp_all add: 1(2))
  have "queryPendingCommand sid (cq_CommandID q) (clk' 0) d' = Inr c"
    unfolding queryPendingCommand_def 1(1)
    using row 1(3,4,6) sid time exp exp' msg
    by (simp add: validConnectionID_def validPendingCommandStatus_def)
  then have "commitPendingCommand sid a ev q False clk' d' = (d', Inr (c, True))"
    using valid by (simp add: commitPendingCommand_def transaction_def commitPendingCommand_tx_def
        validateCommandAuthority_def)
  moreover have "\<exists>e. log_of d' sid = log_of d sid @ [e] \<and> ev_seq e = cm_EventSeq c \<and> ev_payload e = pe_Payload ev"
    using commit_command_state [OF ok] by (auto simp: rows_of_def)
  ultimately show ?thesis using commit_command_state [OF ok] auth by blast
qed

theorem command_commit_idempotent_witness:
  "\<exists>c. commitPendingCommand ''s'' demo_authority demo_message demo_command False (\<lambda>_. 7) demo_bound =
       (demo_queued, Inr (c, False)) \<and>
     commitPendingCommand ''s'' demo_authority demo_message demo_command False (\<lambda>_. 8) demo_queued =
       (demo_queued, Inr (c, True))"
proof -
  obtain c where c: "commitPendingCommand ''s'' demo_authority demo_message demo_command False (\<lambda>_. 7) demo_bound =
      (demo_queued, Inr (c, False))" using demo_queue by blast
  have "validConnectionID ''s''" "validate_input False demo_message demo_command (fromMilli 8) = Inr ()"
    "current_authority demo_queued ''s'' demo_authority 8" by code_simp+
  then show ?thesis using c command_commit_idempotent [OF c, of "\<lambda>_. 8"] by auto
qed

text \<open>
  C38: a retry of a committed encrypted command is always refused: the lookup for an existing
  command accepts only plain user messages, so an entry whose event is a carrier is reported as
  invalid and neither the duplicate nor the conflict branch is reached.
\<close>

theorem encrypted_retry_refused:
  assumes ok: "CommitEncryptedPendingCommand sid a ev q clk d = (d', Inr (c, False))"
    and same: "cq_CommandID q' = cq_CommandID q"
  shows "\<exists>e. CommitEncryptedPendingCommand sid a' ev' q' clk' d' = (d', Inl e) \<and>
    e \<noteq> Fail ''conflicting encrypted command retry''"
proof -
  have "commitPendingCommand sid a ev q True clk d = (d', Inr (c, False))"
    using ok by (simp add: CommitEncryptedPendingCommand_def)
  then show ?thesis
  proof (cases rule: commit_joined)
    case (1 r e)
    have "ev_type e = ''session.command''" using validated_payload(3) [OF 1(5)] 1(3) by simp
    then have "queryPendingCommand sid (cq_CommandID q') (clk' 0) d' = Inl (Fail ''pending command row is invalid'')"
      by (simp add: queryPendingCommand_def same 1(1))
    then show ?thesis
      by (auto simp: CommitEncryptedPendingCommand_def commitPendingCommand_def transaction_def
          commitPendingCommand_tx_def validateCommandAuthority_def validate_input_def
          validateEncryptedPendingCommandInput_def)
  qed
qed

definition demo_sealed :: EncryptedPacketCarrier where
  "demo_sealed = demo_carrier\<lparr>pk_Scope := ''command'', pk_MessageID := ''c'', pk_Type := ''session.stop'',
     pk_Packet := (pk_Packet demo_carrier)\<lparr>op_Public := (op_Public (pk_Packet demo_carrier))\<lparr>ep_State := []\<rparr>\<rparr>\<rparr>"

definition demo_sealed_event :: PendingEvent where
  "demo_sealed_event = \<lparr>pe_Type = ''session.command'', pe_Time = fromMilli 7,
     pe_Payload = print_json (carrier_json demo_sealed)\<rparr>"

definition demo_sealed_command :: PendingCommandRequest where
  "demo_sealed_command = \<lparr>cq_CommandID = ''c'', cq_Type = ''session.stop'', cq_ExpiresAt = fromMilli 900\<rparr>"

lemma demo_sealed_input:
  "validate_input True demo_sealed_event demo_sealed_command (fromMilli 7) = Inr ()"
proof -
  have ids: "validProtocolIdentifier ''k1''" "validProtocolIdentifier ''dev''" "validProtocolIdentifier ''c''"
    "validProtocolIdentifier ''session.stop''" "ValidEncryptedCommandType ''session.stop''" by code_simp+
  have "int (length (print_json (carrier_json demo_sealed))) \<le> MaxEncryptedPacketCarrierBytes" by code_simp
  moreover have "valid_carrier ''command'' ''session.stop'' ''c'' demo_sealed"
    using ids by (simp add: valid_carrier_def demo_sealed_def demo_carrier_def validBase64URL_encode)
  moreover have "validateEncryptedProjection ''session.stop'' (JObj (projection_fields (op_Public (pk_Packet demo_sealed))))"
    by code_simp
  ultimately have "DecodeEncryptedPacketCarrier (print_json (carrier_json demo_sealed)) ''command'' ''session.stop'' ''c''
      = Some demo_sealed"
    using ids by (intro carrier_decodes) auto
  then show ?thesis
    using ids by (simp add: validate_input_def validateEncryptedPendingCommandInput_def demo_sealed_event_def
        demo_sealed_command_def fromMilli_def)
qed

lemma case_okE:
  assumes "case r of Inl e \<Rightarrow> False | Inr x \<Rightarrow> P x"
  obtains x where "r = Inr x" "P x"
  using assms by (cases r) auto

lemma case_ok2E:
  assumes "case r of Inl e \<Rightarrow> False | Inr (a, b) \<Rightarrow> P a b"
  obtains a b where "r = Inr (a, b)" "P a b"
  using assms by (cases r) auto

lemma demo_sealed_commit:
  "\<exists>d' c. CommitEncryptedPendingCommand ''s'' demo_authority demo_sealed_event demo_sealed_command (\<lambda>_. 7) demo_bound =
     (d', Inr (c, False))"
proof -
  have "case insert_command_event ''s'' demo_sealed_event 7 demo_bound of Inl e \<Rightarrow> False | Inr (d1, n) \<Rightarrow>
    (case projectSQLiteAttentionEvent ''s'' n demo_sealed_event 7 d1 of Inl e \<Rightarrow> False | Inr (d2, t) \<Rightarrow>
      \<not> t \<and> validateCommandAuthority ''s'' demo_authority 7 d2 = Inr () \<and>
      (case insert_pending (''s'', ''c'') \<lparr>pc_type = ''session.stop'', pc_event_seq = n, pc_status = ''pending'',
          pc_expires_ns = fromMilli 900, pc_created_ms = 7, pc_updated_ms = 7\<rparr> d2 of Inl e \<Rightarrow> False | Inr d3 \<Rightarrow>
        (case upsertSQLiteAttentionLedger ''s'' None (Some 7) 7 d3 of Inl e \<Rightarrow> False | Inr d4 \<Rightarrow> True)))"
    by code_simp
  then obtain d1 n d2 t d3 d4 where steps:
    "insert_command_event ''s'' demo_sealed_event 7 demo_bound = Inr (d1, n)"
    "projectSQLiteAttentionEvent ''s'' n demo_sealed_event 7 d1 = Inr (d2, t)" "\<not> t"
    "validateCommandAuthority ''s'' demo_authority 7 d2 = Inr ()"
    "insert_pending (''s'', ''c'') \<lparr>pc_type = ''session.stop'', pc_event_seq = n, pc_status = ''pending'',
          pc_expires_ns = fromMilli 900, pc_created_ms = 7, pc_updated_ms = 7\<rparr> d2 = Inr d3"
    "upsertSQLiteAttentionLedger ''s'' None (Some 7) 7 d3 = Inr d4"
    by (elim case_ok2E conjE case_okE) (rule that)
  moreover have "validateCommandAuthority ''s'' demo_authority 7 demo_bound = Inr ()"
    "queryPendingCommand ''s'' ''c'' 7 demo_bound = Inl NoRows" by code_simp+
  ultimately show ?thesis
    using demo_sealed_input
    by (simp add: CommitEncryptedPendingCommand_def commitPendingCommand_def transaction_def
        commitPendingCommand_tx_def demo_sealed_command_def)
qed

theorem encrypted_retry_refused_witness:
  "\<exists>d' c e. CommitEncryptedPendingCommand ''s'' demo_authority demo_sealed_event demo_sealed_command (\<lambda>_. 7) demo_bound =
       (d', Inr (c, False)) \<and>
     CommitEncryptedPendingCommand ''s'' demo_authority demo_sealed_event demo_sealed_command (\<lambda>_. 8) d' = (d', Inl e)"
  using demo_sealed_commit encrypted_retry_refused by metis

end
