(* ===== verification/Proposals.thy ===== *)
theory Proposals
  imports Dispatch Commands
begin

text \<open>
  Events an adapter proposes under an identifier of its own (\<^verbatim>\<open>CommitProposedEvent\<close> and its
  encrypted form in \<^verbatim>\<open>store/sqlite/store.go\<close>). The receipt maps the proposal to the sequence
  number of its event; a retry with the same content is answered from the receipt, a retry with
  another content is a conflict.
\<close>

record ProposedEventRequest =
  pp_ProposalID :: string
  pp_Event :: PendingEvent

record ProposedEventReceipt =
  pv_SessionID :: string
  pv_ProposalID :: string
  pv_Seq :: int
  pv_Status :: string

definition proposedEventReceipt :: "string \<Rightarrow> string \<Rightarrow> int \<Rightarrow> ProposedEventReceipt" where
  "proposedEventReceipt sid pid seq =
     \<lparr>pv_SessionID = sid, pv_ProposalID = pid, pv_Seq = seq, pv_Status = ''accepted''\<rparr>"

definition validateProposedEventInput ::
  "string \<Rightarrow> CommandAuthority \<Rightarrow> string \<Rightarrow> PendingEvent \<Rightarrow> unit res" where
  "validateProposedEventInput sid authority pid ev =
     (if sid = [] \<or> length sid > 255 \<or> pid = [] \<or> length pid > 255 \<or> ca_ConnectionEpoch authority < 1 \<or>
         ca_CredentialGeneration authority < 1 \<or> pe_Type ev = [] \<or> length (pe_Payload ev) < 1 \<or>
         int (length (pe_Payload ev)) > maxEventPayloadSize \<or> \<not> json_Valid (pe_Payload ev)
      then Inl (Fail ''invalid proposed event'') else Inr ())"

definition queryProposedEvent ::
  "string \<Rightarrow> string \<Rightarrow> int \<Rightarrow> db \<Rightarrow> (ProposedEventReceipt \<times> string \<times> int \<times> bytes) res" where
  "queryProposedEvent sid pid now d =
     (case map_of (session_event_proposals d) (sid, pid) of
        None \<Rightarrow> Inl NoRows
      | Some r \<Rightarrow>
          (case event_at d sid (pr_event_seq r) of
             None \<Rightarrow> Inl (Fail ''proposed event row is invalid'')
           | Some e \<Rightarrow>
               if pr_event_seq r < 1 \<or> pr_created_ms r < 1 \<or> pr_created_ms r > now \<or> ev_type e = [] \<or>
                  length (ev_payload e) < 1 \<or> int (length (ev_payload e)) > maxEventPayloadSize \<or>
                  \<not> json_Valid (ev_payload e)
               then Inl (Fail ''proposed event row is invalid'')
               else Inr (proposedEventReceipt sid pid (pr_event_seq r), ev_type e, ev_time_ms e, ev_payload e)))"

text \<open>Readings: the authority lock, the transaction's time, and the time of the receipt.\<close>

definition commitProposedEvent_tx ::
  "string \<Rightarrow> CommandAuthority \<Rightarrow> ProposedEventRequest \<Rightarrow> PendingEvent \<Rightarrow> clock \<Rightarrow> db \<Rightarrow>
   (db \<times> ProposedEventReceipt) res" where
  "commitProposedEvent_tx sid authority proposal projection clk d =
     res_bind (lockCommandAuthority sid authority (clk 0) d) (\<lambda>_.
     let ev = pp_Event proposal in
     case queryProposedEvent sid (pp_ProposalID proposal) (clk 1) d of
       Inr (existing, existingType, existingTime, existingPayload) \<Rightarrow>
         if existingType \<noteq> pe_Type ev \<or> existingTime \<noteq> UnixMilli (pe_Time ev) \<or> existingPayload \<noteq> pe_Payload ev
         then Inl (Fail ''conflicting proposed event retry'')
         else Inr (d, existing)
     | Inl (Fail e) \<Rightarrow> Inl (Fail e)
     | Inl NoRows \<Rightarrow>
         res_bind (insert_command_event sid ev (clk 1) d) (\<lambda>(d, seq).
         res_bind (projectSQLiteAttentionEvent sid seq projection (clk 1) d) (\<lambda>(d, terminal).
         if \<not> current_authority d sid authority (clk 2) then Inl (Fail ''proposed event lost authority'')
         else
           res_bind (insert_proposal (sid, pp_ProposalID proposal)
                       \<lparr>pr_event_seq = seq, pr_created_ms = clk 2\<rparr> d) (\<lambda>d.
           res_bind (if terminal then fence_terminal sid (clk 2) d else Inr d) (\<lambda>d.
           Inr (d, proposedEventReceipt sid (pp_ProposalID proposal) seq))))))"

definition commitProposedEvent ::
  "string \<Rightarrow> CommandAuthority \<Rightarrow> ProposedEventRequest \<Rightarrow> bool \<Rightarrow> clock \<Rightarrow> db \<Rightarrow> db \<times> ProposedEventReceipt res" where
  "commitProposedEvent sid authority proposal encrypted clk d =
     (case res_bind (validateProposedEventInput sid authority (pp_ProposalID proposal) (pp_Event proposal)) (\<lambda>_.
           sqliteProjectionEvent (pp_Event proposal) encrypted) of
        Inl e \<Rightarrow> (d, Inl e)
      | Inr projection \<Rightarrow> transaction (commitProposedEvent_tx sid authority proposal projection clk) d)"

definition CommitProposedEvent ::
  "string \<Rightarrow> CommandAuthority \<Rightarrow> ProposedEventRequest \<Rightarrow> clock \<Rightarrow> db \<Rightarrow> db \<times> ProposedEventReceipt res" where
  "CommitProposedEvent sid authority proposal = commitProposedEvent sid authority proposal False"

definition CommitEncryptedProposedEvent ::
  "string \<Rightarrow> CommandAuthority \<Rightarrow> ProposedEventRequest \<Rightarrow> clock \<Rightarrow> db \<Rightarrow> db \<times> ProposedEventReceipt res" where
  "CommitEncryptedProposedEvent sid authority proposal = commitProposedEvent sid authority proposal True"

section \<open>Commits\<close>

lemma commit_proposal_cases:
  assumes "commitProposedEvent_tx sid a p pj clk d = Inr (d', r)"
  obtains (duplicate) x where "d' = d" "queryProposedEvent sid (pp_ProposalID p) (clk 1) d = Inr x"
  | (new) d1 d2 d3 n t where "insert_command_event sid (pp_Event p) (clk 1) d = Inr (d1, n)"
      "projectSQLiteAttentionEvent sid n pj (clk 1) d1 = Inr (d2, t)"
      "current_authority d2 sid a (clk 2)"
      "insert_proposal (sid, pp_ProposalID p) \<lparr>pr_event_seq = n, pr_created_ms = clk 2\<rparr> d2 = Inr d3"
      "(if t then fence_terminal sid (clk 2) d3 else Inr d3) = Inr d'"
      "r = proposedEventReceipt sid (pp_ProposalID p) n"
      "map_of (session_event_proposals d) (sid, pp_ProposalID p) = None"
proof (cases "queryProposedEvent sid (pp_ProposalID p) (clk 1) d")
  case (Inr x)
  with assms duplicate show ?thesis
    by (auto simp: commitProposedEvent_tx_def Let_def lockCommandAuthority_def split: if_splits prod.splits)
next
  case (Inl e)
  then show ?thesis
  proof (cases e)
    case NoRows
    have none: "map_of (session_event_proposals d) (sid, pp_ProposalID p) = None"
      using Inl NoRows by (auto simp: queryProposedEvent_def split: option.splits if_splits)
    have "\<exists>d1 d2 d3 n t. insert_command_event sid (pp_Event p) (clk 1) d = Inr (d1, n) \<and>
      projectSQLiteAttentionEvent sid n pj (clk 1) d1 = Inr (d2, t) \<and> current_authority d2 sid a (clk 2) \<and>
      insert_proposal (sid, pp_ProposalID p) \<lparr>pr_event_seq = n, pr_created_ms = clk 2\<rparr> d2 = Inr d3 \<and>
      (if t then fence_terminal sid (clk 2) d3 else Inr d3) = Inr d' \<and>
      r = proposedEventReceipt sid (pp_ProposalID p) n"
      using assms Inl NoRows unfolding commitProposedEvent_tx_def Let_def
      by (simp add: lockCommandAuthority_def split: if_split_asm prod.split_asm) blast
    then show ?thesis using new none by blast
  next
    case (Fail m)
    with Inl assms show ?thesis
      by (simp add: commitProposedEvent_tx_def Let_def lockCommandAuthority_def split: if_split_asm)
  qed
qed

lemma commitProposedEvent_step: "store_step d (fst (commitProposedEvent sid a p enc clk d))"
proof -
  have "store_step d d'" if "commitProposedEvent_tx sid a p pj clk d = Inr (d', r)" for pj d' r
    using that
  proof (cases rule: commit_proposal_cases)
    case (new d1 d2 d3 n t)
    have "store_step d d1" by (rule insert_command_event_step [OF new(1)])
    also have "store_step d1 d2" by (rule store_step_project [OF new(2)])
    also have "store_step d2 d3" by (rule store_step_proposal [OF new(4)])
    also have "store_step d3 d'" using new(5) by (auto split: if_splits dest: store_step_fence_terminal)
    finally show ?thesis .
  qed simp
  then show ?thesis
    by (auto simp: commitProposedEvent_def split: sum.splits intro: transaction_step)
qed

section \<open>Properties\<close>

lemma commit_proposal_state:
  assumes "commitProposedEvent sid a p enc clk d = (d', Inr r)"
    and "map_of (session_event_proposals d) (sid, pp_ProposalID p) = None"
  defines "e \<equiv> event_row_of sid (pv_Seq r) (clk 1) (pp_Event p)"
  shows "session_events d' = session_events d @ [e]" "event_at d' sid (pv_Seq r) = Some e"
    "map_of (session_event_proposals d') (sid, pp_ProposalID p) =
      Some \<lparr>pr_event_seq = pv_Seq r, pr_created_ms = clk 2\<rparr>"
    "pv_Seq r > 0" "clk 2 > 0" "r = proposedEventReceipt sid (pp_ProposalID p) (pv_Seq r)"
    "\<exists>pj. sqliteProjectionEvent (pp_Event p) enc = Inr pj"
    "validateProposedEventInput sid a (pp_ProposalID p) (pp_Event p) = Inr ()"
proof -
  obtain pj where pj: "sqliteProjectionEvent (pp_Event p) enc = Inr pj"
    and valid: "validateProposedEventInput sid a (pp_ProposalID p) (pp_Event p) = Inr ()"
    and tx: "commitProposedEvent_tx sid a p pj clk d = Inr (d', r)"
    using assms(1) by (auto simp: commitProposedEvent_def transaction_ok_iff split: sum.splits)
  have none: "queryProposedEvent sid (pp_ProposalID p) (clk 1) d = Inl NoRows"
    using assms(2) by (simp add: queryProposedEvent_def)
  obtain d1 d2 d3 n t where new: "insert_command_event sid (pp_Event p) (clk 1) d = Inr (d1, n)"
      "projectSQLiteAttentionEvent sid n pj (clk 1) d1 = Inr (d2, t)"
      "insert_proposal (sid, pp_ProposalID p) \<lparr>pr_event_seq = n, pr_created_ms = clk 2\<rparr> d2 = Inr d3"
      "(if t then fence_terminal sid (clk 2) d3 else Inr d3) = Inr d'"
      "r = proposedEventReceipt sid (pp_ProposalID p) n"
    by (rule commit_proposal_cases [OF tx]) (use none in simp, rule that)
  have n: "pv_Seq r = n" by (simp add: new(5) proposedEventReceipt_def)
  have d1: "session_events d1 = session_events d @ [e]" "\<not> has_event d sid n"
    using new(1) by (auto simp: insert_command_event_def Let_def insert_event_def e_def n event_row_of_def split: if_splits)
  have d2: "session_events d2 = session_events d1" by (rule project_frame [OF new(2)]) simp
  have d3: "session_events d3 = session_events d2" "map_of (session_event_proposals d3) (sid, pp_ProposalID p) =
      Some \<lparr>pr_event_seq = n, pr_created_ms = clk 2\<rparr>" "n > 0" "clk 2 > 0"
    using new(3) by (auto simp: insert_proposal_def check_proposal_row_def split: if_splits)
  have d': "session_events d' = session_events d3" "session_event_proposals d' = session_event_proposals d3"
    using new(4) by (auto split: if_splits dest!: fence_terminal_frame)
  show log: "session_events d' = session_events d @ [e]" using d1 d2 d3 d' by simp
  show "event_at d' sid (pv_Seq r) = Some e"
    by (rule event_at_new [OF log]) (simp_all add: e_def event_row_of_def n d1)
  show "map_of (session_event_proposals d') (sid, pp_ProposalID p) =
      Some \<lparr>pr_event_seq = pv_Seq r, pr_created_ms = clk 2\<rparr>" "pv_Seq r > 0" "clk 2 > 0"
    "r = proposedEventReceipt sid (pp_ProposalID p) (pv_Seq r)"
    using d3 d' n new(5) by simp_all
  show "\<exists>pj. sqliteProjectionEvent (pp_Event p) enc = Inr pj"
    "validateProposedEventInput sid a (pp_ProposalID p) (pp_Event p) = Inr ()"
    using pj valid by blast+
qed

text \<open>
  C16: a proposal is committed exactly once. Its first commit appends exactly the proposed event;
  from then on, in every later state of the store and for every current connection, a retry of the
  same event returns the same receipt and a proposal of another event under the same identifier is
  refused, and neither changes anything.
\<close>

theorem proposal_exactly_once:
  assumes ok: "commitProposedEvent sid a p enc clk d = (d', Inr r)"
    and new: "map_of (session_event_proposals d) (sid, pp_ProposalID p) = None"
    and later: "store_step d' later" "current_authority later sid a' (clk' 0)" "clk 2 \<le> clk' 1"
    and valid: "validateProposedEventInput sid a' (pp_ProposalID p) ev = Inr ()"
  shows "session_events d' = session_events d @ [event_row_of sid (pv_Seq r) (clk 1) (pp_Event p)] \<and>
    (if pe_Type ev = pe_Type (pp_Event p) \<and> UnixMilli (pe_Time ev) = UnixMilli (pe_Time (pp_Event p)) \<and>
        pe_Payload ev = pe_Payload (pp_Event p)
     then commitProposedEvent sid a' (p\<lparr>pp_Event := ev\<rparr>) enc clk' later = (later, Inr r)
     else \<exists>e. commitProposedEvent sid a' (p\<lparr>pp_Event := ev\<rparr>) enc clk' later = (later, Inl e))"
proof -
  note st = commit_proposal_state [OF ok new]
  let ?e = "event_row_of sid (pv_Seq r) (clk 1) (pp_Event p)"
  have row: "map_of (session_event_proposals later) (sid, pp_ProposalID p) =
      Some \<lparr>pr_event_seq = pv_Seq r, pr_created_ms = clk 2\<rparr>"
    using store_step_tables(5) [OF later(1)] st(3) by (auto simp: tab_step_def)
  have ev: "event_at later sid (pv_Seq r) = Some ?e" by (rule event_at_kept [OF later(1) st(2)])
  have payload: "pe_Type (pp_Event p) \<noteq> []" "pe_Payload (pp_Event p) \<noteq> []"
    "int (length (pe_Payload (pp_Event p))) \<le> maxEventPayloadSize" "json_Valid (pe_Payload (pp_Event p))"
    using st(8) by (auto simp: validateProposedEventInput_def split: if_splits)
  have "queryProposedEvent sid (pp_ProposalID p) (clk' 1) later =
      Inr (r, pe_Type (pp_Event p), UnixMilli (pe_Time (pp_Event p)), pe_Payload (pp_Event p))"
    unfolding queryProposedEvent_def row
    using ev st(4,5,6) later(3) payload by (simp add: event_row_of_def Suc_le_eq)
  then have tx: "commitProposedEvent_tx sid a' (p\<lparr>pp_Event := ev\<rparr>) pj clk' later =
     (if pe_Type ev = pe_Type (pp_Event p) \<and> UnixMilli (pe_Time ev) = UnixMilli (pe_Time (pp_Event p)) \<and>
        pe_Payload ev = pe_Payload (pp_Event p)
      then Inr (later, r) else Inl (Fail ''conflicting proposed event retry''))" for pj
    using later(2) by (auto simp: commitProposedEvent_tx_def lockCommandAuthority_def)
  show ?thesis
  proof (cases "sqliteProjectionEvent ev enc")
    case (Inl e)
    have "sqliteProjectionEvent ev enc \<noteq> Inl e"
      if "pe_Type ev = pe_Type (pp_Event p)" "pe_Payload ev = pe_Payload (pp_Event p)"
      using st(7) that by (auto simp: sqliteProjectionEvent_def split: option.splits if_splits)
    with Inl show ?thesis using st(1) valid by (auto simp: commitProposedEvent_def)
  next
    case (Inr pj)
    then show ?thesis using st(1) valid tx by (simp add: commitProposedEvent_def transaction_def)
  qed
qed

definition demo_proposal :: ProposedEventRequest where
  "demo_proposal = \<lparr>pp_ProposalID = ''p'', pp_Event = \<lparr>pe_Type = ''session.message'', pe_Time = 0, pe_Payload = ''{}''\<rparr>\<rparr>"

theorem proposal_exactly_once_witness:
  "\<exists>d' r. commitProposedEvent ''s'' demo_authority demo_proposal False (\<lambda>_. 8) demo_bound = (d', Inr r) \<and>
     commitProposedEvent ''s'' demo_authority demo_proposal False (\<lambda>_. 9) d' = (d', Inr r)"
proof -
  have "case commitProposedEvent ''s'' demo_authority demo_proposal False (\<lambda>_. 8) demo_bound of (d', x) \<Rightarrow>
      x \<noteq> Inl NoRows \<and> (case x of Inl e \<Rightarrow> False | Inr r \<Rightarrow> current_authority d' ''s'' demo_authority 9)"
    "map_of (session_event_proposals demo_bound) (''s'', pp_ProposalID demo_proposal) = None"
    "validateProposedEventInput ''s'' demo_authority (pp_ProposalID demo_proposal) (pp_Event demo_proposal) = Inr ()"
    by code_simp+
  then obtain d' r where ok: "commitProposedEvent ''s'' demo_authority demo_proposal False (\<lambda>_. 8) demo_bound = (d', Inr r)"
    and rest: "current_authority d' ''s'' demo_authority 9"
    "map_of (session_event_proposals demo_bound) (''s'', pp_ProposalID demo_proposal) = None"
    "validateProposedEventInput ''s'' demo_authority (pp_ProposalID demo_proposal) (pp_Event demo_proposal) = Inr ()"
    by (cases "commitProposedEvent ''s'' demo_authority demo_proposal False (\<lambda>_. 8) demo_bound") (auto split: sum.splits)
  show ?thesis
    using proposal_exactly_once [OF ok rest(2) store_step_refl, of demo_authority "\<lambda>_. 9" "pp_Event demo_proposal"] ok rest
    by auto
qed

end
