(* ===== verification/Warm_Attach.thy ===== *)
theory Warm_Attach
  imports Attach_Attempts Proposals
begin

text \<open>
  Warm attach (\<^verbatim>\<open>CommitWarmAttach\<close> and \<^verbatim>\<open>ExpireWarmAttach\<close> of
  \<^verbatim>\<open>store/sqlite/store.go\<close>): one transaction that checks the bootstrap admission, creates
  the target's credential, attempt, attachment, first reference event and its outbox command, and
  sets the target's attention blocker; and the expiry of an attachment whose deadline has passed.
\<close>

section \<open>Data\<close>

record WarmAttachFirstDelivery =
  wf_CommandID :: string
  wf_ReferenceID :: string
  wf_ReferenceDigest :: bytes
  wf_ExpiresAt :: gotime

record WarmAttachRequest =
  wq_Attempt :: AttachAttemptRequest
  wq_Attachment :: AttachmentCreate
  wq_TargetActivation :: WarmAttachTargetActivation
  wq_BootstrapAdmission :: AdapterConnectionAdmission
  wq_FirstDelivery :: WarmAttachFirstDelivery

record WarmAttachOutbox =
  wx_TargetSessionID :: string
  wx_CommandID :: string
  wx_EventSeq :: int
  wx_ReferenceID :: string
  wx_ReferenceDigest :: bytes
  wx_ExpiresAt :: gotime

record WarmAttachCommit =
  wk_Attempt :: AttachAttempt_rec
  wk_Attachment :: Attachment_rec
  wk_TargetActivation :: WarmAttachTargetActivation
  wk_Outbox :: WarmAttachOutbox
  wk_Summary :: SessionAttentionSummary
  wk_Duplicate :: bool

record WarmAttachExpiry =
  wy_Attachment :: Attachment_rec
  wy_Summary :: SessionAttentionSummary

section \<open>Checks\<close>

definition validateSQLiteWarmAttach :: "WarmAttachRequest \<Rightarrow> unit res" where
  "validateSQLiteWarmAttach q =
     (let i = aq_Identity (wq_Attempt q); g = aq_Fingerprint (wq_Attempt q);
          t = tc_Identity (wq_Attachment q); act = wq_TargetActivation q;
          adm = wq_BootstrapAdmission q; del = wq_FirstDelivery q
      in
      if ax_JTIHash i = zero32 \<or> ax_Provider i = [] \<or> af_Domain g \<noteq> ''agentwharf.attach-request.v1'' \<or>
         af_Version g \<noteq> 1 \<or> af_Digest g = zero32 \<or> af_KeyVersion g < 1 \<or>
         aq_Outcome (wq_Attempt q) \<noteq> ''accepted'' \<or>
         aq_IssuedCredentialGeneration (wq_Attempt q) \<noteq> Some (ta_Generation act) \<or>
         an_AttachID t \<noteq> ax_AttachID i \<or> an_BootstrapSessionID t \<noteq> ax_BootstrapSessionID i \<or>
         an_TargetSessionID t \<noteq> ax_TargetSessionID i \<or> \<not> validateAttachmentIdentity t \<or>
         ta_Generation act < 1 \<or> ta_ExpiresAt act = zeroTime \<or>
         ta_ExpiresAt act \<noteq> tc_ExpiresAt (wq_Attachment q) \<or>
         am_CredentialGeneration adm < 1 \<or> am_ConnectionEpoch adm < 1 \<or> am_AcceptedFence adm < 1 \<or>
         am_GrantFence adm \<le> am_AcceptedFence adm \<or> \<not> validAttachmentText (wf_CommandID del) 256 \<or>
         \<not> validAttachmentText (wf_ReferenceID del) 255 \<or> wf_ReferenceDigest del = zero32 \<or>
         wf_ExpiresAt del \<noteq> tc_ExpiresAt (wq_Attachment q)
      then Inl (Fail ''invalid sqlite warm attach request'') else Inr ())"

definition validSQLiteWarmAttachExpiry :: "WarmAttachRequest \<Rightarrow> gotime \<Rightarrow> bool" where
  "validSQLiteWarmAttachExpiry q now \<longleftrightarrow>
     aq_ExpiresAt (wq_Attempt q) > now \<and> aq_ExpiresAt (wq_Attempt q) < now + maxAttachAttemptTTL + 1 \<and>
     validAttachmentExpiry (tc_ExpiresAt (wq_Attachment q)) now \<and>
     \<not> tc_ExpiresAt (wq_Attachment q) > aq_ExpiresAt (wq_Attempt q)"

definition hex_text :: "bytes \<Rightarrow> string" where
  "hex_text bs = concat (map (\<lambda>c. [hex_digit (of_char c div 16), hex_digit (of_char c mod 16)]) bs)"

definition sqliteWarmAttachPayload :: "WarmAttachFirstDelivery \<Rightarrow> bytes" where
  "sqliteWarmAttachPayload del =
     print_json (JObj [(''role'', JStr ''user''), (''reference_id'', JStr (wf_ReferenceID del)),
       (''reference_digest'', JStr (hex_text (wf_ReferenceDigest del)))])"

text \<open>The target's connection has never been used and carries exactly the requested credential.\<close>

definition fresh_target :: "WarmAttachTargetActivation \<Rightarrow> AdapterConnection_rec \<Rightarrow> bool" where
  "fresh_target act c \<longleftrightarrow>
     ad_ConnectionEpoch c = 0 \<and> ad_AcceptedFence c = 0 \<and>
     ad_ActiveCredentialGeneration c = ta_Generation act \<and>
     ad_CredentialGenerationHighWatermark c = ta_Generation act \<and>
     ad_ActiveCredentialExpiresAt c = fromMilli (UnixMilli (ta_ExpiresAt act)) \<and>
     ad_PendingCredentialGeneration c = None \<and> ad_PriorRecoveryGeneration c = None \<and>
     ad_RotationID c = None \<and> ad_RevokedAt c = None \<and> ad_TerminalAt c = None"

definition warm_outbox :: "string \<Rightarrow> string \<Rightarrow> int \<Rightarrow> WarmAttachFirstDelivery \<Rightarrow> gotime \<Rightarrow> WarmAttachOutbox" where
  "warm_outbox sid cmd seq del expires =
     \<lparr>wx_TargetSessionID = sid, wx_CommandID = cmd, wx_EventSeq = seq, wx_ReferenceID = wf_ReferenceID del,
      wx_ReferenceDigest = wf_ReferenceDigest del, wx_ExpiresAt = expires\<rparr>"

section \<open>Retries\<close>

definition sqliteWarmAttachDuplicate ::
  "AttachAttempt_rec \<Rightarrow> WarmAttachRequest \<Rightarrow> clock \<Rightarrow> db \<Rightarrow> WarmAttachCommit res" where
  "sqliteWarmAttachDuplicate attempt q clk d =
     (if \<not> sameSQLiteAttachAttempt attempt (wq_Attempt q) then Inl (Fail ''sqlite warm attach is immutable'')
      else
        let t = tc_Identity (wq_Attachment q); del = wq_FirstDelivery q in
        case queryAttachment (attachment_by_id (an_AttachID t) d) (clk 3) of
          Inl e \<Rightarrow> Inl (Fail ''sqlite warm attach attachment is immutable'')
        | Inr attachment \<Rightarrow>
          if tt_Identity attachment \<noteq> t then Inl (Fail ''sqlite warm attach attachment is immutable'')
          else case queryAdapterConnection (an_TargetSessionID t) (clk 4) d of
            Inl e \<Rightarrow> Inl (Fail ''sqlite warm attach target credential is immutable'')
          | Inr connection \<Rightarrow>
            if \<not> fresh_target (wq_TargetActivation q) connection
            then Inl (Fail ''sqlite warm attach target credential is immutable'')
            else case queryPendingCommand (an_TargetSessionID t) (wf_CommandID del) (clk 2) d of
              Inl e \<Rightarrow> Inl (Fail ''sqlite warm attach outbox is immutable'')
            | Inr command \<Rightarrow>
              if cm_Type command \<noteq> ''session.send'' \<or> cm_ExpiresAt command \<noteq> wf_ExpiresAt del
              then Inl (Fail ''sqlite warm attach outbox is immutable'')
              else case event_at d (an_TargetSessionID t) (cm_EventSeq command) of
                None \<Rightarrow> Inl (Fail ''sqlite warm attach reference is immutable'')
              | Some e \<Rightarrow>
                if ev_payload e \<noteq> sqliteWarmAttachPayload del \<or> ev_type e \<noteq> ''session.message''
                then Inl (Fail ''sqlite warm attach reference is immutable'')
                else res_bind (load_summary d (an_TargetSessionID t)) (\<lambda>summary.
                  Inr \<lparr>wk_Attempt = attempt, wk_Attachment = attachment,
                       wk_TargetActivation = wq_TargetActivation q,
                       wk_Outbox = warm_outbox (an_TargetSessionID t) (cm_CommandID command)
                         (cm_EventSeq command) del (cm_ExpiresAt command),
                       wk_Summary = summary, wk_Duplicate = True\<rparr>))"

section \<open>The commit\<close>

definition warm_connection_row :: "WarmAttachTargetActivation \<Rightarrow> int \<Rightarrow> connection_row" where
  "warm_connection_row act now =
     \<lparr>cn_epoch = 0, cn_fence = 0, cn_active_gen = ta_Generation act, cn_high_watermark = ta_Generation act,
      cn_active_expires_ms = UnixMilli (ta_ExpiresAt act), cn_pending_gen = None, cn_pending_expires_ms = None,
      cn_prior_gen = None, cn_rotation_id = None, cn_revoked_ms = None, cn_terminal_ms = None,
      cn_created_ms = now, cn_updated_ms = now\<rparr>"

text \<open>The checks before the first write: admission, no attachment yet, a live target.\<close>

definition warm_attach_guard :: "WarmAttachRequest \<Rightarrow> clock \<Rightarrow> db \<Rightarrow> unit res" where
  "warm_attach_guard q clk d =
     (let target = an_TargetSessionID (tc_Identity (wq_Attachment q)) in
      case ValidateAdapterAdmission (ax_BootstrapSessionID (aq_Identity (wq_Attempt q)))
             (wq_BootstrapAdmission q) (clk 2) d of
        Inl e \<Rightarrow> Inl (Fail ''warm attach bootstrap admission lost'')
      | Inr _ \<Rightarrow>
        (case queryAttachment (attachment_by_target target d) (clk 3) of
           Inr a \<Rightarrow> Inl (Fail ''warm attach target already has an attachment'')
         | Inl (Fail e) \<Rightarrow> Inl (Fail e)
         | Inl NoRows \<Rightarrow>
           (case load_summary d target of
              Inl NoRows \<Rightarrow> Inl (Fail ''warm attach target is missing'')
            | Inl (Fail e) \<Rightarrow> Inl (Fail e)
            | Inr s \<Rightarrow>
                if su_StateOfProjection s \<noteq> ''complete'' \<or> su_TerminalOutcome s \<noteq> None \<or>
                   su_State s = ''ended'' \<or> su_State s = ''error''
                then Inl (Fail ''warm attach target is not attachable'') else Inr ())))"

text \<open>The reference event, its command and the blocker.\<close>

definition warm_attach_delivery ::
  "WarmAttachRequest \<Rightarrow> clock \<Rightarrow> db \<Rightarrow> (db \<times> WarmAttachCommit) res" where
  "warm_attach_delivery q clk d =
     (let t = tc_Identity (wq_Attachment q); target = an_TargetSessionID t; del = wq_FirstDelivery q;
          now = clk 5; seq = latest_seq d target + 1;
          ev = \<lparr>pe_Type = ''session.message'', pe_Time = fromMilli now, pe_Payload = sqliteWarmAttachPayload del\<rparr>
      in
      res_bind (insert_event \<lparr>ev_session = target, ev_seq = seq, ev_type = pe_Type ev,
                  ev_payload = pe_Payload ev, ev_time_ms = now, ev_created_ms = now\<rparr> d) (\<lambda>d.
      case projectSQLiteAttentionEvent target seq ev now d of
        Inl e \<Rightarrow> Inl (Fail ''sqlite warm attach reference event is invalid'')
      | Inr (d, terminal) \<Rightarrow>
        if terminal then Inl (Fail ''sqlite warm attach reference event is invalid'')
        else
          res_bind (insert_pending (target, wf_CommandID del)
                      \<lparr>pc_type = ''session.send'', pc_event_seq = seq, pc_status = ''pending'',
                       pc_expires_ns = wf_ExpiresAt del, pc_created_ms = now, pc_updated_ms = now\<rparr> d) (\<lambda>d.
          res_bind (queryAttachment (attachment_by_id (an_AttachID t) d) (clk 6)) (\<lambda>attachment.
          res_bind (upsertSQLiteAttentionLedger (an_TargetSessionID (tt_Identity attachment))
                      (sqliteAttentionBlockerForAttachment attachment None) (Some now) (clk 7) d) (\<lambda>d.
          res_bind (load_summary d (an_TargetSessionID (tt_Identity attachment))) (\<lambda>summary.
          res_bind (querySQLiteAttachAttempt (ax_JTIHash (aq_Identity (wq_Attempt q))) d) (\<lambda>attempt.
          case tt_ExpiresAt attachment of
            None \<Rightarrow> Inl (Fail ''nil pointer dereference'')
          | Some expires \<Rightarrow>
              Inr (d, \<lparr>wk_Attempt = attempt, wk_Attachment = attachment,
                       wk_TargetActivation = wq_TargetActivation q,
                       wk_Outbox = warm_outbox (an_TargetSessionID (tt_Identity attachment)) (wf_CommandID del)
                         seq del expires,
                       wk_Summary = summary, wk_Duplicate = False\<rparr>))))))))"

definition CommitWarmAttach_tx :: "WarmAttachRequest \<Rightarrow> clock \<Rightarrow> db \<Rightarrow> (db \<times> WarmAttachCommit) res" where
  "CommitWarmAttach_tx q clk d =
     (let t = tc_Identity (wq_Attachment q); target = an_TargetSessionID t;
          jti = ax_JTIHash (aq_Identity (wq_Attempt q))
      in
      if \<not> validSQLiteWarmAttachExpiry q (fromMilli (clk 0))
      then Inl (Fail ''warm attach expiry is outside the Store-clock window'')
      else res_bind (validateSQLiteAttachAttempt (wq_Attempt q) (fromMilli (clk 0))) (\<lambda>_.
        let d = cleanupExpiredSQLiteAttachAttempts (clk 1) d in
        case querySQLiteAttachAttempt jti d of
          Inr existing \<Rightarrow> res_bind (sqliteWarmAttachDuplicate existing q clk d) (\<lambda>c. Inr (d, c))
        | Inl (Fail e) \<Rightarrow> Inl (Fail e)
        | Inl NoRows \<Rightarrow>
          res_bind (warm_attach_guard q clk d) (\<lambda>_.
          let d = insert_or_ignore_connection target (warm_connection_row (wq_TargetActivation q) (clk 0)) d in
          case queryAdapterConnection target (clk 4) d of
            Inl e \<Rightarrow> Inl (Fail ''sqlite warm attach target credential conflicts with existing state'')
          | Inr connection \<Rightarrow>
            if \<not> fresh_target (wq_TargetActivation q) connection
            then Inl (Fail ''sqlite warm attach target credential conflicts with existing state'')
            else if \<not> validSQLiteWarmAttachExpiry q (fromMilli (clk 5)) \<or>
                    validateSQLiteAttachAttempt (wq_Attempt q) (fromMilli (clk 5)) \<noteq> Inr ()
            then Inl (Fail ''warm attach expiry is outside the Store-clock window'')
            else
              res_bind (insert_attempt jti ((attempt_row_of (wq_Attempt q) (clk 5))\<lparr>at_outcome := ''accepted''\<rparr>) d) (\<lambda>d.
              res_bind (insert_attachment (an_AttachID t)
                          (new_attachment_row t (tc_ExpiresAt (wq_Attachment q)) (clk 5)) d) (\<lambda>d.
              warm_attach_delivery q clk d)))))"

definition CommitWarmAttach :: "WarmAttachRequest \<Rightarrow> clock \<Rightarrow> db \<Rightarrow> db \<times> WarmAttachCommit res" where
  "CommitWarmAttach q clk d =
     (case validateSQLiteWarmAttach q of
        Inl e \<Rightarrow> (d, Inl e)
      | Inr _ \<Rightarrow> transaction (CommitWarmAttach_tx q clk) d)"

section \<open>Expiry\<close>

definition expired_row :: "string \<Rightarrow> int \<Rightarrow> attachment_row \<Rightarrow> attachment_row" where
  "expired_row state now r =
     r\<lparr>ac_status := ''reauthorization_required'', ac_delivery_state := state,
       ac_delivery_version := ac_delivery_version r + 1, ac_expires_ns := None, ac_updated_ms := now\<rparr>"

definition expiry_outcome :: "string \<Rightarrow> string \<times> AttentionBlocker" where
  "expiry_outcome state =
     (if state \<noteq> ''pending''
      then (''outcome_unknown'', \<lparr>bl_Kind = ''outcome_unknown'', bl_Reason = None, bl_ExpiresAt = None,
              bl_BlockingSessionID = None, bl_Operation = Some ''credential_handoff''\<rparr>)
      else (''pending'', \<lparr>bl_Kind = ''reauthorization_required'', bl_Reason = None, bl_ExpiresAt = None,
              bl_BlockingSessionID = None, bl_Operation = None\<rparr>))"

definition ExpireWarmAttach_tx :: "string \<Rightarrow> int \<Rightarrow> clock \<Rightarrow> db \<Rightarrow> (db \<times> WarmAttachExpiry) res" where
  "ExpireWarmAttach_tx aid v clk d =
     res_bind (queryAttachment (attachment_by_id aid d) (clk 0)) (\<lambda>current.
     if tt_DeliveryVersion current \<noteq> v \<or> tt_Status current \<noteq> ''join_pending'' \<or>
        (case tt_ExpiresAt current of None \<Rightarrow> True | Some x \<Rightarrow> \<not> x < fromMilli (clk 1))
     then Inl (Fail ''sqlite warm attach is not expirable'')
     else
       let (state, blocker) = expiry_outcome (tt_DeliveryState current) in
       case map_of (session_attachments d) aid of
         None \<Rightarrow> Inl (Fail ''sqlite warm attach expiry conflict'')
       | Some r \<Rightarrow>
           if ac_delivery_version r \<noteq> v then Inl (Fail ''sqlite warm attach expiry conflict'')
           else
             res_bind (put_attachment aid (expired_row state (clk 1) r) d) (\<lambda>d.
             res_bind (queryAttachment (attachment_by_id aid d) (clk 2)) (\<lambda>updated.
             res_bind (upsertSQLiteAttentionLedger (an_TargetSessionID (tt_Identity updated)) (Some blocker)
                         None (clk 3) d) (\<lambda>d.
             res_bind (load_summary d (an_TargetSessionID (tt_Identity updated))) (\<lambda>summary.
             Inr (d, \<lparr>wy_Attachment = updated, wy_Summary = summary\<rparr>))))))"

definition ExpireWarmAttach :: "string \<Rightarrow> int \<Rightarrow> clock \<Rightarrow> db \<Rightarrow> db \<times> WarmAttachExpiry res" where
  "ExpireWarmAttach aid v clk d =
     (if \<not> validConnectionID aid \<or> v < 0 then (d, Inl (Fail ''invalid sqlite warm attach expiry''))
      else transaction (ExpireWarmAttach_tx aid v clk) d)"

section \<open>Every operation is a store step\<close>

lemma warm_delivery_ok:
  assumes "warm_attach_delivery q clk d = Inr (d', c)"
  defines "target \<equiv> an_TargetSessionID (tc_Identity (wq_Attachment q))"
    and "del \<equiv> wq_FirstDelivery q"
  defines "n \<equiv> latest_seq d target + 1"
  defines "e \<equiv> \<lparr>ev_session = target, ev_seq = n, ev_type = ''session.message'',
      ev_payload = sqliteWarmAttachPayload del, ev_time_ms = clk 5, ev_created_ms = clk 5\<rparr>"
    and "pending \<equiv> \<lparr>pc_type = ''session.send'', pc_event_seq = n, pc_status = ''pending'',
      pc_expires_ns = wf_ExpiresAt del, pc_created_ms = clk 5, pc_updated_ms = clk 5\<rparr>"
  obtains d1 d2 d3 where "insert_event e d = Inr d1"
    "projectSQLiteAttentionEvent target n \<lparr>pe_Type = ''session.message'', pe_Time = fromMilli (clk 5),
       pe_Payload = sqliteWarmAttachPayload del\<rparr> (clk 5) d1 = Inr (d2, False)"
    "insert_pending (target, wf_CommandID del) pending d2 = Inr d3"
    "queryAttachment (attachment_by_id (an_AttachID (tc_Identity (wq_Attachment q))) d3) (clk 6) = Inr (wk_Attachment c)"
    "upsertSQLiteAttentionLedger (an_TargetSessionID (tt_Identity (wk_Attachment c)))
       (sqliteAttentionBlockerForAttachment (wk_Attachment c) None) (Some (clk 5)) (clk 7) d3 = Inr d'"
    "load_summary d' (an_TargetSessionID (tt_Identity (wk_Attachment c))) = Inr (wk_Summary c)"
    "querySQLiteAttachAttempt (ax_JTIHash (aq_Identity (wq_Attempt q))) d' = Inr (wk_Attempt c)"
    "wx_EventSeq (wk_Outbox c) = n" "\<not> wk_Duplicate c"
  using assms(1) unfolding warm_attach_delivery_def Let_def target_def [symmetric] del_def [symmetric] n_def [symmetric]
  by (clarsimp simp: warm_outbox_def ok_iffs) (auto intro!: that simp: e_def pending_def)

lemma warm_delivery_step: "warm_attach_delivery q clk d = Inr (d', c) \<Longrightarrow> store_step d d'"
proof (erule warm_delivery_ok)
  fix d1 d2 d3
  let ?target = "an_TargetSessionID (tc_Identity (wq_Attachment q))"
  assume e: "insert_event \<lparr>ev_session = ?target, ev_seq = latest_seq d ?target + 1, ev_type = ''session.message'',
      ev_payload = sqliteWarmAttachPayload (wq_FirstDelivery q), ev_time_ms = clk 5, ev_created_ms = clk 5\<rparr> d = Inr d1"
  assume p: "projectSQLiteAttentionEvent ?target (latest_seq d ?target + 1)
      \<lparr>pe_Type = ''session.message'', pe_Time = fromMilli (clk 5),
       pe_Payload = sqliteWarmAttachPayload (wq_FirstDelivery q)\<rparr> (clk 5) d1 = Inr (d2, False)"
  assume c: "insert_pending (?target, wf_CommandID (wq_FirstDelivery q))
      \<lparr>pc_type = ''session.send'', pc_event_seq = latest_seq d ?target + 1, pc_status = ''pending'',
       pc_expires_ns = wf_ExpiresAt (wq_FirstDelivery q), pc_created_ms = clk 5, pc_updated_ms = clk 5\<rparr> d2 = Inr d3"
  assume l: "upsertSQLiteAttentionLedger (an_TargetSessionID (tt_Identity (wk_Attachment c)))
       (sqliteAttentionBlockerForAttachment (wk_Attachment c) None) (Some (clk 5)) (clk 7) d3 = Inr d'"
  have "store_step d d1" by (rule store_step_event [OF e]) simp
  also have "store_step d1 d2" by (rule store_step_project [OF p])
  also have "store_step d2 d3" by (rule store_step_insert_pending [OF c])
  also have "store_step d3 d'" by (rule store_step_ledger [OF l])
  finally show "store_step d d'" .
qed

lemma warm_commit_cases:
  assumes "CommitWarmAttach_tx q clk d = Inr (d', c)"
  defines "d0 \<equiv> cleanupExpiredSQLiteAttachAttempts (clk 1) d"
    and "t \<equiv> tc_Identity (wq_Attachment q)"
  defines "d1 \<equiv> insert_or_ignore_connection (an_TargetSessionID t) (warm_connection_row (wq_TargetActivation q) (clk 0)) d0"
  obtains (duplicate) attempt where "d' = d0" "sqliteWarmAttachDuplicate attempt q clk d0 = Inr c"
  | (new) connection d2 d3 where
      "querySQLiteAttachAttempt (ax_JTIHash (aq_Identity (wq_Attempt q))) d0 = Inl NoRows"
      "warm_attach_guard q clk d0 = Inr ()"
      "queryAdapterConnection (an_TargetSessionID t) (clk 4) d1 = Inr connection"
      "fresh_target (wq_TargetActivation q) connection"
      "insert_attempt (ax_JTIHash (aq_Identity (wq_Attempt q)))
         ((attempt_row_of (wq_Attempt q) (clk 5))\<lparr>at_outcome := ''accepted''\<rparr>) d1 = Inr d2"
      "insert_attachment (an_AttachID t) (new_attachment_row t (tc_ExpiresAt (wq_Attachment q)) (clk 5)) d2 = Inr d3"
      "warm_attach_delivery q clk d3 = Inr (d', c)"
proof (cases "querySQLiteAttachAttempt (ax_JTIHash (aq_Identity (wq_Attempt q))) d0")
  case (Inr a)
  with assms(1) duplicate show ?thesis
    by (auto simp: CommitWarmAttach_tx_def Let_def d0_def ok_iffs)
next
  case (Inl e)
  show ?thesis
  proof (cases e)
    case NoRows
    then show ?thesis using assms(1) Inl
      by (auto simp: CommitWarmAttach_tx_def Let_def d0_def d1_def t_def ok_iffs intro!: new)
  next
    case (Fail m)
    then show ?thesis using assms(1) Inl
      by (auto simp: CommitWarmAttach_tx_def Let_def d0_def ok_iffs)
  qed
qed

lemma CommitWarmAttach_step: "store_step d (fst (CommitWarmAttach q clk d))"
proof -
  have "store_step d d'" if "CommitWarmAttach_tx q clk d = Inr (d', c)" for d' c
    using that
  proof (cases rule: warm_commit_cases)
    case (new connection d2 d3)
    have "store_step d (cleanupExpiredSQLiteAttachAttempts (clk 1) d)" by (rule cleanup_step)
    also have "store_step (cleanupExpiredSQLiteAttachAttempts (clk 1) d)
        (insert_or_ignore_connection (an_TargetSessionID (tc_Identity (wq_Attachment q)))
          (warm_connection_row (wq_TargetActivation q) (clk 0)) (cleanupExpiredSQLiteAttachAttempts (clk 1) d))"
      by (rule store_step_new_connection) (simp_all add: warm_connection_row_def)
    also have "store_step (insert_or_ignore_connection (an_TargetSessionID (tc_Identity (wq_Attachment q)))
          (warm_connection_row (wq_TargetActivation q) (clk 0)) (cleanupExpiredSQLiteAttachAttempts (clk 1) d)) d2"
      by (rule store_step_attempt [OF new(5)])
    also have "store_step d2 d3" by (rule store_step_insert_attachment [OF new(6)])
    also have "store_step d3 d'" by (rule warm_delivery_step [OF new(7)])
    finally show ?thesis .
  qed (simp add: cleanup_step)
  then show ?thesis by (auto simp: CommitWarmAttach_def split: sum.splits intro: transaction_step)
qed

lemma expire_ok:
  assumes "ExpireWarmAttach_tx aid v clk d = Inr (d', x)"
  obtains r d1 state blocker s where "map_of (session_attachments d) aid = Some r" "ac_delivery_version r = v"
    "queryAttachment (Some (aid, r)) (clk 0) = Inr (row_attachment aid r)" "ac_status r = ''join_pending''"
    "ac_expires_ns r = Some s" "s < fromMilli (clk 1)"
    "expiry_outcome (ac_delivery_state r) = (state, blocker)"
    "put_attachment aid (expired_row state (clk 1) r) d = Inr d1"
    "queryAttachment (attachment_by_id aid d1) (clk 2) = Inr (wy_Attachment x)"
    "upsertSQLiteAttentionLedger (an_TargetSessionID (tt_Identity (wy_Attachment x))) (Some blocker) None (clk 3) d1 = Inr d'"
    "load_summary d' (an_TargetSessionID (tt_Identity (wy_Attachment x))) = Inr (wy_Summary x)"
proof -
  obtain a where a: "queryAttachment (attachment_by_id aid d) (clk 0) = Inr a"
    using assms by (auto simp: ExpireWarmAttach_tx_def)
  then obtain r where r: "map_of (session_attachments d) aid = Some r" "a = row_attachment aid r"
    by (auto simp: attachment_by_id_def elim!: query_attachment_ok)
  obtain state blocker where o: "expiry_outcome (ac_delivery_state r) = (state, blocker)" by force
  show ?thesis
    using assms a r o
    by (auto simp: ExpireWarmAttach_tx_def attachment_by_id_def row_attachment_def split: if_split_asm option.split_asm
        intro!: that [OF r(1)])
qed

lemma ExpireWarmAttach_step: "store_step d (fst (ExpireWarmAttach aid v clk d))"
proof -
  have "store_step d d'" if "ExpireWarmAttach_tx aid v clk d = Inr (d', x)" for d' x
    using that
  proof (cases rule: expire_ok)
    case (1 r d1 state blocker s)
    have "store_step d d1"
      by (rule store_step_attachment [OF 1(8)]) (use 1(1,4) in \<open>auto simp: attach_prog_def expired_row_def\<close>)
    then show ?thesis using store_step_ledger [OF 1(10)] by (rule store_step_trans)
  qed
  then show ?thesis by (auto simp: ExpireWarmAttach_def intro: transaction_step)
qed

lemmas warm_attach_steps = CommitWarmAttach_step ExpireWarmAttach_step

section \<open>Properties\<close>

lemma summary_row_blocker:
  "querySQLiteAttentionSummary sid (summary_to_row s created now) = Inr s' \<Longrightarrow> su_Blocker s' = su_Blocker s"
  by (cases "su_Blocker s") (auto simp: querySQLiteAttentionSummary_def summary_to_row_def split: if_splits)

lemma ledger_blocker:
  assumes "upsertSQLiteAttentionLedger sid b c now d = Inr d'" "load_summary d' sid = Inr s"
  shows "su_Blocker s = b"
proof -
  obtain s0 where "upsertSQLiteAttentionSummary s0 now d = Inr d'" "su_Blocker s0 = b" "su_SessionID s0 = sid"
  proof (cases "load_summary d sid")
    case (Inl e)
    with assms(1) that show ?thesis
      by (cases e; cases c) (auto simp: upsertSQLiteAttentionLedger_def Let_def fresh_summary_def)
  next
    case (Inr x)
    with assms(1) load_summary_id [OF Inr] that show ?thesis
      by (cases c) (auto simp: upsertSQLiteAttentionLedger_def Let_def)
  qed
  then show ?thesis
    using assms(2) by (auto elim!: upsert_frame simp: load_summary_def dest: summary_row_blocker)
qed

lemma warm_guard_ok:
  assumes "warm_attach_guard q clk d = Inr ()"
  shows "\<exists>r. map_of (session_adapter_connections d) (ax_BootstrapSessionID (aq_Identity (wq_Attempt q))) = Some r \<and>
      admitted (wq_BootstrapAdmission q) (clk 2) d r"
    "\<forall>(a, r) \<in> set (session_attachments d). ac_target r \<noteq> an_TargetSessionID (tc_Identity (wq_Attachment q))"
    "\<exists>s. load_summary d (an_TargetSessionID (tc_Identity (wq_Attachment q))) = Inr s \<and>
      su_TerminalOutcome s = None \<and> su_StateOfProjection s = ''complete''"
proof -
  let ?target = "an_TargetSessionID (tc_Identity (wq_Attachment q))"
  obtain x where x: "ValidateAdapterAdmission (ax_BootstrapSessionID (aq_Identity (wq_Attempt q)))
      (wq_BootstrapAdmission q) (clk 2) d = Inr x"
    and none: "queryAttachment (attachment_by_target ?target d) (clk 3) = Inl NoRows"
    and live: "\<exists>s. load_summary d ?target = Inr s \<and> su_TerminalOutcome s = None \<and> su_StateOfProjection s = ''complete''"
    using assms by (auto simp: warm_attach_guard_def Let_def split: sum.splits err.splits if_splits)
  show "\<exists>r. map_of (session_adapter_connections d) (ax_BootstrapSessionID (aq_Identity (wq_Attempt q))) = Some r \<and>
      admitted (wq_BootstrapAdmission q) (clk 2) d r" using x by (auto elim: admission_ok)
  have "attachment_by_target ?target d = None"
    using none by (auto simp: queryAttachment_def Let_def split: option.splits if_splits)
  then show "\<forall>(a, r) \<in> set (session_attachments d). ac_target r \<noteq> ?target"
    by (auto simp: attachment_by_target_def find_None_iff)
qed (use assms in \<open>auto simp: warm_attach_guard_def Let_def split: sum.splits err.splits if_splits\<close>)

lemma warm_duplicate_flag: "sqliteWarmAttachDuplicate attempt q clk d = Inr c \<Longrightarrow> wk_Duplicate c"
  by (auto simp: sqliteWarmAttachDuplicate_def Let_def ok_iffs)

lemma warm_delivery_flag: "warm_attach_delivery q clk d = Inr (d', c) \<Longrightarrow> \<not> wk_Duplicate c"
  by (auto simp: warm_attach_delivery_def Let_def ok_iffs)

lemma warm_delivery_state:
  assumes "warm_attach_delivery q clk d = Inr (d', c)"
  defines "t \<equiv> tc_Identity (wq_Attachment q)" and "del \<equiv> wq_FirstDelivery q" and "n \<equiv> wx_EventSeq (wk_Outbox c)"
  shows "session_events d' = session_events d @ [\<lparr>ev_session = an_TargetSessionID t, ev_seq = n,
      ev_type = ''session.message'', ev_payload = sqliteWarmAttachPayload del, ev_time_ms = clk 5, ev_created_ms = clk 5\<rparr>]"
    "map_of (session_pending_commands d') (an_TargetSessionID t, wf_CommandID del) =
      Some \<lparr>pc_type = ''session.send'', pc_event_seq = n, pc_status = ''pending'',
        pc_expires_ns = wf_ExpiresAt del, pc_created_ms = clk 5, pc_updated_ms = clk 5\<rparr>"
    "session_attachments d' = session_attachments d" "session_adapter_connections d' = session_adapter_connections d"
    "queryAttachment (attachment_by_id (an_AttachID t) d) (clk 6) = Inr (wk_Attachment c)"
    "load_summary d' (an_TargetSessionID (tt_Identity (wk_Attachment c))) = Inr (wk_Summary c)"
    "su_Blocker (wk_Summary c) = sqliteAttentionBlockerForAttachment (wk_Attachment c) None"
    "querySQLiteAttachAttempt (ax_JTIHash (aq_Identity (wq_Attempt q))) d' = Inr (wk_Attempt c)"
proof -
  obtain d1 d2 d3 where step: "insert_event \<lparr>ev_session = an_TargetSessionID t, ev_seq = n,
      ev_type = ''session.message'', ev_payload = sqliteWarmAttachPayload del, ev_time_ms = clk 5, ev_created_ms = clk 5\<rparr> d = Inr d1"
    "projectSQLiteAttentionEvent (an_TargetSessionID t) n \<lparr>pe_Type = ''session.message'', pe_Time = fromMilli (clk 5),
       pe_Payload = sqliteWarmAttachPayload del\<rparr> (clk 5) d1 = Inr (d2, False)"
    "insert_pending (an_TargetSessionID t, wf_CommandID del) \<lparr>pc_type = ''session.send'', pc_event_seq = n, pc_status = ''pending'',
        pc_expires_ns = wf_ExpiresAt del, pc_created_ms = clk 5, pc_updated_ms = clk 5\<rparr> d2 = Inr d3"
    "queryAttachment (attachment_by_id (an_AttachID t) d3) (clk 6) = Inr (wk_Attachment c)"
    "upsertSQLiteAttentionLedger (an_TargetSessionID (tt_Identity (wk_Attachment c)))
       (sqliteAttentionBlockerForAttachment (wk_Attachment c) None) (Some (clk 5)) (clk 7) d3 = Inr d'"
    "load_summary d' (an_TargetSessionID (tt_Identity (wk_Attachment c))) = Inr (wk_Summary c)"
    "querySQLiteAttachAttempt (ax_JTIHash (aq_Identity (wq_Attempt q))) d' = Inr (wk_Attempt c)"
    using assms(1) by (rule warm_delivery_ok) (simp add: t_def del_def n_def)
  obtain r where d': "d' = d3\<lparr>session_attention_summaries := r\<rparr>" by (rule ledger_frame [OF step(5)]) blast
  obtain r' where d2: "d2 = d1\<lparr>session_attention_summaries := r'\<rparr>" by (rule project_frame [OF step(2)]) blast
  have d3: "d3 = d2\<lparr>session_pending_commands := session_pending_commands d3\<rparr>"
    "map_of (session_pending_commands d3) (an_TargetSessionID t, wf_CommandID del) =
      Some \<lparr>pc_type = ''session.send'', pc_event_seq = n, pc_status = ''pending'',
        pc_expires_ns = wf_ExpiresAt del, pc_created_ms = clk 5, pc_updated_ms = clk 5\<rparr>"
    using step(3) by (auto simp: insert_pending_def put_pending_def split: if_splits)
  note d1 = insert_event_frame [OF step(1)]
  show "session_events d' = session_events d @ [\<lparr>ev_session = an_TargetSessionID t, ev_seq = n,
      ev_type = ''session.message'', ev_payload = sqliteWarmAttachPayload del, ev_time_ms = clk 5, ev_created_ms = clk 5\<rparr>]"
    "session_attachments d' = session_attachments d" "session_adapter_connections d' = session_adapter_connections d"
    using d1 by (simp_all add: d' d2, (subst d3(1), simp add: d2)+)
  show "map_of (session_pending_commands d') (an_TargetSessionID t, wf_CommandID del) =
      Some \<lparr>pc_type = ''session.send'', pc_event_seq = n, pc_status = ''pending'',
        pc_expires_ns = wf_ExpiresAt del, pc_created_ms = clk 5, pc_updated_ms = clk 5\<rparr>"
    using d3(2) by (simp add: d')
  have "attachment_by_id (an_AttachID t) d3 = attachment_by_id (an_AttachID t) d"
    using d1 unfolding attachment_by_id_def by (subst d3(1)) (simp add: d2)
  then show "queryAttachment (attachment_by_id (an_AttachID t) d) (clk 6) = Inr (wk_Attachment c)" using step(4) by simp
  show "load_summary d' (an_TargetSessionID (tt_Identity (wk_Attachment c))) = Inr (wk_Summary c)"
    "querySQLiteAttachAttempt (ax_JTIHash (aq_Identity (wq_Attempt q))) d' = Inr (wk_Attempt c)" by fact+
  show "su_Blocker (wk_Summary c) = sqliteAttentionBlockerForAttachment (wk_Attachment c) None"
    by (rule ledger_blocker [OF step(5,6)])
qed

text \<open>
  C6: a warm attach commits as a whole. A refused one leaves the store as it was. One answered as a
  duplicate only removes expired attempts, as every warm attach does first. A new one
  succeeds only under the bootstrap's current admission, for a live target without an attachment,
  and then its attempt, its attachment, the reference event, the pending command that refers to it,
  the target's credential and the target's blocker are all there.
\<close>

theorem warm_attach_atomic:
  fixes q clk d
  defines "t \<equiv> tc_Identity (wq_Attachment q)" and "del \<equiv> wq_FirstDelivery q"
  shows "case CommitWarmAttach q clk d of
      (d', Inl e) \<Rightarrow> d' = d
    | (d', Inr c) \<Rightarrow> if wk_Duplicate c then d' = cleanupExpiredSQLiteAttachAttempts (clk 1) d else
        (\<exists>r. map_of (session_adapter_connections d) (an_BootstrapSessionID t) = Some r \<and>
           admitted (wq_BootstrapAdmission q) (clk 2) d r) \<and>
        (\<forall>(a, r) \<in> set (session_attachments d). ac_target r \<noteq> an_TargetSessionID t) \<and>
        querySQLiteAttachAttempt (ax_JTIHash (aq_Identity (wq_Attempt q))) d' = Inr (wk_Attempt c) \<and>
        map_of (session_attachments d') (an_AttachID t) =
          Some (new_attachment_row t (tc_ExpiresAt (wq_Attachment q)) (clk 5)) \<and>
        session_events d' = session_events d @ [\<lparr>ev_session = an_TargetSessionID t, ev_seq = wx_EventSeq (wk_Outbox c),
          ev_type = ''session.message'', ev_payload = sqliteWarmAttachPayload del, ev_time_ms = clk 5, ev_created_ms = clk 5\<rparr>] \<and>
        map_of (session_pending_commands d') (an_TargetSessionID t, wf_CommandID del) =
          Some \<lparr>pc_type = ''session.send'', pc_event_seq = wx_EventSeq (wk_Outbox c), pc_status = ''pending'',
            pc_expires_ns = wf_ExpiresAt del, pc_created_ms = clk 5, pc_updated_ms = clk 5\<rparr> \<and>
        (\<exists>r. map_of (session_adapter_connections d') (an_TargetSessionID t) = Some r \<and> cn_epoch r = 0 \<and>
           cn_active_gen r = ta_Generation (wq_TargetActivation q) \<and> cn_terminal_ms r = None) \<and>
        load_summary d' (an_TargetSessionID t) = Inr (wk_Summary c) \<and>
        su_Blocker (wk_Summary c) = Some \<lparr>bl_Kind = ''queued'', bl_Reason = Some ''join_pending'',
          bl_ExpiresAt = Some (tc_ExpiresAt (wq_Attachment q)), bl_BlockingSessionID = None, bl_Operation = None\<rparr>"
proof (cases "validateSQLiteWarmAttach q")
  case (Inl e)
  then show ?thesis by (simp add: CommitWarmAttach_def)
next
  case (Inr u)
  then have boot: "ax_BootstrapSessionID (aq_Identity (wq_Attempt q)) = an_BootstrapSessionID t"
    by (simp add: validateSQLiteWarmAttach_def Let_def ok_iffs t_def)
  show ?thesis
  proof (cases "CommitWarmAttach_tx q clk d")
    case (Inl e)
    with Inr show ?thesis by (simp add: CommitWarmAttach_def)
  next
    case fine: (Inr y)
    obtain d' c where y: "y = (d', c)" by force
    have run: "CommitWarmAttach q clk d = (d', Inr c)" using Inr fine y by (simp add: CommitWarmAttach_def)
    have tx: "CommitWarmAttach_tx q clk d = Inr (d', c)" using fine y by simp
    show ?thesis
      using tx
    proof (cases rule: warm_commit_cases)
      case (duplicate attempt)
      then show ?thesis by (auto simp: run dest: warm_duplicate_flag)
    next
      case (new connection d2 d3)
      let ?d0 = "cleanupExpiredSQLiteAttachAttempts (clk 1) d"
      let ?row = "new_attachment_row t (tc_ExpiresAt (wq_Attachment q)) (clk 5)"
      have d0: "session_events ?d0 = session_events d" "session_attachments ?d0 = session_attachments d"
        "session_adapter_connections ?d0 = session_adapter_connections d" "main_next_fence ?d0 = main_next_fence d"
        "side_next_fence ?d0 = side_next_fence d"
        by (simp_all add: cleanupExpiredSQLiteAttachAttempts_def)
      have d3: "session_events d3 = session_events d" "map_of (session_attachments d3) (an_AttachID t) = Some ?row"
        using new(5,6) d0
        by (auto simp: insert_attempt_def insert_attachment_def put_attachment_def insert_or_ignore_connection_def t_def
            split: if_splits)
      have conn: "\<exists>r. map_of (session_adapter_connections d3) (an_TargetSessionID t) = Some r \<and> cn_epoch r = 0 \<and>
           cn_active_gen r = ta_Generation (wq_TargetActivation q) \<and> cn_terminal_ms r = None"
        using new(3,4,5,6)
        by (auto simp: insert_attempt_def insert_attachment_def put_attachment_def queryAdapterConnection_def
            queryAdapterConnectionWhere_def fresh_target_def row_connection_def t_def split: if_splits option.splits)
      note guard = warm_guard_ok [OF new(2)] and del = warm_delivery_state [OF new(7)]
      have att: "wk_Attachment c = row_attachment (an_AttachID t) ?row"
        using del(5) d3(2) by (auto simp: attachment_by_id_def t_def elim!: query_attachment_ok)
      have "\<exists>r. map_of (session_adapter_connections d) (an_BootstrapSessionID t) = Some r \<and>
           admitted (wq_BootstrapAdmission q) (clk 2) d r"
        using guard(1) boot d0 by (simp add: admitted_def)
      moreover have "\<forall>(a, r) \<in> set (session_attachments d). ac_target r \<noteq> an_TargetSessionID t"
        using guard(2) d0 by (simp add: t_def)
      moreover have "an_TargetSessionID (tt_Identity (wk_Attachment c)) = an_TargetSessionID t"
        "sqliteAttentionBlockerForAttachment (wk_Attachment c) None =
          Some \<lparr>bl_Kind = ''queued'', bl_Reason = Some ''join_pending'',
          bl_ExpiresAt = Some (tc_ExpiresAt (wq_Attachment q)), bl_BlockingSessionID = None, bl_Operation = None\<rparr>"
        by (simp_all add: att row_attachment_def new_attachment_row_def sqliteAttentionBlockerForAttachment_def)
      ultimately show ?thesis
        using del d3 conn warm_delivery_flag [OF new(7)] by (simp add: run t_def del_def)
    qed
  qed
qed

definition demo_target :: db where
  "demo_target = fst (Append ''t'' [\<lparr>pe_Type = ''session.state'', pe_Time = 0, pe_Payload = ''{\"state\":\"ready\"}''\<rparr>]
     (\<lambda>_. 7) demo_granted)"

definition demo_warm :: WarmAttachRequest where
  "demo_warm =
     \<lparr>wq_Attempt = demo_attempt\<lparr>aq_Identity := \<lparr>ax_JTIHash = replicate 32 (CHR ''j''), ax_AttachID = ''a'',
        ax_BootstrapSessionID = ''s'', ax_TargetSessionID = ''t'', ax_Provider = ''p''\<rparr>,
        aq_Outcome := ''accepted'', aq_IssuedCredentialGeneration := Some 4\<rparr>,
      wq_Attachment = \<lparr>tc_Identity = \<lparr>an_AttachID = ''a'', an_BootstrapSessionID = ''s'', an_TargetSessionID = ''t'',
        an_TargetCredentialLineageRef = ''ref''\<rparr>, tc_ExpiresAt = fromMilli 900\<rparr>,
      wq_TargetActivation = \<lparr>ta_Generation = 4, ta_ExpiresAt = fromMilli 900\<rparr>,
      wq_BootstrapAdmission = demo_admission,
      wq_FirstDelivery = \<lparr>wf_CommandID = ''c'', wf_ReferenceID = ''r'', wf_ReferenceDigest = replicate 32 (CHR ''x''),
        wf_ExpiresAt = fromMilli 900\<rparr>\<rparr>"

theorem warm_attach_atomic_witness:
  "\<exists>d' c. CommitWarmAttach demo_warm (\<lambda>_. 8) demo_target = (d', Inr c) \<and> \<not> wk_Duplicate c \<and>
     session_attachments demo_target = [] \<and> map_of (session_attachments d') ''a'' \<noteq> None"
proof -
  have "case snd (CommitWarmAttach demo_warm (\<lambda>_. 8) demo_target) of Inl e \<Rightarrow> False | Inr c \<Rightarrow> \<not> wk_Duplicate c"
    "session_attachments demo_target = []" by code_simp+
  then obtain d' c where ok: "CommitWarmAttach demo_warm (\<lambda>_. 8) demo_target = (d', Inr c)" "\<not> wk_Duplicate c"
    "session_attachments demo_target = []"
    by (cases "CommitWarmAttach demo_warm (\<lambda>_. 8) demo_target") (auto split: sum.splits)
  have "an_AttachID (tc_Identity (wq_Attachment demo_warm)) = ''a''" by (simp add: demo_warm_def)
  then show ?thesis using warm_attach_atomic [where q = demo_warm and clk = "\<lambda>_. 8" and d = demo_target] ok by simp
qed

end
