(* ===== verification/Provider_Start.thy ===== *)
theory Provider_Start
  imports Workspace_Leases Dispatch
begin

text \<open>
  The admission of a provider start (\<^verbatim>\<open>RecordProviderStartAdmission\<close> and
  \<^verbatim>\<open>WithProviderStartAdmission\<close> of \<^verbatim>\<open>store/sqlite/store.go\<close>). The callback that
  starts the provider is a parameter: a function on a state of its own that may fail, or none. It is
  not given the transaction, so the operation reads the same rows before and after it.
\<close>

record ProviderStartAdmission =
  ps_SessionID :: string
  ps_Admission :: AdapterConnectionAdmission
  ps_Writer :: SettingsWriter
  ps_Kind :: string
  ps_ReAdmission :: bool

definition empty_lease :: WorkspaceLease_rec where
  "empty_lease = \<lparr>we_Key = zero32, we_ChildScope = None, we_Owner = no_owner, we_Status = [], we_Version = 0,
     we_ExpiresAt = zeroTime\<rparr>"

definition validProviderStart :: "ProviderStartAdmission \<Rightarrow> bool" where
  "validProviderStart q \<longleftrightarrow>
     validConnectionID (ps_SessionID q) \<and> w_LeaseID (ps_Writer q) \<noteq> [] \<and>
     (ps_Kind q = ''standalone'' \<or> ps_Kind q = ''attached'') \<and>
     w_ConnectionEpoch (ps_Writer q) = am_ConnectionEpoch (ps_Admission q) \<and>
     w_CredentialGeneration (ps_Writer q) = am_CredentialGeneration (ps_Admission q)"

text \<open>The two checks of the connection and its writer, at readings \<open>i\<close> and \<open>i + 1\<close>.\<close>

definition provider_authority :: "ProviderStartAdmission \<Rightarrow> nat \<Rightarrow> clock \<Rightarrow> db \<Rightarrow> unit res" where
  "provider_authority q i clk d =
     (case ValidateAdapterAdmission (ps_SessionID q) (ps_Admission q) (clk i) d of
        Inl e \<Rightarrow> Inl (Fail ''provider start authority lost'')
      | Inr _ \<Rightarrow>
        (case validateLiveSettingsWriter (ps_SessionID q) (ps_Writer q) (clk (Suc i)) d of
           Inl e \<Rightarrow> Inl (Fail ''provider start authority lost'')
         | Inr _ \<Rightarrow> Inr ()))"

definition writer_lease :: "ProviderStartAdmission \<Rightarrow> int \<Rightarrow> lease_row \<Rightarrow> bool" where
  "writer_lease q now r \<longleftrightarrow>
     wl_session r = ps_SessionID q \<and> wl_epoch r = w_ConnectionEpoch (ps_Writer q) \<and>
     wl_gen r = w_CredentialGeneration (ps_Writer q) \<and> wl_lease_id r = w_LeaseID (ps_Writer q) \<and>
     wl_expires_ns r > now * ms_ns \<and>
     (case wl_child_expires_ns r of None \<Rightarrow> True | Some x \<Rightarrow> x > now * ms_ns)"

definition start_candidates :: "ProviderStartAdmission \<Rightarrow> int \<Rightarrow> db \<Rightarrow> (bytes \<times> lease_row) list" where
  "start_candidates q now d =
     filter (\<lambda>(k, r). writer_lease q now r \<and> wl_status r \<in> {''reserved'', ''start_received''})
       (session_workspace_leases d)"

definition find_start_lease :: "ProviderStartAdmission \<Rightarrow> int \<Rightarrow> db \<Rightarrow> (bytes \<times> string) res" where
  "find_start_lease q now d =
     (case start_candidates q now d of
        [(key, r)] \<Rightarrow>
          if length key \<noteq> 32 \<or> (wl_status r = ''start_received'' \<and> \<not> ps_ReAdmission q)
          then Inl (Fail ''provider start admission is unavailable'') else Inr (key, wl_status r)
      | _ \<Rightarrow> Inl (Fail ''provider start admission is unavailable''))"

definition record_start :: "ProviderStartAdmission \<Rightarrow> bytes \<Rightarrow> string \<Rightarrow> int \<Rightarrow> db \<Rightarrow> db res" where
  "record_start q key status now d =
     (case map_of (session_workspace_leases d) key of
        None \<Rightarrow> Inl (Fail ''provider start admission is unavailable'')
      | Some r \<Rightarrow>
          if \<not> writer_lease q now r then Inl (Fail ''provider start admission is unavailable'')
          else if status = ''reserved''
          then
            if wl_status r \<noteq> ''reserved'' then Inl (Fail ''provider start admission is unavailable'')
            else put_lease key (r\<lparr>wl_status := ''start_received'', wl_version := wl_version r + 1,
                   wl_updated_ms := now\<rparr>) d
          else if wl_status r \<noteq> ''start_received'' then Inl (Fail ''provider start admission is unavailable'')
          else Inr d)"

type_synonym 's callback = "('s \<Rightarrow> 's \<times> string option) option"

definition run_callback :: "'s callback \<Rightarrow> 's \<Rightarrow> 's \<times> unit res" where
  "run_callback callback s =
     (case callback of
        None \<Rightarrow> (s, Inr ())
      | Some f \<Rightarrow> (case f s of (s', None) \<Rightarrow> (s', Inr ()) | (s', Some e) \<Rightarrow> (s', Inl (Fail (''provider start callback: '' @ e)))))"

definition WithProviderStartAdmission ::
  "ProviderStartAdmission \<Rightarrow> 's callback \<Rightarrow> clock \<Rightarrow> db \<Rightarrow> 's \<Rightarrow> 's \<times> db \<times> WorkspaceLease_rec res" where
  "WithProviderStartAdmission q callback clk d s =
     (if \<not> validProviderStart q then (s, d, Inl (Fail ''invalid provider start admission''))
      else case provider_authority q 0 clk d of
        Inl e \<Rightarrow> (s, d, Inl e)
      | Inr _ \<Rightarrow>
        if ps_Kind q = ''standalone'' then
          (case run_callback callback s of (s, started) \<Rightarrow>
             (s, d, res_bind started (\<lambda>_. res_bind (provider_authority q 2 clk d) (\<lambda>_. Inr empty_lease))))
        else
          case find_start_lease q (clk 2) d of
            Inl e \<Rightarrow> (s, d, Inl e)
          | Inr (key, status) \<Rightarrow>
            (case run_callback callback s of (s, started) \<Rightarrow>
               (s, transaction (\<lambda>d.
                  res_bind started (\<lambda>_.
                  res_bind (record_start q key status (clk 3) d) (\<lambda>d.
                  res_bind (provider_authority q 4 clk d) (\<lambda>_.
                  res_bind (querySQLiteWorkspaceLease key d) (\<lambda>lease. Inr (d, lease)))))) d)))"

definition RecordProviderStartAdmission ::
  "ProviderStartAdmission \<Rightarrow> clock \<Rightarrow> db \<Rightarrow> db \<times> WorkspaceLease_rec res" where
  "RecordProviderStartAdmission q clk d = snd (WithProviderStartAdmission q None clk d ())"

section \<open>Every admission is a store step\<close>

lemma record_start_ok:
  assumes "record_start q key status now d = Inr d'"
  obtains r where "map_of (session_workspace_leases d) key = Some r" "writer_lease q now r"
    "if status = ''reserved'' then wl_status r = ''reserved'' \<and>
       put_lease key (r\<lparr>wl_status := ''start_received'', wl_version := wl_version r + 1, wl_updated_ms := now\<rparr>) d = Inr d'
     else wl_status r = ''start_received'' \<and> d' = d"
  using assms by (cases "status = ''reserved''") (auto simp: record_start_def ok_iffs)

lemma record_start_step: "record_start q key status now d = Inr d' \<Longrightarrow> store_step d d'"
  by (erule record_start_ok) (auto split: if_splits elim!: store_step_lease simp: lease_prog_def)

lemma WithProviderStartAdmission_step:
  "store_step d (fst (snd (WithProviderStartAdmission q callback clk d s)))"
proof -
  have "store_step d (fst (transaction (\<lambda>d. res_bind r (\<lambda>_. res_bind (record_start q key status now d) (\<lambda>d.
      res_bind (provider_authority q 4 clk d) (\<lambda>_. res_bind (querySQLiteWorkspaceLease key d) (\<lambda>l. Inr (d, l)))))) d))"
    for r :: "unit res" and key status now
    by (rule transaction_step) (auto dest: record_start_step)
  then show ?thesis
    by (auto simp: WithProviderStartAdmission_def split: sum.splits prod.splits)
qed

section \<open>Properties\<close>

definition start_authority :: "ProviderStartAdmission \<Rightarrow> int \<Rightarrow> int \<Rightarrow> db \<Rightarrow> bool" where
  "start_authority q t t' d \<longleftrightarrow>
     (\<exists>c. map_of (session_adapter_connections d) (ps_SessionID q) = Some c \<and>
        admitted (ps_Admission q) t d c \<and> cn_active_expires_ms c > t') \<and>
     map_of (session_settings_live_writers d) (ps_SessionID q) = Some (ps_Writer q)"

lemma provider_authority_ok:
  assumes "provider_authority q i clk d = Inr ()"
  shows "start_authority q (clk i) (clk (Suc i)) d"
proof -
  obtain x where "ValidateAdapterAdmission (ps_SessionID q) (ps_Admission q) (clk i) d = Inr x"
    and "validateLiveSettingsWriter (ps_SessionID q) (ps_Writer q) (clk (Suc i)) d = Inr ()"
    using assms by (auto simp: provider_authority_def ok_iffs)
  then show ?thesis
    by (auto elim: admission_ok simp: start_authority_def validateLiveSettingsWriter_def split: if_splits option.splits)
qed

definition start_allowed :: "ProviderStartAdmission \<Rightarrow> clock \<Rightarrow> db \<Rightarrow> bool" where
  "start_allowed q clk d \<longleftrightarrow>
     start_authority q (clk 0) (clk 1) d \<and>
     (ps_Kind q = ''attached'' \<longrightarrow>
        (\<exists>key r. start_candidates q (clk 2) d = [(key, r)] \<and> (wl_status r = ''reserved'' \<or> ps_ReAdmission q)))"

lemma find_start_ok:
  assumes "find_start_lease q now d = Inr (key, status)"
  obtains old where "start_candidates q now d = [(key, old)]" "status = wl_status old"
    "status = ''reserved'' \<or> status = ''start_received'' \<and> ps_ReAdmission q"
proof -
  obtain old where old: "start_candidates q now d = [(key, old)]" "status = wl_status old"
    "status = ''start_received'' \<longrightarrow> ps_ReAdmission q"
    using assms by (auto simp: find_start_lease_def split: list.splits prod.splits if_splits)
  then have "(key, old) \<in> set (start_candidates q now d)" by simp
  then have "status = ''reserved'' \<or> status = ''start_received''"
    by (simp add: start_candidates_def old(2))
  with old show thesis by (intro that) auto
qed

lemma candidate_row:
  assumes "wf d" "start_candidates q now d = [(key, old)]"
  shows "map_of (session_workspace_leases d) key = Some old"
proof -
  have "unique_keys (session_workspace_leases d)" using assms(1) by (auto simp: wf_def plain_ok_def tbl_ok_def)
  moreover have "(key, old) \<in> set (start_candidates q now d)" using assms(2) by simp
  ultimately show ?thesis by (simp add: start_candidates_def unique_keys_set_iff)
qed

lemma record_start_result:
  assumes "wf d" and old: "start_candidates q now d = [(key, old)]"
    and ok: "record_start q key (wl_status old) later d = Inr d'" and l: "querySQLiteWorkspaceLease key d' = Inr l"
  shows "we_Status l = ''start_received''"
    "we_Version l = wl_version old + (if wl_status old = ''reserved'' then 1 else 0)"
proof -
  obtain r where r: "map_of (session_workspace_leases d) key = Some r"
    "if wl_status old = ''reserved'' then wl_status r = ''reserved'' \<and>
       put_lease key (r\<lparr>wl_status := ''start_received'', wl_version := wl_version r + 1, wl_updated_ms := later\<rparr>) d = Inr d'
     else wl_status r = ''start_received'' \<and> d' = d"
    using ok by (rule record_start_ok)
  have "r = old" using r(1) candidate_row [OF assms(1) old] by simp
  obtain r' where r': "map_of (session_workspace_leases d') key = Some r'" "we_Status l = wl_status r'" "we_Version l = wl_version r'"
    using l by (auto simp: querySQLiteWorkspaceLease_def ok_iffs)
  show "we_Status l = ''start_received''"
    "we_Version l = wl_version old + (if wl_status old = ''reserved'' then 1 else 0)"
    using r r' \<open>r = old\<close> by (auto simp: put_lease_def if_Inr_iff split: if_splits)
qed

lemma attached_start:
  assumes "validProviderStart q" "provider_authority q 0 clk d = Inr ()" "ps_Kind q \<noteq> ''standalone''"
    and find: "find_start_lease q (clk 2) d = Inr (key, status)"
    and cb: "run_callback callback s = (s1, started)"
  shows "WithProviderStartAdmission q callback clk d s = (s1, transaction (\<lambda>d. res_bind started (\<lambda>_.
      res_bind (record_start q key status (clk 3) d) (\<lambda>d. res_bind (provider_authority q 4 clk d) (\<lambda>_.
      res_bind (querySQLiteWorkspaceLease key d) (\<lambda>lease. Inr (d, lease)))))) d)"
  using assms by (simp add: WithProviderStartAdmission_def)

lemma find_start_allowed:
  assumes "provider_authority q 0 clk d = Inr ()" "find_start_lease q (clk 2) d = Inr (key, status)"
  shows "start_allowed q clk d"
  using provider_authority_ok [OF assms(1)] find_start_ok [OF assms(2)] unfolding start_allowed_def
  by (metis One_nat_def)

lemma standalone_start:
  assumes "validProviderStart q" "provider_authority q 0 clk d = Inr ()" "ps_Kind q = ''standalone''"
    and cb: "run_callback callback s = (s1, started)"
  shows "WithProviderStartAdmission q callback clk d s = (s1, d, res_bind started (\<lambda>_.
      res_bind (provider_authority q 2 clk d) (\<lambda>_. Inr empty_lease)))"
  using assms by (simp add: WithProviderStartAdmission_def)

lemma standalone_result:
  assumes "WithProviderStartAdmission q callback clk d s = (s', d', r)"
    and ready: "validProviderStart q" "provider_authority q 0 clk d = Inr ()" "ps_Kind q = ''standalone''"
  shows "start_allowed q clk d" "s' = fst (run_callback callback s)" "d' = d"
    "r = Inr l \<Longrightarrow> snd (run_callback callback s) = Inr () \<and> start_authority q (clk 2) (clk 3) d \<and> l = empty_lease"
proof -
  obtain s1 started where cb: "run_callback callback s = (s1, started)" by force
  note run = assms(1) [unfolded standalone_start [OF ready cb]]
  show "start_allowed q clk d"
    using provider_authority_ok [OF ready(2)] ready(3) by (simp add: start_allowed_def)
  show "s' = fst (run_callback callback s)" "d' = d" using run cb by auto
  show "snd (run_callback callback s) = Inr () \<and> start_authority q (clk 2) (clk 3) d \<and> l = empty_lease"
    if "r = Inr l"
    using run cb that provider_authority_ok [of q 2 clk d] by (auto simp: res_bind_Inr_iff eval_nat_numeral)
qed

lemma attached_result:
  assumes wf: "wf d" and run: "WithProviderStartAdmission q callback clk d s = (s', d', r)"
    and ready: "validProviderStart q" "provider_authority q 0 clk d = Inr ()" "ps_Kind q \<noteq> ''standalone''"
    and find: "find_start_lease q (clk 2) d = Inr (key, status)"
  shows "s' = fst (run_callback callback s)" "r = Inl e \<Longrightarrow> d' = d"
    "r = Inr l \<Longrightarrow> snd (run_callback callback s) = Inr () \<and> start_authority q (clk 4) (clk 5) d' \<and>
       (\<exists>old. start_candidates q (clk 2) d = [(key, old)] \<and> writer_lease q (clk 3) old \<and>
          querySQLiteWorkspaceLease key d' = Inr l \<and> we_Status l = ''start_received'' \<and>
          we_Version l = wl_version old + (if wl_status old = ''reserved'' then 1 else 0))"
proof -
  obtain s1 started where cb: "run_callback callback s = (s1, started)" by force
  obtain old where old: "start_candidates q (clk 2) d = [(key, old)]" "status = wl_status old"
    using find by (rule find_start_ok)
  note run' = run [unfolded attached_start [OF ready find cb]]
  show "s' = fst (run_callback callback s)" using run' cb by simp
  show "d' = d" if "r = Inl e" using run' that by (auto simp: transaction_def split: sum.splits)
  show "snd (run_callback callback s) = Inr () \<and> start_authority q (clk 4) (clk 5) d' \<and>
       (\<exists>old. start_candidates q (clk 2) d = [(key, old)] \<and> writer_lease q (clk 3) old \<and>
          querySQLiteWorkspaceLease key d' = Inr l \<and> we_Status l = ''start_received'' \<and>
          we_Version l = wl_version old + (if wl_status old = ''reserved'' then 1 else 0))" if "r = Inr l"
  proof -
    have ok: "started = Inr ()" "record_start q key (wl_status old) (clk 3) d = Inr d'"
      "provider_authority q 4 clk d' = Inr ()" "querySQLiteWorkspaceLease key d' = Inr l"
      using run' that old(2) by (auto simp: transaction_ok_iff)
    have auth: "start_authority q (clk 4) (clk 5) d'"
      using provider_authority_ok [OF ok(3)] by (simp add: eval_nat_numeral)
    obtain r' where "map_of (session_workspace_leases d) key = Some r'" "writer_lease q (clk 3) r'"
      using ok(2) by (rule record_start_ok)
    moreover have "map_of (session_workspace_leases d) key = Some old" by (rule candidate_row [OF wf old(1)])
    ultimately have "writer_lease q (clk 3) old" by simp
    then show ?thesis using record_start_result [OF wf old(1) ok(2,4)] old(1) ok(1,4) auth cb by auto
  qed
qed

text \<open>
  C7: a provider is started only with authority. The callback runs only when the exact admission and
  writer are current and, for an attached session, exactly one live lease of the writer exists that
  has not been started (or a re-admission was asked for); a standalone session needs no lease. When a
  start succeeds, the callback has succeeded and the admission and the writer were found current again
  after it, at a later reading of the clock. A successful attached start found its lease still live
  after the callback and leaves it recorded as started, one version on when it was a first start; a
  successful standalone start leaves the store as it was and returns the empty lease. A start that
  fails leaves the store as it was.
\<close>

theorem provider_start_guarded:
  assumes wf: "wf d" and run: "WithProviderStartAdmission q callback clk d s = (s', d', r)"
  shows "(s' \<noteq> s \<longrightarrow> start_allowed q clk d \<and> s' = fst (run_callback callback s)) \<and>
    (case r of
       Inl e \<Rightarrow> d' = d
     | Inr l \<Rightarrow> start_allowed q clk d \<and> snd (run_callback callback s) = Inr () \<and>
         (if ps_Kind q = ''standalone'' then start_authority q (clk 2) (clk 3) d \<and> d' = d \<and> l = empty_lease
          else start_authority q (clk 4) (clk 5) d' \<and>
            (\<exists>key old. start_candidates q (clk 2) d = [(key, old)] \<and> writer_lease q (clk 3) old \<and>
               querySQLiteWorkspaceLease key d' = Inr l \<and> we_Status l = ''start_received'' \<and>
               we_Version l = wl_version old + (if wl_status old = ''reserved'' then 1 else 0))))"
proof (cases "validProviderStart q \<and> provider_authority q 0 clk d = Inr ()")
  case False
  then have "\<not> validProviderStart q \<or> (\<exists>e. provider_authority q 0 clk d = Inl e)"
    by (cases "provider_authority q 0 clk d") auto
  with run show ?thesis by (auto simp: WithProviderStartAdmission_def split: if_splits)
next
  case True
  then have ready: "validProviderStart q" "provider_authority q 0 clk d = Inr ()" by simp_all
  show ?thesis
  proof (cases "ps_Kind q = ''standalone''")
    case True
    with standalone_result [OF run ready True] show ?thesis by (cases r) simp_all
  next
    case attached: False
    show ?thesis
    proof (cases "find_start_lease q (clk 2) d")
      case (Inl e)
      with run ready attached show ?thesis by (auto simp: WithProviderStartAdmission_def)
    next
      case (Inr x)
      then obtain key status where find: "find_start_lease q (clk 2) d = Inr (key, status)" by (cases x) auto
      with attached attached_result [OF wf run ready attached find] find_start_allowed [OF ready(2) find]
      show ?thesis by (cases r) (simp, simp only: sum.case if_False, blast)
    qed
  qed
qed

definition demo_startable :: db where
  "demo_startable = fst (AllocateAdapterGrantFence demo_leased)"

definition demo_start :: ProviderStartAdmission where
  "demo_start = \<lparr>ps_SessionID = ''s'', ps_Admission = demo_admission,
     ps_Writer = \<lparr>w_ConnectionEpoch = 1, w_CredentialGeneration = 1, w_LeaseID = ''lease''\<rparr>,
     ps_Kind = ''attached'', ps_ReAdmission = False\<rparr>"

theorem provider_start_guarded_witness:
  "\<exists>d' l. WithProviderStartAdmission demo_start (Some (\<lambda>n. (n + 1, None))) (\<lambda>_. 8) demo_startable (0 :: int) = (1, d', Inr l) \<and>
     start_allowed demo_start (\<lambda>_. 8) demo_startable \<and> we_Status l = ''start_received''"
proof -
  let ?run = "WithProviderStartAdmission demo_start (Some (\<lambda>n. (n + 1, None))) (\<lambda>_. 8) demo_startable (0 :: int)"
  have "fst ?run = 1" "is_ok (snd (snd ?run))" by code_simp+
  then obtain d' l where ok: "?run = (1, d', Inr l)" by (auto simp: is_ok_iff prod_eq_iff)
  have wf: "wf demo_startable" unfolding demo_startable_def
    by (rule store_step_wf [OF allocate_fence_step demo_leased_wf])
  have "ps_Kind demo_start \<noteq> ''standalone''" by (simp add: demo_start_def)
  then show ?thesis using provider_start_guarded [OF wf ok] ok by auto
qed

end
