(* ===== verification/Store_Runs.thy ===== *)
theory Store_Runs
  imports Run_Control File_References Settings Warm_Attach Provider_Start
begin

text \<open>
  The store as a transition system: one call of the public operations of \<^verbatim>\<open>store/sqlite\<close>
  that write, at any readings of the clock, is one step. Every call is a \<open>store_step\<close>, so that
  what holds along such steps holds of every store that can be reached from an empty one.
\<close>

datatype store_call =
  CallAppend string "PendingEvent list"
| CallBackfill int
| CallGrantFence
| CallInitialize AdapterConnectionInitialize
| CallRefresh string AdapterCredentialPreHelloRefresh
| CallTerminate string int
| CallHello string AdapterHello
| CallPrepareRotation string AdapterCredentialRotation
| CallActivate string AdapterCredentialActivation
| CallAdapterEvents string AdapterConnectionAdmission "PendingEvent list" bool
| CallPropose string CommandAuthority ProposedEventRequest bool
| CallCommitCommand string CommandAuthority PendingEvent PendingCommandRequest bool
| CallClaimCommand string CommandAuthority string bool
| CallResolveCommand string CommandAuthority string string bool
| CallResolveUnknown string string bool
| CallPublishRunCapability string RunControlCapabilityUpdate
| CallReserveRun string RunControlRequest
| CallFinalizeRun string string RunControlFinalize_rec
| CallRecoverRun string string string
| CallPublishFileCapability string FileReferenceCapabilityUpdate
| CallCommitFile string PendingEvent FileReferenceCommandRequest
| CallAcknowledgeFile string string int SettingsWriter
| CallFinalizeFile string string FileReferenceCommandFinalize
| CallRecoverFile string string string
| CallPublishSettings string SettingsCapability
| CallReserveSettings string SettingsCommandRequest
| CallAcknowledgeSettings string string int SettingsWriter
| CallRecoverSettings string string SettingsWriter
| CallFinalizeSettings string string SettingsCommandFinalize
| CallCreateAttachment AttachmentCreate
| CallUpdateAttachment string int AttachmentUpdate
| CallReserveLease WorkspaceLeaseReserve
| CallLeaseStarted bytes int WorkspaceLeaseOwner
| CallQuarantineLease bytes int
| CallReleaseLease bytes int WorkspaceLeaseOwner
| CallAttempt AttachAttemptRequest
| CallReadAttempt bytes
| CallWarmAttach WarmAttachRequest
| CallExpireAttach string int
| CallProviderStart ProviderStartAdmission

fun perform :: "store_call \<Rightarrow> clock \<Rightarrow> db \<Rightarrow> db" where
  "perform (CallAppend sid evs) clk d = fst (Append sid evs clk d)"
| "perform (CallBackfill n) clk d = fst (BackfillAttentionBatch n clk d)"
| "perform CallGrantFence clk d = fst (AllocateAdapterGrantFence d)"
| "perform (CallInitialize q) clk d = fst (InitializeAdapterConnection q clk d)"
| "perform (CallRefresh sid q) clk d = fst (RefreshAdapterCredentialBeforeHello sid q clk d)"
| "perform (CallTerminate sid g) clk d = fst (TerminateAdapterConnectionBeforeHello sid g clk d)"
| "perform (CallHello sid q) clk d = fst (AcceptAdapterHello sid q clk d)"
| "perform (CallPrepareRotation sid q) clk d = fst (PrepareAdapterCredentialRotation sid q clk d)"
| "perform (CallActivate sid q) clk d = fst (ActivateAdapterCredential sid q clk d)"
| "perform (CallAdapterEvents sid a evs enc) clk d = fst (appendAdapterEvents sid a evs enc clk d)"
| "perform (CallPropose sid a q enc) clk d = fst (commitProposedEvent sid a q enc clk d)"
| "perform (CallCommitCommand sid a ev q enc) clk d = fst (commitPendingCommand sid a ev q enc clk d)"
| "perform (CallClaimCommand sid a cmd enc) clk d = fst (claimPendingCommand sid a cmd enc clk d)"
| "perform (CallResolveCommand sid a cmd st enc) clk d = fst (resolvePendingCommand sid a cmd st enc clk d)"
| "perform (CallResolveUnknown sid cmd enc) clk d = fst (resolvePendingCommandUnknown sid cmd enc clk d)"
| "perform (CallPublishRunCapability sid u) clk d = fst (PublishRunControlCapability sid u clk d)"
| "perform (CallReserveRun sid q) clk d = fst (RunControlReserve sid q clk d)"
| "perform (CallFinalizeRun sid cmd q) clk d = fst (RunControlFinalize sid cmd q clk d)"
| "perform (CallRecoverRun sid cmd r) clk d = fst (RecoverRunControl sid cmd r clk d)"
| "perform (CallPublishFileCapability sid u) clk d = fst (PublishFileReferenceCapability sid u clk d)"
| "perform (CallCommitFile sid ev q) clk d = fst (CommitFileReferenceCommand sid ev q clk d)"
| "perform (CallAcknowledgeFile sid cmd v w) clk d = fst (AcknowledgeFileReferenceDelivery sid cmd v w clk d)"
| "perform (CallFinalizeFile sid cmd q) clk d = fst (FinalizeFileReferenceCommand sid cmd q clk d)"
| "perform (CallRecoverFile sid cmd r) clk d = fst (RecoverFileReferenceCommand sid cmd r clk d)"
| "perform (CallPublishSettings sid u) clk d = fst (PublishSettingsCapability sid u clk d)"
| "perform (CallReserveSettings sid q) clk d = fst (SettingsCommandReserve sid q clk d)"
| "perform (CallAcknowledgeSettings sid cmd v w) clk d = fst (AcknowledgeSettingsCommandDelivery sid cmd v w clk d)"
| "perform (CallRecoverSettings sid cmd w) clk d = fst (RecoverSettingsCommand sid cmd w clk d)"
| "perform (CallFinalizeSettings sid cmd q) clk d = fst (FinalizeSettingsCommand sid cmd q clk d)"
| "perform (CallCreateAttachment q) clk d = fst (CreateAttachment q clk d)"
| "perform (CallUpdateAttachment aid v u) clk d = fst (UpdateAttachment aid v u clk d)"
| "perform (CallReserveLease q) clk d = fst (ReserveWorkspaceLease q clk d)"
| "perform (CallLeaseStarted key v ow) clk d = fst (RecordWorkspaceStartReceived key v ow clk d)"
| "perform (CallQuarantineLease key v) clk d = fst (QuarantineWorkspaceLease key v clk d)"
| "perform (CallReleaseLease key v ow) clk d = fst (ReleaseWorkspaceLeaseAfterQuiescence key v ow clk d)"
| "perform (CallAttempt q) clk d = fst (CommitAttachAttempt q clk d)"
| "perform (CallReadAttempt jti) clk d = fst (AttachAttempt jti clk d)"
| "perform (CallWarmAttach q) clk d = fst (CommitWarmAttach q clk d)"
| "perform (CallExpireAttach aid v) clk d = fst (ExpireWarmAttach aid v clk d)"
| "perform (CallProviderStart q) clk d = fst (RecordProviderStartAdmission q clk d)"

inductive store_run :: "db \<Rightarrow> db \<Rightarrow> bool" for d where
  idle: "store_run d d"
| call: "store_run d d' \<Longrightarrow> store_run d (perform c clk d')"

inductive_cases store_runE: "store_run d d'"

lemma perform_step: "store_step d (perform c clk d)"
  by (cases c) (simp_all add: Append_step Backfill_step allocate_fence_step connection_ops_step appendAdapterEvents_step
      commitProposedEvent_step command_steps run_control_steps file_reference_steps settings_steps attachment_steps
      lease_steps attempt_steps warm_attach_steps WithProviderStartAdmission_step RecordProviderStartAdmission_def
      RecordWorkspaceStartReceived_def QuarantineWorkspaceLease_def ReleaseWorkspaceLeaseAfterQuiescence_def)

lemma store_run_step: "store_run d d' \<Longrightarrow> store_step d d'"
  by (induction rule: store_run.induct) (auto intro: store_step_trans perform_step)

lemma store_run_trans: "store_run b c \<Longrightarrow> store_run a b \<Longrightarrow> store_run a c"
  by (induction rule: store_run.induct) (auto intro: store_run.call)

definition reachable :: "db \<Rightarrow> bool" where
  "reachable = store_run initial_db"

lemma reachable_wf: "reachable d \<Longrightarrow> wf d"
  unfolding reachable_def using store_run_step store_step_wf wf_initial by blast

section \<open>Stale admissions\<close>

definition stale :: "AdapterConnectionAdmission \<Rightarrow> connection_row \<Rightarrow> bool" where
  "stale a c \<longleftrightarrow> am_ConnectionEpoch a < cn_epoch c \<or> cn_terminal_ms c \<noteq> None \<or> cn_revoked_ms c \<noteq> None"

lemma stale_stays:
  assumes "store_step d d'" "map_of (session_adapter_connections d) sid = Some c" "stale a c"
  shows "ValidateAdapterAdmission sid a now d' \<noteq> Inr x"
proof -
  obtain c' where c': "map_of (session_adapter_connections d') sid = Some c'" "conn_prog c c'"
    using store_step_tables(6) [OF assms(1)] assms(2) unfolding tab_step_def by blast
  then have "\<not> admitted a now d' c'" using assms(3) by (auto simp: stale_def admitted_def conn_prog_def)
  then show ?thesis using c'(1) by (auto elim: admission_ok)
qed

lemma stale_start:
  assumes "\<And>now x. ValidateAdapterAdmission (ps_SessionID q) (ps_Admission q) now d \<noteq> Inr x"
  shows "\<exists>e. WithProviderStartAdmission q callback clk d s = (s, d, Inl e)"
proof -
  have "\<exists>e. provider_authority q 0 clk d = Inl e"
    using assms by (auto simp: provider_authority_def split: sum.splits)
  then show ?thesis by (auto simp: WithProviderStartAdmission_def)
qed

end
