(* ===== verification/Event_Log.thy ===== *)
theory Event_Log
  imports Store_Step
begin

text \<open>
  The abstract event log behind \<^verbatim>\<open>store.EventStore\<close> (\<^verbatim>\<open>store/store.go\<close>): a list of
  events per session, to which a batch is added as a whole under the next sequence numbers, and the
  proof that the SQLite operations implement it. The locale \<open>event_log\<close> is the contract the hub
  relies on; what follows from it alone is proved inside it.
\<close>

section \<open>The abstract log\<close>

definition spec_append ::
  "string \<Rightarrow> PendingEvent list \<Rightarrow> (string \<Rightarrow> Event list) \<Rightarrow> string \<Rightarrow> Event list" where
  "spec_append sid evs L = L(sid := L sid @ stored_events sid (int (length (L sid)) + 1) evs)"

definition event_log_of :: "db \<Rightarrow> string \<Rightarrow> Event list" where
  "event_log_of d sid = map row_event (log_of d sid)"

lemma length_stored_events [simp]: "length (stored_events sid n evs) = length evs"
  by (induction evs arbitrary: n) simp_all

lemma stored_events_append:
  "stored_events sid n (xs @ ys) = stored_events sid n xs @ stored_events sid (n + int (length xs)) ys"
  by (induction xs arbitrary: n) (simp_all add: algebra_simps)

lemma stored_events_seqs: "map e_Seq (stored_events sid n evs) = [n..n + int (length evs) - 1]"
  by (induction evs arbitrary: n) (simp_all add: upto_rec1 algebra_simps)

lemma spec_append_Nil [simp]: "spec_append sid [] L = L"
  by (simp add: spec_append_def)

lemma spec_append_append: "spec_append sid (xs @ ys) L = spec_append sid ys (spec_append sid xs L)"
  by (simp add: spec_append_def stored_events_append algebra_simps)

section \<open>The contract\<close>

locale event_log =
  fixes inv :: "'d \<Rightarrow> bool" and log :: "'d \<Rightarrow> string \<Rightarrow> Event list"
    and append :: "string \<Rightarrow> PendingEvent list \<Rightarrow> clock \<Rightarrow> 'd \<Rightarrow> 'd \<times> int res"
    and latest :: "string \<Rightarrow> 'd \<Rightarrow> int res"
    and replay :: "string \<Rightarrow> int \<Rightarrow> ('s \<Rightarrow> Event \<Rightarrow> 's \<times> err option) option \<Rightarrow> 'd \<Rightarrow> 's \<Rightarrow> 's \<times> unit res"
  assumes append_ok: "inv d \<Longrightarrow> append sid evs clk d = (d', Inr n) \<Longrightarrow> evs \<noteq> [] \<Longrightarrow>
      inv d' \<and> log d' = spec_append sid evs (log d) \<and> n = int (length (log d sid)) + 1"
    and append_error: "append sid evs clk d = (d', Inl e) \<Longrightarrow> d' = d"
    and append_nothing: "append sid [] clk d = (d, Inr 0)"
    and latest_length: "inv d \<Longrightarrow> latest sid d = Inr (int (length (log d sid)))"
    and replay_drop: "inv d \<Longrightarrow> replay sid n (Some f) d s = deliver f (drop (nat n) (log d sid)) s"
begin

lemma append_refines:
  assumes "inv d"
  shows "inv (fst (append sid evs clk d)) \<and>
    log (fst (append sid evs clk d)) = (if is_ok (snd (append sid evs clk d)) then spec_append sid evs (log d) else log d)"
proof (cases "evs = []")
  case False
  obtain d' r where run: "append sid evs clk d = (d', r)" by force
  show ?thesis
  proof (cases r)
    case (Inl e)
    then show ?thesis using append_error [of sid evs clk d d' e] run assms by (auto simp: is_ok_iff)
  next
    case (Inr n)
    then show ?thesis using append_ok [OF assms, of sid evs clk d' n] run False by (auto simp: is_ok_iff)
  qed
qed (simp add: append_nothing assms)

lemma catch_up:
  assumes "inv d" "append sid evs clk d = (d', Inr n)" "evs \<noteq> []"
  shows "latest sid d = Inr (n - 1)" "replay sid (n - 1) (Some f) d' s = deliver f (stored_events sid n evs) s"
  using append_ok [OF assms] latest_length [OF assms(1), of sid] replay_drop [of d' sid "n - 1" f s]
  by (simp_all add: spec_append_def)

end

section \<open>The SQLite store implements it\<close>

lemma rows_after:
  assumes "numbered d"
  shows "filter (\<lambda>r. ev_seq r > n) (session_rows d sid) = drop (nat n) (log_of d sid)"
proof -
  have seqs: "map ev_seq rs = [k + 1..k + int (length rs)] \<Longrightarrow>
      filter (\<lambda>r. ev_seq r > n) rs = drop (nat (n - k)) rs" for rs k
  proof (induction rs arbitrary: k)
    case (Cons r rs)
    then have "ev_seq r = k + 1" "map ev_seq rs = [k + 1 + 1..k + 1 + int (length rs)]"
      by (simp_all add: upto_rec1 algebra_simps)
    with Cons.IH [of "k + 1"] show ?case
      by (cases "n \<le> k") (auto simp: drop_Cons' nat_diff_distrib' Suc_nat_eq_nat_zadd1 intro!: arg_cong2 [where f = drop])
  qed simp
  have "map ev_seq (log_of d sid) = [0 + 1..0 + int (length (log_of d sid))]"
    using assms by (simp add: numbered_log_def rows_of_def)
  from seqs [OF this] show ?thesis by (simp add: session_rows_numbered [OF assms])
qed

lemma rows_append_refines:
  assumes "numbered d" "n = latest_seq d sid + 1" "session_events d' = session_events d @ event_rows sid n c evs"
  shows "event_log_of d' = spec_append sid evs (event_log_of d)" "n = int (length (event_log_of d sid)) + 1"
  using assms(2) numbered_latest [OF assms(1), of sid]
  by (simp_all add: fun_eq_iff event_log_of_def spec_append_def log_after_append [OF assms(3)] stored_events_rows)

interpretation sqlite_log: event_log numbered event_log_of Append LatestSeq Replay
proof
  fix d d' :: db and sid evs clk and n :: int
  assume inv: "numbered d" and run: "Append sid evs clk d = (d', Inr n)" "evs \<noteq> []"
  have ok: "n = latest_seq d sid + 1" "session_events d' = session_events d @ event_rows sid n (clk 0) evs"
    using Append_ok [OF run] by simp_all
  have "numbered d'" using Append_log_step [of d sid evs clk] inv by (simp add: run(1) log_step_def)
  then show "numbered d' \<and> event_log_of d' = spec_append sid evs (event_log_of d) \<and>
      n = int (length (event_log_of d sid)) + 1"
    using rows_append_refines [OF inv ok] by simp
qed (auto simp: Append_error Append_def LatestSeq_def numbered_latest event_log_of_def Replay_def replay_loop_deliver rows_after drop_map)

text \<open>
  C3: the SQLite event store implements the abstract log. On a store whose logs are numbered,
  \<open>Append\<close> performs the abstract append when it reports success and otherwise leaves every log as
  it was, the latest sequence number is the length of the session's log, and \<open>Replay\<close> delivers the
  log behind the cursor in order.
\<close>

theorem event_store_refines:
  assumes "numbered d"
  shows "event_log_of (fst (Append sid evs clk d)) =
      (if is_ok (snd (Append sid evs clk d)) then spec_append sid evs (event_log_of d) else event_log_of d) \<and>
    numbered (fst (Append sid evs clk d)) \<and>
    LatestSeq sid d = Inr (int (length (event_log_of d sid))) \<and>
    Replay sid n (Some f) d s = deliver f (drop (nat n) (event_log_of d sid)) s"
  by (simp only: sqlite_log.append_refines [OF assms] sqlite_log.latest_length [OF assms]
      sqlite_log.replay_drop [OF assms] simp_thms)

theorem event_store_refines_witness:
  "event_log_of (fst (Append ''s'' [demo_event] (\<lambda>_. 8) demo_db)) = spec_append ''s'' [demo_event] (event_log_of demo_db) \<and>
   length (event_log_of demo_db ''s'') = 3"
proof -
  have "is_ok (snd (Append ''s'' [demo_event] (\<lambda>_. 8) demo_db))" "length (event_log_of demo_db ''s'') = 3" by code_simp+
  then show ?thesis
    using event_store_refines [OF demo_numbered, of "''s''" "[demo_event]" "\<lambda>_. 8" 0 "\<lambda>s e. (s, None)" "()"] by simp
qed

end
