(* ===== verification/Event_Batcher.thy ===== *)
theory Event_Batcher
  imports Event_Log Connections "HOL-Library.Sublist"
begin

text \<open>
  The batcher between an adapter connection and the event store (\<^verbatim>\<open>hub/event_batcher.go\<close>).
  Producers put events into a bounded queue; one goroutine moves them into a batch and flushes it
  when it is full, when its timer fires or when the batcher is closed. The goroutine, the producers
  and the other writers of the store interleave, so the batcher is a step relation over the
  operations of the code. The store is a parameter of the operations; what holds of every store that
  keeps the contract \<open>event_log\<close> is proved in that locale.
\<close>

section \<open>Data\<close>

record protocol_event =
  he_Type :: string
  he_SessionID :: string
  he_Seq :: "int option"
  he_Time :: int
  he_Payload :: bytes
  he_ProposalID :: string

record pendingAdapterEvent =
  pa_event :: protocol_event
  pa_pending :: PendingEvent

record batcher_config =
  bc_SessionID :: string
  bc_MaxEvents :: int
  bc_Broadcast :: bool
  bc_ReportError :: bool

datatype batcher_phase = Running | Draining | Stopped

record 'd batcher =
  bt_store :: 'd
  bt_queue :: "pendingAdapterEvent list"
  bt_batch :: "pendingAdapterEvent list"
  bt_timer :: bool
  bt_cancelled :: bool
  bt_phase :: batcher_phase
  bt_broadcasts :: "protocol_event list"
  bt_errors :: "err list"

definition adapterEventBatchMaxEvents :: int where "adapterEventBatchMaxEvents = 64"

definition maxEvents :: "batcher_config \<Rightarrow> nat" where
  "maxEvents cfg = nat (if bc_MaxEvents cfg \<le> 0 then adapterEventBatchMaxEvents else bc_MaxEvents cfg)"

definition newAdapterEventBatcher :: "'d \<Rightarrow> 'd batcher" where
  "newAdapterEventBatcher d =
     \<lparr>bt_store = d, bt_queue = [], bt_batch = [], bt_timer = False, bt_cancelled = False, bt_phase = Running,
      bt_broadcasts = [], bt_errors = []\<rparr>"

section \<open>Operations\<close>

text \<open>The publisher of a configuration that has one: it acts on the store, broadcasts and may fail.\<close>

type_synonym 'd publisher =
  "(bool \<Rightarrow> pendingAdapterEvent list \<Rightarrow> clock \<Rightarrow> 'd \<Rightarrow> 'd \<times> protocol_event list \<times> unit res) option"

type_synonym 'd appender = "string \<Rightarrow> PendingEvent list \<Rightarrow> clock \<Rightarrow> 'd \<Rightarrow> 'd \<times> int res"

fun with_seqs :: "int \<Rightarrow> pendingAdapterEvent list \<Rightarrow> protocol_event list" where
  "with_seqs n [] = []"
| "with_seqs n (item # batch) = (pa_event item)\<lparr>he_Seq := Some n\<rparr> # with_seqs (n + 1) batch"

definition report :: "batcher_config \<Rightarrow> err \<Rightarrow> 'd batcher \<Rightarrow> 'd batcher" where
  "report cfg e b = (if bc_ReportError cfg then b\<lparr>bt_errors := bt_errors b @ [e]\<rparr> else b)"

text \<open>A store call under a cancelled context fails before it begins its transaction.\<close>

definition flush ::
  "batcher_config \<Rightarrow> 'd appender \<Rightarrow> 'd publisher \<Rightarrow> bool \<Rightarrow> clock \<Rightarrow> pendingAdapterEvent list \<Rightarrow> 'd batcher \<Rightarrow> 'd batcher" where
  "flush cfg store_append publish ctx_done clk batch b =
     (case publish of
        Some p \<Rightarrow>
          (case p ctx_done batch clk (bt_store b) of (d, sent, r) \<Rightarrow>
             let b = b\<lparr>bt_store := d, bt_broadcasts := bt_broadcasts b @ sent\<rparr>
             in case r of Inl e \<Rightarrow> report cfg e b | Inr _ \<Rightarrow> b)
      | None \<Rightarrow>
          (case (if ctx_done then (bt_store b, Inl (Fail ''context canceled''))
                 else store_append (bc_SessionID cfg) (map pa_pending batch) clk (bt_store b)) of
             (d, Inl e) \<Rightarrow> report cfg e (b\<lparr>bt_store := d\<rparr>)
           | (d, Inr firstSeq) \<Rightarrow>
               b\<lparr>bt_store := d,
                 bt_broadcasts := bt_broadcasts b @ (if bc_Broadcast cfg then with_seqs firstSeq batch else [])\<rparr>))"

definition flush_batch ::
  "batcher_config \<Rightarrow> 'd appender \<Rightarrow> 'd publisher \<Rightarrow> bool \<Rightarrow> clock \<Rightarrow> 'd batcher \<Rightarrow> 'd batcher" where
  "flush_batch cfg store_append publish ctx_done clk b =
     (if bt_batch b = [] then b
      else (flush cfg store_append publish ctx_done clk (bt_batch b) b)\<lparr>bt_batch := [], bt_timer := False\<rparr>)"

definition new_item :: "protocol_event \<Rightarrow> PendingEvent \<Rightarrow> pendingAdapterEvent" where
  "new_item ev pending = \<lparr>pa_event = ev\<lparr>he_Seq := None, he_ProposalID := []\<rparr>, pa_pending = pending\<rparr>"

definition Enqueue :: "pendingAdapterEvent \<Rightarrow> 'd batcher \<Rightarrow> 'd batcher" where
  "Enqueue item b = b\<lparr>bt_queue := bt_queue b @ [item]\<rparr>"

definition receive ::
  "batcher_config \<Rightarrow> 'd appender \<Rightarrow> 'd publisher \<Rightarrow> clock \<Rightarrow> 'd batcher \<Rightarrow> 'd batcher" where
  "receive cfg store_append publish clk b =
     (case bt_queue b of
        [] \<Rightarrow> b
      | item # queue \<Rightarrow>
          let b = b\<lparr>bt_queue := queue, bt_batch := bt_batch b @ [item]\<rparr>;
              b = (if length (bt_batch b) = 1 then b\<lparr>bt_timer := True\<rparr> else b)
          in if length (bt_batch b) \<ge> maxEvents cfg then flush_batch cfg store_append publish (bt_cancelled b) clk b else b)"

text \<open>
  The steps: a producer's send into the buffered queue (possible while there is room, whatever the
  goroutine does), the cases of the goroutine's \<^verbatim>\<open>select\<close>, the items of \<^verbatim>\<open>drainQueue\<close> one by
  one, its last flush, and a step of another writer of the store. The first argument collects the
  items for which \<^verbatim>\<open>Enqueue\<close> returned no error.
\<close>

inductive batcher_run ::
  "batcher_config \<Rightarrow> 'd appender \<Rightarrow> 'd publisher \<Rightarrow> ('d \<Rightarrow> 'd \<Rightarrow> bool) \<Rightarrow> 'd \<Rightarrow>
   pendingAdapterEvent list \<Rightarrow> 'd batcher \<Rightarrow> bool"
  for cfg store_append publish other d0 where
  start: "batcher_run cfg store_append publish other d0 [] (newAdapterEventBatcher d0)"
| enqueue: "batcher_run cfg store_append publish other d0 acc b \<Longrightarrow> length (bt_queue b) < maxEvents cfg \<Longrightarrow>
    batcher_run cfg store_append publish other d0 (acc @ [new_item ev p]) (Enqueue (new_item ev p) b)"
| receive: "batcher_run cfg store_append publish other d0 acc b \<Longrightarrow> bt_phase b = Running \<Longrightarrow> bt_queue b \<noteq> [] \<Longrightarrow>
    batcher_run cfg store_append publish other d0 acc (receive cfg store_append publish clk b)"
| timer: "batcher_run cfg store_append publish other d0 acc b \<Longrightarrow> bt_phase b = Running \<Longrightarrow> bt_timer b \<Longrightarrow>
    batcher_run cfg store_append publish other d0 acc (flush_batch cfg store_append publish (bt_cancelled b) clk b)"
| cancel: "batcher_run cfg store_append publish other d0 acc b \<Longrightarrow>
    batcher_run cfg store_append publish other d0 acc (b\<lparr>bt_cancelled := True\<rparr>)"
| begin_drain: "batcher_run cfg store_append publish other d0 acc b \<Longrightarrow> bt_phase b = Running \<Longrightarrow> bt_cancelled b \<Longrightarrow>
    batcher_run cfg store_append publish other d0 acc (b\<lparr>bt_phase := Draining\<rparr>)"
| drain: "batcher_run cfg store_append publish other d0 acc b \<Longrightarrow> bt_phase b = Draining \<Longrightarrow> bt_queue b = item # queue \<Longrightarrow>
    batcher_run cfg store_append publish other d0 acc (b\<lparr>bt_queue := queue, bt_batch := bt_batch b @ [item]\<rparr>)"
| stop: "batcher_run cfg store_append publish other d0 acc b \<Longrightarrow> bt_phase b = Draining \<Longrightarrow> bt_queue b = [] \<Longrightarrow>
    batcher_run cfg store_append publish other d0 acc ((flush_batch cfg store_append publish False clk b)\<lparr>bt_phase := Stopped\<rparr>)"
| other: "batcher_run cfg store_append publish other d0 acc b \<Longrightarrow> other (bt_store b) d' \<Longrightarrow>
    batcher_run cfg store_append publish other d0 acc (b\<lparr>bt_store := d'\<rparr>)"

section \<open>What holds of every run\<close>

definition stored_event :: "string \<Rightarrow> int \<Rightarrow> PendingEvent \<Rightarrow> Event" where
  "stored_event sid n ev = hd (stored_events sid n [ev])"

text \<open>\<open>sent\<close> is what was broadcast: items in order, each under the number it is stored with.\<close>

definition sent_ok ::
  "batcher_config \<Rightarrow> Event list \<Rightarrow> pendingAdapterEvent list \<Rightarrow> protocol_event list \<Rightarrow> (pendingAdapterEvent \<times> int) list \<Rightarrow> bool" where
  "sent_ok cfg log flushed broadcasts sent \<longleftrightarrow>
     subseq (map fst sent) flushed \<and> broadcasts = map (\<lambda>(item, k). (pa_event item)\<lparr>he_Seq := Some k\<rparr>) sent \<and>
     sorted_wrt (<) (map snd sent) \<and>
     (\<forall>(item, k) \<in> set sent. 1 \<le> k \<and> nat k \<le> length log \<and>
        log ! (nat k - 1) = stored_event (bc_SessionID cfg) k (pa_pending item))"

definition batcher_ok ::
  "('d \<Rightarrow> bool) \<Rightarrow> ('d \<Rightarrow> string \<Rightarrow> Event list) \<Rightarrow> batcher_config \<Rightarrow> pendingAdapterEvent list \<Rightarrow> 'd batcher \<Rightarrow> bool" where
  "batcher_ok store_ok log cfg acc b \<longleftrightarrow>
     store_ok (bt_store b) \<and> length (bt_queue b) \<le> maxEvents cfg \<and>
     (bt_phase b = Running \<longrightarrow> length (bt_batch b) < maxEvents cfg \<and> (bt_timer b \<longleftrightarrow> bt_batch b \<noteq> [])) \<and>
     (bt_phase b = Stopped \<longrightarrow> bt_batch b = []) \<and>
     (\<exists>flushed sent. acc = flushed @ bt_batch b @ bt_queue b \<and>
        sent_ok cfg (log (bt_store b) (bc_SessionID cfg)) flushed (bt_broadcasts b) sent)"

lemma maxEvents_pos [simp]: "0 < maxEvents cfg"
  by (simp add: maxEvents_def adapterEventBatchMaxEvents_def)

lemma sent_ok_log:
  assumes "sent_ok cfg log flushed broadcasts sent"
  shows "sent_ok cfg (log @ rest) (flushed @ batch) broadcasts sent"
  using assms by (fastforce simp: sent_ok_def nth_append intro: subseq_order.order_trans)

lemma with_seqs_zip:
  "with_seqs n batch = map (\<lambda>(item, k). (pa_event item)\<lparr>he_Seq := Some k\<rparr>) (zip batch [n..n + int (length batch) - 1])"
  by (induction batch arbitrary: n) (simp_all add: upto_rec1 algebra_simps)

lemma nth_stored_events: "i < length evs \<Longrightarrow> stored_events sid n evs ! i = stored_event sid (n + int i) (evs ! i)"
proof (induction evs arbitrary: n i)
  case (Cons ev evs)
  then show ?case by (cases i) (simp_all add: stored_event_def algebra_simps)
qed simp

lemma sent_ok_append:
  fixes batch
  assumes ok: "sent_ok cfg L flushed broadcasts sent" and n: "n = int (length L) + 1"
  defines "ks \<equiv> [n..n + int (length batch) - 1]"
  shows "sent_ok cfg (L @ stored_events (bc_SessionID cfg) n (map pa_pending batch)) (flushed @ batch)
    (broadcasts @ with_seqs n batch) (sent @ zip batch ks)"
proof -
  have len: "length ks = length batch" by (simp add: ks_def)
  have old: "\<forall>k \<in> set (map snd sent). k < n" using ok n by (fastforce simp: sent_ok_def)
  have "sorted_wrt (<) (map snd (sent @ zip batch ks))"
    using ok old len by (auto simp: sent_ok_def sorted_wrt_append map_snd_zip ks_def)
  moreover have "subseq (map fst (sent @ zip batch ks)) (flushed @ batch)"
    using ok len by (simp add: sent_ok_def map_fst_zip list_emb_append_mono)
  moreover have "broadcasts @ with_seqs n batch = map (\<lambda>(item, k). (pa_event item)\<lparr>he_Seq := Some k\<rparr>) (sent @ zip batch ks)"
    using ok by (simp add: sent_ok_def with_seqs_zip ks_def)
  moreover have "1 \<le> k \<and> nat k \<le> length L + length batch \<and>
      (L @ stored_events (bc_SessionID cfg) n (map pa_pending batch)) ! (nat k - 1) =
        stored_event (bc_SessionID cfg) k (pa_pending item)"
    if new: "(item, k) \<in> set (zip batch ks)" for item k
  proof -
    obtain i where "i < length batch" "item = batch ! i" "k = ks ! i" using new len by (auto simp: set_zip)
    then have i: "i < length batch" "item = batch ! i" "k = n + int i" by (simp_all add: ks_def nth_upto)
    then have "nat k - 1 = length L + i" using n by simp
    then show ?thesis using i n by (simp add: nth_append nth_stored_events)
  qed
  moreover have "\<forall>(item, k) \<in> set sent. 1 \<le> k \<and> nat k \<le> length L + length batch \<and>
      (L @ stored_events (bc_SessionID cfg) n (map pa_pending batch)) ! (nat k - 1) =
        stored_event (bc_SessionID cfg) k (pa_pending item)"
    using ok by (fastforce simp: sent_ok_def nth_append)
  ultimately show ?thesis by (auto simp: sent_ok_def)
qed

lemma flush_frame:
  "bt_queue (flush cfg a pub c clk batch b) = bt_queue b" "bt_phase (flush cfg a pub c clk batch b) = bt_phase b"
  "bt_cancelled (flush cfg a pub c clk batch b) = bt_cancelled b"
  by (auto simp: flush_def report_def Let_def split: option.splits prod.splits sum.splits)

context event_log
begin

lemma flush_keeps:
  fixes ctx_done clk
  assumes "inv (bt_store b)" and sent: "sent_ok cfg (log (bt_store b) (bc_SessionID cfg)) flushed (bt_broadcasts b) sent"
    and "batch \<noteq> []"
  defines "b' \<equiv> flush cfg append None ctx_done clk batch b"
  shows "inv (bt_store b')"
    "\<exists>sent'. sent_ok cfg (log (bt_store b') (bc_SessionID cfg)) (flushed @ batch) (bt_broadcasts b') sent'"
proof -
  let ?sid = "bc_SessionID cfg" and ?evs = "map pa_pending batch"
  note same = sent_ok_log [OF sent, of "[]" batch, simplified]
  have goal: "inv (bt_store b') \<and> (\<exists>sent'. sent_ok cfg (log (bt_store b') ?sid) (flushed @ batch) (bt_broadcasts b') sent')"
  proof (cases "ctx_done")
    case True
    then show ?thesis using assms(1) same by (auto simp: b'_def flush_def report_def)
  next
    case False
    obtain d r where run: "append ?sid ?evs clk (bt_store b) = (d, r)" by force
    show ?thesis
    proof (cases r)
      case (Inl e)
      with run append_error have "d = bt_store b" by blast
      then show ?thesis using run Inl False assms(1) same by (auto simp: b'_def flush_def report_def)
    next
      case (Inr n)
      have ok: "inv d" "log d = spec_append ?sid ?evs (log (bt_store b))" "n = int (length (log (bt_store b) ?sid)) + 1"
        using append_ok [OF assms(1), of ?sid ?evs clk d n] run Inr assms(3) by simp_all
      have b': "bt_store b' = d" "bt_broadcasts b' = bt_broadcasts b @ (if bc_Broadcast cfg then with_seqs n batch else [])"
        using run Inr False by (simp_all add: b'_def flush_def)
      have "log d ?sid = log (bt_store b) ?sid @ stored_events ?sid n ?evs"
        using ok(2,3) by (simp add: spec_append_def)
      then show ?thesis
        using ok(1) b' sent_ok_append [OF sent ok(3), where batch = batch] sent_ok_log [OF sent] by (auto split: if_splits)
    qed
  qed
  then show "inv (bt_store b')"
    "\<exists>sent'. sent_ok cfg (log (bt_store b') ?sid) (flushed @ batch) (bt_broadcasts b') sent'" by simp_all
qed

end

text \<open>
  What the steps of the batcher rely on is only that a flush keeps the store's invariant and the record
  of what was sent, whether it appends and broadcasts itself or has a publisher do it.
\<close>

locale flushing =
  fixes store_ok :: "'d \<Rightarrow> bool" and log :: "'d \<Rightarrow> string \<Rightarrow> Event list" and cfg :: batcher_config
    and store_append :: "'d appender" and publish :: "'d publisher"
  assumes flushed_ok: "store_ok (bt_store b) \<Longrightarrow>
      sent_ok cfg (log (bt_store b) (bc_SessionID cfg)) flushed (bt_broadcasts b) sent \<Longrightarrow> batch \<noteq> [] \<Longrightarrow>
      store_ok (bt_store (flush cfg store_append publish ctx_done clk batch b)) \<and>
      (\<exists>sent'. sent_ok cfg (log (bt_store (flush cfg store_append publish ctx_done clk batch b)) (bc_SessionID cfg))
         (flushed @ batch) (bt_broadcasts (flush cfg store_append publish ctx_done clk batch b)) sent')"
begin

lemma flush_batch_keeps:
  fixes ctx_done clk
  assumes "store_ok (bt_store b)" "acc = flushed @ bt_batch b @ bt_queue b"
    "sent_ok cfg (log (bt_store b) (bc_SessionID cfg)) flushed (bt_broadcasts b) sent"
  defines "b' \<equiv> flush_batch cfg store_append publish ctx_done clk b"
  shows "store_ok (bt_store b') \<and> bt_queue b' = bt_queue b \<and> bt_phase b' = bt_phase b \<and> bt_batch b' = [] \<and>
    (bt_batch b \<noteq> [] \<longrightarrow> \<not> bt_timer b') \<and> (bt_batch b = [] \<longrightarrow> b' = b) \<and>
    (\<exists>flushed sent. acc = flushed @ bt_batch b' @ bt_queue b' \<and>
       sent_ok cfg (log (bt_store b') (bc_SessionID cfg)) flushed (bt_broadcasts b') sent)"
proof (cases "bt_batch b = []")
  case False
  show ?thesis
    using flushed_ok [OF assms(1,3) False, where ctx_done = ctx_done and clk = clk] assms(2) False
    by (auto simp: b'_def flush_batch_def flush_frame)
qed (use assms in \<open>auto simp: flush_batch_def\<close>)

lemma flush_batch_ok:
  assumes "batcher_ok store_ok log cfg acc b" "bt_phase b = Running \<or> bt_phase b = Draining"
  shows "batcher_ok store_ok log cfg acc (flush_batch cfg store_append publish ctx_done clk b)"
    "bt_batch (flush_batch cfg store_append publish ctx_done clk b) = []"
    "bt_phase (flush_batch cfg store_append publish ctx_done clk b) = bt_phase b"
proof -
  obtain flushed sent where f: "acc = flushed @ bt_batch b @ bt_queue b"
    "sent_ok cfg (log (bt_store b) (bc_SessionID cfg)) flushed (bt_broadcasts b) sent" "store_ok (bt_store b)"
    using assms(1) by (auto simp: batcher_ok_def)
  note kept = flush_batch_keeps [OF f(3,1,2), where ctx_done = ctx_done and clk = clk]
  show "batcher_ok store_ok log cfg acc (flush_batch cfg store_append publish ctx_done clk b)"
    using kept assms unfolding batcher_ok_def by (cases "bt_batch b = []") auto
  show "bt_batch (flush_batch cfg store_append publish ctx_done clk b) = []"
    "bt_phase (flush_batch cfg store_append publish ctx_done clk b) = bt_phase b" using kept by simp_all
qed

lemma receive_ok:
  assumes ok: "batcher_ok store_ok log cfg acc b" and run: "bt_phase b = Running" and "bt_queue b \<noteq> []"
  shows "batcher_ok store_ok log cfg acc (receive cfg store_append publish clk b)"
proof -
  obtain item queue where q: "bt_queue b = item # queue" using assms(3) by (cases "bt_queue b") auto
  obtain flushed sent where f: "acc = flushed @ bt_batch b @ bt_queue b"
    "sent_ok cfg (log (bt_store b) (bc_SessionID cfg)) flushed (bt_broadcasts b) sent"
    using ok by (auto simp: batcher_ok_def)
  define b1 where "b1 = b\<lparr>bt_queue := queue, bt_batch := bt_batch b @ [item], bt_timer := True\<rparr>"
  have "bt_batch b \<noteq> [] \<Longrightarrow> bt_timer b" using ok run by (auto simp: batcher_ok_def)
  then have "bt_batch b \<noteq> [] \<Longrightarrow> b\<lparr>bt_queue := queue, bt_batch := bt_batch b @ [item]\<rparr> = b1"
    by (cases b) (simp add: b1_def)
  then have rec: "receive cfg store_append publish clk b =
      (if length (bt_batch b1) \<ge> maxEvents cfg then flush_batch cfg store_append publish (bt_cancelled b1) clk b1 else b1)"
    by (cases "bt_batch b = []") (auto simp: receive_def q b1_def Let_def)
  show ?thesis
  proof (cases "length (bt_batch b1) \<ge> maxEvents cfg")
    case True
    have inv: "store_ok (bt_store b1)" "acc = flushed @ bt_batch b1 @ bt_queue b1"
      "sent_ok cfg (log (bt_store b1) (bc_SessionID cfg)) flushed (bt_broadcasts b1) sent" "length (bt_queue b1) \<le> maxEvents cfg"
      "bt_batch b1 \<noteq> []" "bt_phase b1 = Running"
      using ok f q run by (auto simp: b1_def batcher_ok_def)
    show ?thesis
      using flush_batch_keeps [OF inv(1-3), where ctx_done = "bt_cancelled b1" and clk = clk] inv(4-6) True
      unfolding rec batcher_ok_def by auto
  next
    case False
    then show ?thesis using ok f q run unfolding rec by (auto simp: b1_def batcher_ok_def)
  qed
qed

lemma run_ok:
  assumes "batcher_run cfg store_append publish other d0 acc b" "store_ok d0"
    and other: "\<And>d d' sid. store_ok d \<Longrightarrow> other d d' \<Longrightarrow> store_ok d' \<and> prefix (log d sid) (log d' sid)"
  shows "batcher_ok store_ok log cfg acc b"
  using assms(1)
proof induction
  case start
  then show ?case using assms(2) by (auto simp: batcher_ok_def newAdapterEventBatcher_def sent_ok_def)
next
  case (enqueue acc b ev p)
  then show ?case by (auto simp: batcher_ok_def Enqueue_def)
next
  case (receive acc b clk)
  then show ?case by (intro receive_ok)
next
  case (timer acc b clk)
  then show ?case by (intro flush_batch_ok) auto
next
  case (stop acc b clk)
  then show ?case using flush_batch_ok [OF stop.IH, of False clk] by (auto simp: batcher_ok_def)
next
  case (other acc b d')
  then obtain rest where "store_ok d'" "log d' (bc_SessionID cfg) = log (bt_store b) (bc_SessionID cfg) @ rest"
    using assms(3) [of "bt_store b" d' "bc_SessionID cfg"] by (auto simp: batcher_ok_def prefix_def)
  then show ?case using other.IH sent_ok_log [where batch = "[]" and rest = rest]
    by (fastforce simp: batcher_ok_def)
qed (auto simp: batcher_ok_def)

end

section \<open>The batcher on the SQLite store\<close>

lemma store_step_prefix: "store_step d d' \<Longrightarrow> prefix (event_log_of d sid) (event_log_of d' sid)"
  by (auto simp: store_step_def extends_log_def event_log_of_def rows_of_def)

interpretation store_log: event_log wf event_log_of Append LatestSeq Replay
proof
  fix d d' :: db and sid evs clk and n :: int
  assume "wf d" and run: "Append sid evs clk d = (d', Inr n)" "evs \<noteq> []"
  moreover have "wf d'" using store_step_wf [OF Append_step \<open>wf d\<close>, of sid evs clk] by (simp add: run(1))
  ultimately show "wf d' \<and> event_log_of d' = spec_append sid evs (event_log_of d) \<and> n = int (length (event_log_of d sid)) + 1"
    using sqlite_log.append_ok [of d sid evs clk d' n] by (simp add: wf_def)
qed (auto simp: sqlite_log.append_error sqlite_log.append_nothing sqlite_log.latest_length sqlite_log.replay_drop wf_def)

interpretation store_flush: flushing wf event_log_of cfg Append None for cfg
proof
  fix b :: "db batcher" and flushed sent ctx_done clk and batch :: "pendingAdapterEvent list"
  assume "wf (bt_store b)" "sent_ok cfg (event_log_of (bt_store b) (bc_SessionID cfg)) flushed (bt_broadcasts b) sent"
    "batch \<noteq> []"
  from store_log.flush_keeps [OF this]
  show "wf (bt_store (flush cfg Append None ctx_done clk batch b)) \<and>
    (\<exists>sent'. sent_ok cfg (event_log_of (bt_store (flush cfg Append None ctx_done clk batch b)) (bc_SessionID cfg))
       (flushed @ batch) (bt_broadcasts (flush cfg Append None ctx_done clk batch b)) sent')" by blast
qed

text \<open>
  C4: the batcher publishes what was accepted, in order and only once it is durable. Whatever the
  interleaving of producers, the batcher's goroutine and other users of the store, the accepted
  events are those flushed so far followed by the batch and the queue, both within their bound; a
  non-empty batch of a running batcher has its timer armed; and the events broadcast are accepted
  events in the order of acceptance, under strictly increasing sequence numbers, each already stored
  in the session's log under exactly that number.
\<close>

theorem batcher_publishes_durable:
  assumes "batcher_run cfg Append None store_step d0 acc b" "wf d0"
  shows "length (bt_queue b) \<le> maxEvents cfg \<and>
    (bt_phase b = Running \<longrightarrow> length (bt_batch b) < maxEvents cfg \<and> (bt_batch b \<noteq> [] \<longrightarrow> bt_timer b)) \<and>
    (\<exists>flushed sent. acc = flushed @ bt_batch b @ bt_queue b \<and> subseq (map fst sent) flushed \<and>
       bt_broadcasts b = map (\<lambda>(item, k). (pa_event item)\<lparr>he_Seq := Some k\<rparr>) sent \<and>
       sorted_wrt (<) (map snd sent) \<and>
       (\<forall>(item, k) \<in> set sent. 1 \<le> k \<and> nat k \<le> length (event_log_of (bt_store b) (bc_SessionID cfg)) \<and>
          event_log_of (bt_store b) (bc_SessionID cfg) ! (nat k - 1) =
            stored_event (bc_SessionID cfg) k (pa_pending item)))"
proof -
  have "batcher_ok wf event_log_of cfg acc b"
    using assms by (rule store_flush.run_ok) (auto intro: store_step_wf store_step_prefix)
  then show ?thesis unfolding batcher_ok_def sent_ok_def by blast
qed

definition demo_batcher :: batcher_config where
  "demo_batcher = \<lparr>bc_SessionID = ''s'', bc_MaxEvents = 0, bc_Broadcast = True, bc_ReportError = True\<rparr>"

definition demo_item :: pendingAdapterEvent where
  "demo_item = new_item \<lparr>he_Type = ''session.state'', he_SessionID = ''s'', he_Seq = None, he_Time = 5,
     he_Payload = pe_Payload demo_event, he_ProposalID = []\<rparr> demo_event"

definition demo_flushed :: "db batcher" where
  "demo_flushed = flush_batch demo_batcher Append None False (\<lambda>_. 7)
     (receive demo_batcher Append None (\<lambda>_. 7) (Enqueue demo_item (newAdapterEventBatcher initial_db)))"

theorem batcher_publishes_durable_witness:
  "map he_Seq (bt_broadcasts demo_flushed) = [Some 1] \<and>
   (\<exists>flushed. [demo_item] = flushed @ bt_batch demo_flushed @ bt_queue demo_flushed)"
proof -
  let ?run = "batcher_run demo_batcher Append None store_step initial_db"
  let ?b = "Enqueue demo_item (newAdapterEventBatcher initial_db)"
  have "?run ([] @ [demo_item]) ?b" unfolding demo_item_def
    by (rule batcher_run.enqueue [OF batcher_run.start]) (simp add: newAdapterEventBatcher_def)
  then have "?run [demo_item] (receive demo_batcher Append None (\<lambda>_. 7) ?b)"
    by (intro batcher_run.receive) (simp_all add: Enqueue_def newAdapterEventBatcher_def)
  moreover have "bt_phase (receive demo_batcher Append None (\<lambda>_. 7) ?b) = Running"
    "bt_timer (receive demo_batcher Append None (\<lambda>_. 7) ?b)"
    "\<not> bt_cancelled (receive demo_batcher Append None (\<lambda>_. 7) ?b)"
    by (simp_all add: receive_def Enqueue_def newAdapterEventBatcher_def maxEvents_def demo_batcher_def
        adapterEventBatchMaxEvents_def)
  ultimately have "?run [demo_item] demo_flushed" unfolding demo_flushed_def
    using batcher_run.timer [where clk = "\<lambda>_. 7"] by fastforce
  moreover have "map he_Seq (bt_broadcasts demo_flushed) = [Some 1]" by code_simp
  ultimately show ?thesis using batcher_publishes_durable [OF _ wf_initial] by blast
qed

text \<open>
  A send into the queue may still be chosen after the goroutine has drained the queue and returned:
  \<^verbatim>\<open>Enqueue\<close> then reports success, and the event is neither stored nor reported as lost.
\<close>

lemma late_enqueue_lost:
  "\<exists>b. batcher_run cfg store_append publish other d0 [new_item ev p] b \<and> bt_phase b = Stopped \<and>
     bt_queue b = [new_item ev p] \<and> bt_store b = d0 \<and> bt_broadcasts b = [] \<and> bt_errors b = []"
proof -
  let ?run = "batcher_run cfg store_append publish other d0" and ?b = "newAdapterEventBatcher d0"
  have "?run [] (?b\<lparr>bt_cancelled := True, bt_phase := Draining\<rparr>)"
    by (rule batcher_run.begin_drain [OF batcher_run.cancel [OF batcher_run.start]])
      (simp_all add: newAdapterEventBatcher_def)
  then have "?run [] ((flush_batch cfg store_append publish False (\<lambda>_. 0)
      (?b\<lparr>bt_cancelled := True, bt_phase := Draining\<rparr>))\<lparr>bt_phase := Stopped\<rparr>)"
    by (rule batcher_run.stop) (simp_all add: newAdapterEventBatcher_def)
  then have "?run [] (?b\<lparr>bt_cancelled := True, bt_phase := Stopped\<rparr>)"
    by (simp add: flush_batch_def newAdapterEventBatcher_def)
  from batcher_run.enqueue [OF this, of ev p] show ?thesis
    by (intro exI [of _ "Enqueue (new_item ev p) (?b\<lparr>bt_cancelled := True, bt_phase := Stopped\<rparr>)"])
      (simp add: newAdapterEventBatcher_def Enqueue_def)
qed

end
