(* ===== verification/Adapter_Authority.thy ===== *)
theory Adapter_Authority
  imports Store_Runs Event_Batcher
begin

text \<open>
  How the hub admits adapters and lets them act (\<^verbatim>\<open>hub/connection_dispatch.go\<close> and the
  registration of adapters in \<^verbatim>\<open>hub/websocket.go\<close>). An adapter connection is an object, so the hub
  has a heap of them, and its map of adapters refers to them by their address; \<^verbatim>\<open>CloseNow\<close> is
  remembered per object. The calls of the authenticator are parameters. Admissions of one session
  exclude each other and the effects of its registered adapter, so each function below is one step of
  the hub; what other sessions and other hubs do to the store before each of its store calls is a
  parameter. The hub is one that has an adapter authority. The loop that watches an adapter is a sequence
  of calls of \<^verbatim>\<open>validateAdapter\<close>; it asks the store and then the map of adapters, which the
  model takes as one step. Writing frames to sockets is not modelled, and neither is the time limit on
  the announcement of a hello (\<^verbatim>\<open>withAdapterAuthorityBudget\<close>): only its write may fail.
\<close>

section \<open>Data\<close>

record SessionCredentialLineage =
  li_Kind :: string
  li_AttachID :: string
  li_JTI :: string

record SessionCredentialEvidence =
  sc_SessionID :: string
  sc_Lineage :: SessionCredentialLineage
  sc_Generation :: int
  sc_RotationID :: string
  sc_RevocationID :: string
  sc_ExpiresAt :: gotime

record admittedAdapter =
  aa_admission :: AdapterConnectionAdmission
  aa_writer :: SettingsWriter

record adapterConnection =
  an_sessionID :: string
  an_provider :: string
  an_protocolVersion :: int
  an_contentMode :: string
  an_admission :: AdapterConnectionAdmission
  an_credentialEvidence :: SessionCredentialEvidence
  an_settingsWriter :: SettingsWriter

record hub =
  hb_db :: db
  hb_heap :: "adapterConnection list"
  hb_adapters :: "(string \<times> nat) list"
  hb_closed :: "nat list"

record Scope =
  sp_Kind :: string
  sp_ID :: string
  sp_Access :: string

record Principal =
  pl_Subject :: string
  pl_Scopes :: "Scope list"

record AcceptedPeer =
  ap_Role :: string
  ap_ProtocolVersion :: int
  ap_Principal :: Principal
  ap_SessionID :: string
  ap_Provider :: string
  ap_ContentMode :: string

record HelloReceipt =
  hr_SessionID :: string
  hr_ConnectionEpoch :: int
  hr_CredentialGeneration :: int
  hr_AcceptedFence :: int
  hr_WriterLeaseID :: string
  hr_ExpiresAt :: int

record BootstrapAuthority =
  ba_SessionID :: string
  ba_Provider :: string
  ba_CredentialGeneration :: int
  ba_ConnectionEpoch :: int
  ba_AcceptedFence :: int
  ba_Live :: bool

definition errAdapterAuthorityLost :: err where
  "errAdapterAuthorityLost = Fail ''adapter authority lost''"

definition ErrUnauthorized :: err where
  "ErrUnauthorized = Fail ''unauthorized''"

definition new_hub :: "db \<Rightarrow> hub" where
  "new_hub d = \<lparr>hb_db = d, hb_heap = [], hb_adapters = [], hb_closed = []\<rparr>"

text \<open>What others do to the store before the store calls of a function, and every error as one.\<close>

type_synonym others = "nat \<Rightarrow> db \<Rightarrow> db"

definition after_others :: "(db \<Rightarrow> db) \<Rightarrow> (db, 'a) prog \<Rightarrow> (db, 'a) prog" where
  "after_others other p d = p (other d)"

definition or_lost :: "(db, 'a) prog \<Rightarrow> (db, 'a) prog" where
  "or_lost p d = (case p d of (d', Inl e) \<Rightarrow> (d', Inl errAdapterAuthorityLost) | (d', Inr x) \<Rightarrow> (d', Inr x))"

section \<open>Admission\<close>

definition authenticate ::
  "(string \<Rightarrow> Principal \<Rightarrow> string \<Rightarrow> (int \<times> int \<times> bool) res) \<Rightarrow> gotime \<Rightarrow> string \<Rightarrow> Principal \<Rightarrow> string \<Rightarrow> (int \<times> gotime \<times> bool) res" where
  "authenticate adapterCredential now token peer sid =
     (case adapterCredential token peer sid of
        Inl e \<Rightarrow> Inl errAdapterAuthorityLost
      | Inr (generation, expiresAt, allowInitialize) \<Rightarrow>
          if generation < 1 \<or> expiresAt \<le> now then Inl errAdapterAuthorityLost
          else Inr (generation, expiresAt, allowInitialize))"

definition admit_initialize ::
  "others \<Rightarrow> (nat \<Rightarrow> clock) \<Rightarrow> string \<Rightarrow> int \<Rightarrow> gotime \<Rightarrow> (db, unit) prog" where
  "admit_initialize other clk sid generation expiresAt d =
     (let d = other 0 d in
      case AdapterConnection sid (clk 0 0) d of
        Inr c \<Rightarrow> (d, Inr ())
      | Inl e \<Rightarrow>
          pbind (after_others (other 1) (InitializeAdapterConnection
            \<lparr>ai_SessionID = sid, ai_ActiveCredentialGeneration = generation,
             ai_ActiveCredentialExpiresAt = expiresAt\<rparr> (clk 1))) (\<lambda>c. pret ()) d)"

text \<open>The random lease identifier, or the failure to make one, is a parameter.\<close>

definition admit ::
  "others \<Rightarrow> string res \<Rightarrow> gotime \<Rightarrow> (nat \<Rightarrow> clock) \<Rightarrow> string \<Rightarrow> int \<Rightarrow> gotime \<Rightarrow> bool \<Rightarrow> (db, admittedAdapter) prog" where
  "admit other newLeaseID now clk sid generation expiresAt allowInitialize =
     (if generation < 1 \<or> \<not> now < expiresAt then pfail errAdapterAuthorityLost
      else or_lost (
        pbind (if allowInitialize then admit_initialize other clk sid generation expiresAt else pret ()) (\<lambda>_.
        pbind (pget (\<lambda>_. newLeaseID)) (\<lambda>leaseID.
        pbind (after_others (other 2) (AcceptAdapterHello sid
          \<lparr>ah_CredentialGeneration = generation, ah_WriterLeaseID = leaseID\<rparr> (clk 2))) (\<lambda>connection.
        pbind (after_others (other 3) AllocateAdapterGrantFence) (\<lambda>grantFence.
        pret \<lparr>aa_admission = \<lparr>am_CredentialGeneration = generation,
                am_ConnectionEpoch = ad_ConnectionEpoch connection,
                am_AcceptedFence = ad_AcceptedFence connection, am_GrantFence = grantFence\<rparr>,
              aa_writer = \<lparr>w_ConnectionEpoch = ad_ConnectionEpoch connection,
                w_CredentialGeneration = generation, w_LeaseID = leaseID\<rparr>\<rparr>))))))"

definition validAdapterCredentialLineage :: "SessionCredentialLineage \<Rightarrow> bool" where
  "validAdapterCredentialLineage lineage =
     (if li_Kind lineage = ''bootstrap_initial'' then li_AttachID lineage = [] \<and> li_JTI lineage = []
      else if li_Kind lineage = ''target_attach'' then li_AttachID lineage \<noteq> [] \<and> li_JTI lineage \<noteq> []
      else if li_Kind lineage = ''target_rotation'' then li_AttachID lineage \<noteq> [] \<and> li_JTI lineage = []
      else False)"

definition resolveAdapterCredentialEvidence ::
  "(string \<Rightarrow> SessionCredentialEvidence res) option \<Rightarrow> string \<Rightarrow> string \<Rightarrow> int \<Rightarrow> gotime \<Rightarrow> SessionCredentialEvidence res" where
  "resolveAdapterCredentialEvidence resolver bearer sid generation credentialExpiresAt =
     (case resolver of
        None \<Rightarrow> Inl ErrUnauthorized
      | Some evidence_of \<Rightarrow>
          (case evidence_of bearer of
             Inl e \<Rightarrow> Inl ErrUnauthorized
           | Inr evidence \<Rightarrow>
               if sc_SessionID evidence \<noteq> sid \<or> sc_Generation evidence \<noteq> generation \<or>
                  sc_ExpiresAt evidence \<noteq> credentialExpiresAt \<or> \<not> validAdapterCredentialLineage (sc_Lineage evidence)
               then Inl ErrUnauthorized else Inr evidence))"

text \<open>The result is the address of the new adapter, or none for a peer that is not an adapter.\<close>

definition registerAdapter ::
  "(string \<Rightarrow> Principal \<Rightarrow> string \<Rightarrow> (int \<times> int \<times> bool) res) \<Rightarrow> (string \<Rightarrow> SessionCredentialEvidence res) option \<Rightarrow>
   others \<Rightarrow> string res \<Rightarrow> gotime \<Rightarrow> (nat \<Rightarrow> clock) \<Rightarrow> AcceptedPeer \<Rightarrow> string \<Rightarrow> (hub, nat option) prog" where
  "registerAdapter adapterCredential resolver other newLeaseID now clk accepted token h =
     (let sid = ap_SessionID accepted in
      if ap_Role accepted \<noteq> ''adapter'' then (h, Inr None)
      else case authenticate adapterCredential now token (ap_Principal accepted) sid of
        Inl e \<Rightarrow> (h, Inl e)
      | Inr (generation, credentialExpiresAt, allowInitialize) \<Rightarrow>
          (case resolveAdapterCredentialEvidence resolver token sid generation credentialExpiresAt of
             Inl e \<Rightarrow> (h, Inl errAdapterAuthorityLost)
           | Inr evidence \<Rightarrow>
               (case admit other newLeaseID now clk sid generation credentialExpiresAt allowInitialize (hb_db h) of
                  (d, Inl e) \<Rightarrow> (h\<lparr>hb_db := d\<rparr>, Inl e)
                | (d, Inr ad) \<Rightarrow>
                    (h\<lparr>hb_db := d, hb_heap := hb_heap h @ [\<lparr>an_sessionID = sid, an_provider = ap_Provider accepted,
                         an_protocolVersion = ap_ProtocolVersion accepted, an_contentMode = ap_ContentMode accepted,
                         an_admission = aa_admission ad, an_credentialEvidence = evidence,
                         an_settingsWriter = aa_writer ad\<rparr>]\<rparr>, Inr (Some (length (hb_heap h)))))))"

section \<open>Publication and removal of an adapter\<close>

abbreviation adapter_at :: "hub \<Rightarrow> nat \<Rightarrow> adapterConnection" where
  "adapter_at h i \<equiv> hb_heap h ! i"

definition issueConnectionAuthorityReceipt :: "gotime \<Rightarrow> clock \<Rightarrow> adapterConnection \<Rightarrow> db \<Rightarrow> HelloReceipt res" where
  "issueConnectionAuthorityReceipt now clk adapter d =
     (case IssueAdapterConnectionAuthorityReceipt (an_sessionID adapter) (an_admission adapter) (an_settingsWriter adapter) clk d of
        Inl e \<Rightarrow> Inl errAdapterAuthorityLost
      | Inr proof_rec \<Rightarrow>
          if cr_SessionID proof_rec \<noteq> an_sessionID adapter \<or>
             cr_ConnectionEpoch proof_rec \<noteq> am_ConnectionEpoch (an_admission adapter) \<or>
             cr_CredentialGeneration proof_rec \<noteq> am_CredentialGeneration (an_admission adapter) \<or>
             cr_AcceptedFence proof_rec \<noteq> am_AcceptedFence (an_admission adapter) \<or>
             cr_WriterLeaseID proof_rec \<noteq> w_LeaseID (an_settingsWriter adapter) \<or> \<not> now < cr_ExpiresAt proof_rec
          then Inl errAdapterAuthorityLost
          else Inr \<lparr>hr_SessionID = cr_SessionID proof_rec, hr_ConnectionEpoch = cr_ConnectionEpoch proof_rec,
                 hr_CredentialGeneration = cr_CredentialGeneration proof_rec, hr_AcceptedFence = cr_AcceptedFence proof_rec,
                 hr_WriterLeaseID = cr_WriterLeaseID proof_rec, hr_ExpiresAt = UnixMilli (cr_ExpiresAt proof_rec)\<rparr>)"

text \<open>
  The acknowledgement is a writer of the frame, given the receipt it carries, that may fail. The result
  has the acknowledgements handed to the writer.
\<close>

definition hello_effect ::
  "others \<Rightarrow> gotime \<Rightarrow> (nat \<Rightarrow> clock) \<Rightarrow> (HelloReceipt option \<Rightarrow> err option) option \<Rightarrow> adapterConnection \<Rightarrow>
   db \<Rightarrow> db \<times> HelloReceipt option list \<times> unit res" where
  "hello_effect other now clk ack adapter d =
     (let d = other 0 d in
      case ValidateAdapterAdmission (an_sessionID adapter) (an_admission adapter) (clk 0 0) d of
        Inl e \<Rightarrow> (d, [], Inl errAdapterAuthorityLost)
      | Inr c \<Rightarrow>
          (case ack of
             None \<Rightarrow> (d, [], Inr ())
           | Some write \<Rightarrow>
               let d = (if an_protocolVersion adapter = 2 then other 1 d else d) in
               case (if an_protocolVersion adapter = 2
                     then res_bind (issueConnectionAuthorityReceipt now (clk 1) adapter d) (\<lambda>r. Inr (Some r))
                     else Inr None) of
                 Inl e \<Rightarrow> (d, [], Inl errAdapterAuthorityLost)
               | Inr receipt \<Rightarrow>
                   (d, [receipt], case write receipt of Some e \<Rightarrow> Inl e | None \<Rightarrow> Inr ())))"

definition publishAdapterHello ::
  "others \<Rightarrow> gotime \<Rightarrow> (nat \<Rightarrow> clock) \<Rightarrow> (HelloReceipt option \<Rightarrow> err option) option \<Rightarrow> nat \<Rightarrow>
   hub \<Rightarrow> hub \<times> HelloReceipt option list \<times> unit res" where
  "publishAdapterHello other now clk ack i h =
     (let sid = an_sessionID (adapter_at h i); previous = map_of (hb_adapters h) sid in
      case hello_effect other now clk ack (adapter_at h i) (hb_db h) of
        (d, acks, Inl e) \<Rightarrow> (h\<lparr>hb_db := d\<rparr>, acks, Inl e)
      | (d, acks, Inr _) \<Rightarrow>
          (h\<lparr>hb_db := d, hb_adapters := AList.update sid i (hb_adapters h),
             hb_closed := (case previous of None \<Rightarrow> [] | Some p \<Rightarrow> [p]) @ hb_closed h\<rparr>, acks, Inr ()))"

definition removeAdapter :: "nat \<Rightarrow> hub \<Rightarrow> hub" where
  "removeAdapter i h =
     (let sid = an_sessionID (adapter_at h i) in
      if map_of (hb_adapters h) sid = Some i then h\<lparr>hb_adapters := AList.delete sid (hb_adapters h)\<rparr> else h)"

definition rejectAdapter :: "nat \<Rightarrow> hub \<Rightarrow> hub" where
  "rejectAdapter i h = (let h = removeAdapter i h in h\<lparr>hb_closed := i # hb_closed h\<rparr>)"

text \<open>The bootstrap authority of an attach grant, of which the session, the provider and the fence matter.\<close>

definition CurrentBootstrapAuthority :: "string \<Rightarrow> string \<Rightarrow> int \<Rightarrow> int \<Rightarrow> hub \<Rightarrow> BootstrapAuthority res" where
  "CurrentBootstrapAuthority sid provider grantFence now h =
     (case map_of (hb_adapters h) sid of
        None \<Rightarrow> Inl ErrUnauthorized
      | Some i \<Rightarrow>
          let adapter = adapter_at h i; admission = an_admission adapter in
          if an_provider adapter \<noteq> provider then Inl ErrUnauthorized
          else case ValidateAdapterAdmission sid
              \<lparr>am_CredentialGeneration = am_CredentialGeneration admission,
               am_ConnectionEpoch = am_ConnectionEpoch admission,
               am_AcceptedFence = am_AcceptedFence admission, am_GrantFence = grantFence\<rparr> now (hb_db h) of
            Inl e \<Rightarrow> Inl ErrUnauthorized
          | Inr c \<Rightarrow> Inr \<lparr>ba_SessionID = sid, ba_Provider = an_provider adapter,
              ba_CredentialGeneration = am_CredentialGeneration admission,
              ba_ConnectionEpoch = am_ConnectionEpoch admission,
              ba_AcceptedFence = am_AcceptedFence admission, ba_Live = True\<rparr>)"

section \<open>Effects of an adapter\<close>

text \<open>A store call under a cancelled context fails.\<close>

definition validateAdapter :: "bool \<Rightarrow> int \<Rightarrow> nat \<Rightarrow> (hub, unit) prog" where
  "validateAdapter ctx_done now i h =
     (let adapter = adapter_at h i;
          authorityErr = ctx_done \<or> \<not> is_ok (ValidateAdapterAdmission (an_sessionID adapter) (an_admission adapter) now (hb_db h));
          current = (map_of (hb_adapters h) (an_sessionID adapter) = Some i)
      in if authorityErr \<or> \<not> current then (rejectAdapter i h, Inl errAdapterAuthorityLost) else (h, Inr ()))"

definition withAdapterEffect :: "bool \<Rightarrow> int \<Rightarrow> nat \<Rightarrow> (hub, 'a) prog \<Rightarrow> (hub, 'a) prog" where
  "withAdapterEffect ctx_done now i effect = pbind (validateAdapter ctx_done now i) (\<lambda>_. effect)"

text \<open>
  Entering the publication gate of the session fails only for a cancelled context, and then only when
  the caller had to wait; whether it did is a parameter.
\<close>

definition withSessionPublication :: "bool \<Rightarrow> bool \<Rightarrow> (hub, 'a) prog \<Rightarrow> (hub, 'a) prog" where
  "withSessionPublication ctx_done waited effect =
     (if ctx_done \<and> waited then pfail (Fail ''context canceled'') else effect)"

definition append_events :: "(db \<Rightarrow> db) \<Rightarrow> bool \<Rightarrow> nat \<Rightarrow> PendingEvent list \<Rightarrow> clock \<Rightarrow> (hub, int) prog" where
  "append_events other encrypted i events clk h =
     (let adapter = adapter_at h i in
      case (if encrypted then AppendEncryptedAdapterEvents else AppendAdapterEvents)
          (an_sessionID adapter) (an_admission adapter) events clk (other (hb_db h)) of
        (d, r) \<Rightarrow> (h\<lparr>hb_db := d\<rparr>, r))"

definition fenced_Append ::
  "(clock \<Rightarrow> db \<Rightarrow> db) \<Rightarrow> (clock \<Rightarrow> bool) \<Rightarrow> bool \<Rightarrow> nat \<Rightarrow> bool \<Rightarrow> PendingEvent list \<Rightarrow> clock \<Rightarrow> (hub, int) prog" where
  "fenced_Append other waited encrypted i ctx_done events clk =
     withSessionPublication ctx_done (waited clk)
       (withAdapterEffect ctx_done (clk 0) i
         (append_events (other clk) encrypted i events (\<lambda>n. clk (Suc n))))"

definition fenced_publish ::
  "(clock \<Rightarrow> db \<Rightarrow> db) \<Rightarrow> (clock \<Rightarrow> bool) \<Rightarrow> bool \<Rightarrow> nat \<Rightarrow> bool \<Rightarrow> pendingAdapterEvent list \<Rightarrow> clock \<Rightarrow>
   hub \<Rightarrow> hub \<times> protocol_event list \<times> unit res" where
  "fenced_publish other waited encrypted i ctx_done batch clk h =
     (case withSessionPublication ctx_done (waited clk)
        (withAdapterEffect ctx_done (clk 0) i
          (append_events (other clk) encrypted i (map pa_pending batch) (\<lambda>n. clk (Suc n)))) h of
        (h, Inl e) \<Rightarrow> (h, [], Inl e)
      | (h, Inr firstSeq) \<Rightarrow> (h, with_seqs firstSeq batch, Inr ()))"

text \<open>The configuration of the batcher that a registered adapter gets.\<close>

definition adapter_batcher :: "adapterConnection \<Rightarrow> batcher_config" where
  "adapter_batcher adapter =
     \<lparr>bc_SessionID = an_sessionID adapter, bc_MaxEvents = adapterEventBatchMaxEvents,
      bc_Broadcast = True, bc_ReportError = True\<rparr>"

section \<open>Lives of a hub\<close>

definition others_ok :: "('k \<Rightarrow> db \<Rightarrow> db) \<Rightarrow> bool" where
  "others_ok other \<longleftrightarrow> (\<forall>k d. store_run d (other k d))"

inductive hub_step :: "hub \<Rightarrow> hub \<Rightarrow> bool" where
  store: "hub_step h (h\<lparr>hb_db := perform c clk (hb_db h)\<rparr>)"
| register: "others_ok other \<Longrightarrow>
    hub_step h (fst (registerAdapter adapterCredential resolver other newLeaseID now clk accepted token h))"
| hello: "others_ok other \<Longrightarrow> i < length (hb_heap h) \<Longrightarrow> hub_step h (fst (publishAdapterHello other now clk ack i h))"
| reject: "i < length (hb_heap h) \<Longrightarrow> hub_step h (rejectAdapter i h)"
| unregister: "i < length (hb_heap h) \<Longrightarrow> hub_step h (removeAdapter i h)"
| watch: "i < length (hb_heap h) \<Longrightarrow> hub_step h (fst (validateAdapter ctx_done now i h))"
| append: "others_ok other \<Longrightarrow> i < length (hb_heap h) \<Longrightarrow>
    hub_step h (fst (fenced_Append other waited encrypted i ctx_done events clk h))"
| publish: "others_ok other \<Longrightarrow> i < length (hb_heap h) \<Longrightarrow>
    hub_step h (fst (fenced_publish other waited encrypted i ctx_done batch clk h))"

inductive hub_run :: "hub \<Rightarrow> bool" where
  start: "reachable d \<Longrightarrow> hub_run (new_hub d)"
| step: "hub_run h \<Longrightarrow> hub_step h h' \<Longrightarrow> hub_run h'"

section \<open>Epochs\<close>

text \<open>An adapter's admission is not ahead of its session's row; a later row outdates it for good.\<close>

definition issued :: "db \<Rightarrow> string \<Rightarrow> int \<Rightarrow> bool" where
  "issued d sid epoch \<longleftrightarrow> (\<exists>c. map_of (session_adapter_connections d) sid = Some c \<and> epoch \<le> cn_epoch c)"

abbreviation epoch_of :: "adapterConnection \<Rightarrow> int" where
  "epoch_of a \<equiv> am_ConnectionEpoch (an_admission a)"

definition adapters_ok :: "adapterConnection list \<Rightarrow> (string \<rightharpoonup> nat) \<Rightarrow> bool" where
  "adapters_ok heap m \<longleftrightarrow> (\<forall>sid i. m sid = Some i \<longrightarrow> i < length heap \<and> an_sessionID (heap ! i) = sid)"

definition hub_ok :: "hub \<Rightarrow> bool" where
  "hub_ok h \<longleftrightarrow> wf (hb_db h) \<and>
     (\<forall>a \<in> set (hb_heap h). issued (hb_db h) (an_sessionID a) (epoch_of a)) \<and>
     (\<forall>j < length (hb_heap h). \<forall>i < j. an_sessionID (adapter_at h i) = an_sessionID (adapter_at h j) \<longrightarrow>
        epoch_of (adapter_at h i) < epoch_of (adapter_at h j)) \<and>
     adapters_ok (hb_heap h) (map_of (hb_adapters h))"

lemma adapters_ok_change:
  "adapters_ok heap m \<Longrightarrow> adapters_ok heap (m(sid := None))"
  "adapters_ok heap m \<Longrightarrow> i < length heap \<Longrightarrow> adapters_ok heap (m(an_sessionID (heap ! i) \<mapsto> i))"
  "adapters_ok heap m \<Longrightarrow> adapters_ok (heap @ rest) m"
  unfolding adapters_ok_def by (force simp: nth_append split: if_splits)+

lemma others_step: "others_ok other \<Longrightarrow> store_step d (other k d)"
  by (simp add: others_ok_def store_run_step)

lemma issued_step:
  assumes "issued d sid n" "store_step d d'" shows "issued d' sid n"
proof -
  obtain c where c: "map_of (session_adapter_connections d) sid = Some c" "n \<le> cn_epoch c"
    using assms(1) by (auto simp: issued_def)
  then obtain c' where "map_of (session_adapter_connections d') sid = Some c'" "conn_prog c c'"
    using store_step_tables(6) [OF assms(2)] unfolding tab_step_def by blast
  then show ?thesis using c(2) by (auto simp: issued_def conn_prog_def)
qed

lemma outdated_refused:
  assumes "issued d sid n" "am_ConnectionEpoch a < n" "store_step d d'"
  shows "ValidateAdapterAdmission sid a now d' \<noteq> Inr x"
proof -
  obtain c where "map_of (session_adapter_connections d) sid = Some c" "stale a c"
    using assms(1,2) by (auto simp: issued_def stale_def)
  then show ?thesis by (rule stale_stays [OF assms(3)])
qed

lemma or_lost_ok [simp]: "or_lost p d = (d', Inr x) \<longleftrightarrow> p d = (d', Inr x)"
  by (auto simp: or_lost_def split: prod.splits sum.splits)

lemma fst_or_lost [simp]: "fst (or_lost p d) = fst (p d)"
  by (auto simp: or_lost_def split: prod.splits sum.splits)

lemma after_others_step:
  "others_ok other \<Longrightarrow> (\<And>d. store_step d (fst (p d))) \<Longrightarrow> store_step d (fst (after_others (other k) p d))"
  unfolding after_others_def by (rule store_step_trans [OF others_step])

lemma admit_initialize_step:
  assumes "others_ok other" shows "store_step d (fst (admit_initialize other clk sid gen expires d))"
proof -
  have "store_step e (fst (pbind (after_others (other 1) (InitializeAdapterConnection q (clk 1))) (\<lambda>c. pret ()) e))" for q e
    by (intro pbind_step after_others_step assms connection_ops_step prog_step)
  then show ?thesis
    using others_step [OF assms, of d 0]
    by (auto simp: admit_initialize_def Let_def split: sum.splits intro: store_step_trans)
qed

lemma admit_step:
  assumes "others_ok other"
  shows "store_step d (fst (admit other lease now clk sid gen expires allow d))"
  unfolding admit_def
  by (auto intro!: pbind_step after_others_step assms connection_ops_step(4) allocate_fence_step admit_initialize_step)

lemma admit_ok:
  assumes others: "others_ok other" and ok: "admit other lease now clk sid gen expires allow d = (d', Inr ad)"
  obtains d1 d2 c leaseID where
    "store_step d d1" "AcceptAdapterHello sid \<lparr>ah_CredentialGeneration = gen, ah_WriterLeaseID = leaseID\<rparr> (clk 2) d1 = (d2, Inr c)"
    "AllocateAdapterGrantFence (other 3 d2) = (d', Inr (am_GrantFence (aa_admission ad)))"
    "am_ConnectionEpoch (aa_admission ad) = ad_ConnectionEpoch c" "am_AcceptedFence (aa_admission ad) = ad_AcceptedFence c"
    "am_CredentialGeneration (aa_admission ad) = gen" "1 \<le> gen"
proof -
  let ?init = "if allow then admit_initialize other clk sid gen expires else pret ()"
  obtain d0 leaseID d2 c f where run: "?init d = (d0, Inr ())"
    "AcceptAdapterHello sid \<lparr>ah_CredentialGeneration = gen, ah_WriterLeaseID = leaseID\<rparr> (clk 2) (other 2 d0) = (d2, Inr c)"
    "AllocateAdapterGrantFence (other 3 d2) = (d', Inr f)" "1 \<le> gen"
    "ad = \<lparr>aa_admission = \<lparr>am_CredentialGeneration = gen, am_ConnectionEpoch = ad_ConnectionEpoch c,
        am_AcceptedFence = ad_AcceptedFence c, am_GrantFence = f\<rparr>,
      aa_writer = \<lparr>w_ConnectionEpoch = ad_ConnectionEpoch c, w_CredentialGeneration = gen, w_LeaseID = leaseID\<rparr>\<rparr>"
    using ok by (auto simp: admit_def pbind_ok prog_ok_simps after_others_def split: if_splits)
  have "store_step d (fst (?init d))" using admit_initialize_step [OF others] by simp
  then have "store_step d (other 2 d0)" using run(1) others_step [OF others] by (auto intro: store_step_trans)
  then show ?thesis using that run by simp
qed

lemma admit_epoch:
  assumes others: "others_ok other" and ok: "admit other lease now clk sid gen expires allow d = (d', Inr ad)"
  shows "issued d' sid (am_ConnectionEpoch (aa_admission ad))"
    "issued d sid n \<Longrightarrow> n < am_ConnectionEpoch (aa_admission ad)"
proof -
  from admit_ok [OF others ok] obtain d1 d2 c leaseID where run: "store_step d d1"
    "AcceptAdapterHello sid \<lparr>ah_CredentialGeneration = gen, ah_WriterLeaseID = leaseID\<rparr> (clk 2) d1 = (d2, Inr c)"
    "AllocateAdapterGrantFence (other 3 d2) = (d', Inr (am_GrantFence (aa_admission ad)))"
    "am_ConnectionEpoch (aa_admission ad) = ad_ConnectionEpoch c" by metis
  from run(2) obtain row where row: "map_of (session_adapter_connections d1) sid = Some row"
    "ad_ConnectionEpoch c = cn_epoch row + 1"
    "map_of (session_adapter_connections d2) sid \<noteq> None \<and> cn_epoch (the (map_of (session_adapter_connections d2) sid)) = cn_epoch row + 1"
  proof (cases rule: hello_ok)
    case (1 row)
    show ?thesis
      by (rule that [OF 1(1)]) (use bind_writer_ok [OF 1(8)] 1(7) in \<open>auto simp: row_connection_def same_authority_def update_conv'\<close>)
  qed
  have "issued d2 sid (cn_epoch row + 1)" using row(3) by (auto simp: issued_def)
  then have "issued (other 3 d2) sid (cn_epoch row + 1)" by (rule issued_step [OF _ others_step [OF others]])
  moreover have "store_step (other 3 d2) d'" using allocate_fence_step [of "other 3 d2"] run(3) by simp
  ultimately have "issued d' sid (cn_epoch row + 1)" by (rule issued_step)
  then show "issued d' sid (am_ConnectionEpoch (aa_admission ad))" using run(4) row(2) by simp
  show "n < am_ConnectionEpoch (aa_admission ad)" if "issued d sid n"
    using issued_step [OF that run(1)] row(1,2) run(4) by (simp add: issued_def)
qed

section \<open>The hub's invariant\<close>

lemma hub_ok_store: "hub_ok h \<Longrightarrow> store_step (hb_db h) d \<Longrightarrow> hub_ok (h\<lparr>hb_db := d\<rparr>)"
  by (auto simp: hub_ok_def intro: store_step_wf issued_step)

lemma hub_ok_closed: "hub_ok (h\<lparr>hb_closed := is\<rparr>) \<longleftrightarrow> hub_ok h"
  by (simp add: hub_ok_def)

lemma remove_ok: "hub_ok h \<Longrightarrow> hub_ok (removeAdapter i h)"
  unfolding hub_ok_def removeAdapter_def Let_def by (simp add: delete_conv' adapters_ok_change)

lemma reject_ok: "hub_ok h \<Longrightarrow> hub_ok (rejectAdapter i h)"
  by (simp add: rejectAdapter_def Let_def hub_ok_closed remove_ok)

lemma reject_frame [simp]:
  "hb_db (removeAdapter i h) = hb_db h" "hb_db (rejectAdapter i h) = hb_db h"
  "hb_heap (removeAdapter i h) = hb_heap h" "hb_heap (rejectAdapter i h) = hb_heap h"
  by (simp_all add: removeAdapter_def rejectAdapter_def Let_def)

lemma rejected: "i \<in> set (hb_closed (rejectAdapter i h))"
  "map_of (hb_adapters (rejectAdapter i h)) (an_sessionID (adapter_at h i)) \<noteq> Some i"
  by (auto simp: rejectAdapter_def removeAdapter_def Let_def delete_conv')

lemma validate_cases:
  obtains (lost) "validateAdapter ctx_done now i h = (rejectAdapter i h, Inl errAdapterAuthorityLost)"
  | (current) c where "validateAdapter ctx_done now i h = (h, Inr ())"
      "ValidateAdapterAdmission (an_sessionID (adapter_at h i)) (an_admission (adapter_at h i)) now (hb_db h) = Inr c"
      "map_of (hb_adapters h) (an_sessionID (adapter_at h i)) = Some i"
proof (cases "ctx_done \<or> \<not> is_ok (ValidateAdapterAdmission (an_sessionID (adapter_at h i)) (an_admission (adapter_at h i)) now (hb_db h)) \<or>
    map_of (hb_adapters h) (an_sessionID (adapter_at h i)) \<noteq> Some i")
  case True
  then have "validateAdapter ctx_done now i h = (rejectAdapter i h, Inl errAdapterAuthorityLost)"
    by (auto simp: validateAdapter_def Let_def)
  then show ?thesis by (rule lost)
next
  case False
  then obtain c where
    "ValidateAdapterAdmission (an_sessionID (adapter_at h i)) (an_admission (adapter_at h i)) now (hb_db h) = Inr c"
    by (auto simp: is_ok_iff)
  moreover have "validateAdapter ctx_done now i h = (h, Inr ())" using False by (simp add: validateAdapter_def Let_def)
  ultimately show ?thesis using False current by blast
qed

lemma append_events_eq:
  "append_events other encrypted i events clk h =
     (case appendAdapterEvents (an_sessionID (adapter_at h i)) (an_admission (adapter_at h i)) events encrypted clk (other (hb_db h)) of
        (d, r) \<Rightarrow> (h\<lparr>hb_db := d\<rparr>, r))"
  by (simp add: append_events_def Let_def AppendEncryptedAdapterEvents_def AppendAdapterEvents_def)

lemma append_events_run:
  assumes "others_ok other"
  obtains d r where "append_events (other k) encrypted i events clk h = (h\<lparr>hb_db := d\<rparr>, r)" "store_step (hb_db h) d"
proof -
  let ?a = "adapter_at h i"
  obtain d r where run: "appendAdapterEvents (an_sessionID ?a) (an_admission ?a) events encrypted clk (other k (hb_db h)) = (d, r)" by force
  have "store_step (hb_db h) d"
    using store_step_trans [OF others_step [OF assms, of "hb_db h" k] appendAdapterEvents_step] run by (metis fst_conv)
  then show ?thesis
    using that run by (simp add: append_events_eq)
qed

lemma fenced_cases:
  assumes "others_ok other"
  obtains (refused) e where "fenced_Append other waited encrypted i ctx_done events clk h = (h, Inl e)"
  | (lost) "fenced_Append other waited encrypted i ctx_done events clk h = (rejectAdapter i h, Inl errAdapterAuthorityLost)"
  | (ran) d r c where "fenced_Append other waited encrypted i ctx_done events clk h = (h\<lparr>hb_db := d\<rparr>, r)"
      "store_step (hb_db h) d"
      "append_events (other clk) encrypted i events (\<lambda>n. clk (Suc n)) h = (h\<lparr>hb_db := d\<rparr>, r)"
      "ValidateAdapterAdmission (an_sessionID (adapter_at h i)) (an_admission (adapter_at h i)) (clk 0) (hb_db h) = Inr c"
proof (cases "ctx_done \<and> waited clk")
  case True
  then have "fenced_Append other waited encrypted i ctx_done events clk h = (h, Inl (Fail ''context canceled''))"
    by (simp add: fenced_Append_def withSessionPublication_def pfail_def)
  then show ?thesis by (rule refused)
next
  case False
  then have run: "fenced_Append other waited encrypted i ctx_done events clk h =
      pbind (validateAdapter ctx_done (clk 0) i) (\<lambda>_. append_events (other clk) encrypted i events (\<lambda>n. clk (Suc n))) h"
    by (auto simp: fenced_Append_def withSessionPublication_def withAdapterEffect_def)
  show ?thesis
  proof (cases rule: validate_cases [where ctx_done = ctx_done and now = "clk 0" and i = i and h = h])
    case lost
    show ?thesis by (rule that(2)) (simp add: run pbind_def lost)
  next
    case (current c)
    obtain d r where app: "append_events (other clk) encrypted i events (\<lambda>n. clk (Suc n)) h = (h\<lparr>hb_db := d\<rparr>, r)"
      "store_step (hb_db h) d" using assms by (rule append_events_run)
    show ?thesis by (rule ran [OF _ app(2,1) current(2)]) (simp add: run pbind_def current(1) app(1))
  qed
qed

lemma publish_Append:
  "fenced_publish other waited encrypted i ctx_done batch clk h =
     (case fenced_Append other waited encrypted i ctx_done (map pa_pending batch) clk h of
        (h, Inl e) \<Rightarrow> (h, [], Inl e) | (h, Inr n) \<Rightarrow> (h, with_seqs n batch, Inr ()))"
  by (simp add: fenced_publish_def fenced_Append_def)

lemma fst_publish: "fst (fenced_publish other waited encrypted i ctx_done batch clk h) =
    fst (fenced_Append other waited encrypted i ctx_done (map pa_pending batch) clk h)"
  by (simp add: publish_Append split: prod.splits sum.splits)

lemma fenced_ok:
  assumes "others_ok other" "hub_ok h"
  shows "hub_ok (fst (fenced_Append other waited encrypted i ctx_done events clk h))"
  using assms(1)
  by (cases rule: fenced_cases [where waited = waited and encrypted = encrypted and i = i and ctx_done = ctx_done
        and events = events and clk = clk and h = h])
    (use assms(2) in \<open>auto intro: reject_ok hub_ok_store\<close>)

lemma hello_effect_step:
  "others_ok other \<Longrightarrow> store_step d (fst (hello_effect other now clk ack a d))"
  by (auto simp: hello_effect_def Let_def split: sum.splits option.splits intro: others_step store_step_trans)

lemma hello_ok_hub:
  assumes "others_ok other" "hub_ok h" "i < length (hb_heap h)"
  shows "hub_ok (fst (publishAdapterHello other now clk ack i h))"
proof -
  obtain d acks r where run: "hello_effect other now clk ack (adapter_at h i) (hb_db h) = (d, acks, r)" by (rule prod_cases3)
  have "hub_ok (h\<lparr>hb_db := d\<rparr>)"
    using hub_ok_store [OF assms(2)] hello_effect_step [OF assms(1), of "hb_db h" now clk ack "adapter_at h i"] run by simp
  then show ?thesis
    using run assms(3) by (cases r) (simp_all add: publishAdapterHello_def Let_def hub_ok_def update_conv' adapters_ok_change)
qed

lemma register_ok:
  assumes others: "others_ok other" and ok: "hub_ok h"
  shows "hub_ok (fst (registerAdapter adapterCredential resolver other lease now clk accepted token h))"
proof -
  have new: "hub_ok (h\<lparr>hb_db := d, hb_heap := hb_heap h @ [a]\<rparr>)"
    if ad: "admit other lease now clk sid gen expires allow (hb_db h) = (d, Inr ad)"
      and a: "an_sessionID a = sid" "an_admission a = aa_admission ad" for d ad a sid gen expires allow
  proof -
    note epoch = admit_epoch [OF others ad]
    have "hub_ok (h\<lparr>hb_db := d\<rparr>)"
      using hub_ok_store [OF ok] admit_step [OF others, of "hb_db h" lease now clk sid gen expires allow] ad by simp
    moreover have "epoch_of (adapter_at h i) < epoch_of a" if "i < length (hb_heap h)" "an_sessionID (adapter_at h i) = sid" for i
      using epoch(2) [of "epoch_of (adapter_at h i)"] ok that a by (auto simp: hub_ok_def)
    ultimately show ?thesis using epoch(1) a
      by (auto simp: hub_ok_def nth_append less_Suc_eq adapters_ok_change)
  qed
  have kept: "hub_ok (h\<lparr>hb_db := d\<rparr>)"
    if "admit other lease now clk sid gen expires allow (hb_db h) = (d, r)" for d r sid gen expires allow
    using hub_ok_store [OF ok] admit_step [OF others, of "hb_db h" lease now clk sid gen expires allow] that by simp
  show ?thesis
    unfolding registerAdapter_def Let_def
    using ok by (auto split: sum.splits prod.splits intro: kept new)
qed

lemma hub_step_ok: "hub_step h h' \<Longrightarrow> hub_ok h \<Longrightarrow> hub_ok h'"
proof (induction rule: hub_step.induct)
  case (store h c clk)
  then show ?case by (intro hub_ok_store perform_step)
next
  case (watch i h ctx_done now)
  then show ?case
    by (cases rule: validate_cases [where ctx_done = ctx_done and now = now and i = i and h = h]) (auto intro: reject_ok)
qed (simp_all add: register_ok hello_ok_hub reject_ok remove_ok fenced_ok fst_publish)

lemma hub_run_ok: "hub_run h \<Longrightarrow> hub_ok h"
proof (induction rule: hub_run.induct)
  case (start d)
  then show ?case by (simp add: hub_ok_def new_hub_def reachable_wf adapters_ok_def)
qed (rule hub_step_ok)

section \<open>Who may act\<close>

lemma older_refused:
  assumes "hub_ok h" "i < j" "j < length (hb_heap h)" "an_sessionID (adapter_at h i) = an_sessionID (adapter_at h j)"
    "am_ConnectionEpoch adm = epoch_of (adapter_at h i)" "store_step (hb_db h) d"
  shows "ValidateAdapterAdmission (an_sessionID (adapter_at h i)) adm now d \<noteq> Inr x"
proof (rule outdated_refused [OF _ _ assms(6)])
  show "issued (hb_db h) (an_sessionID (adapter_at h i)) (epoch_of (adapter_at h j))"
    using assms(1,3,4) by (simp add: hub_ok_def)
  show "am_ConnectionEpoch adm < epoch_of (adapter_at h j)" using assms(1-5) by (simp add: hub_ok_def)
qed

lemma older_silent:
  assumes "hub_ok h" "i < j" "j < length (hb_heap h)" "an_sessionID (adapter_at h i) = an_sessionID (adapter_at h j)"
  shows "validateAdapter ctx_done now i h = (rejectAdapter i h, Inl errAdapterAuthorityLost)"
    "others_ok other \<Longrightarrow> hello_effect other now' clk ack (adapter_at h i) (hb_db h) = (other 0 (hb_db h), [], Inl errAdapterAuthorityLost)"
proof -
  show "validateAdapter ctx_done now i h = (rejectAdapter i h, Inl errAdapterAuthorityLost)"
    using older_refused [OF assms refl store_step_refl]
    by (cases rule: validate_cases [where ctx_done = ctx_done and now = now and i = i and h = h]) auto
  show "hello_effect other now' clk ack (adapter_at h i) (hb_db h) = (other 0 (hb_db h), [], Inl errAdapterAuthorityLost)"
    if "others_ok other"
    using older_refused [OF assms refl others_step [OF that]] by (auto simp: hello_effect_def Let_def split: sum.splits)
qed

lemma bootstrap_newest:
  assumes ok: "hub_ok h" and ba: "CurrentBootstrapAuthority sid provider grant now h = Inr b"
  obtains k where "map_of (hb_adapters h) sid = Some k" "k < length (hb_heap h)" "an_sessionID (adapter_at h k) = sid"
    "ba_ConnectionEpoch b = epoch_of (adapter_at h k)" "an_provider (adapter_at h k) = provider"
    "\<And>j. j < length (hb_heap h) \<Longrightarrow> an_sessionID (adapter_at h j) = sid \<Longrightarrow> j \<le> k"
proof -
  obtain k adm x where k: "map_of (hb_adapters h) sid = Some k" "ba_ConnectionEpoch b = epoch_of (adapter_at h k)"
    "an_provider (adapter_at h k) = provider"
    and valid: "ValidateAdapterAdmission sid adm now (hb_db h) = Inr x" "am_ConnectionEpoch adm = epoch_of (adapter_at h k)"
    using ba by (auto simp: CurrentBootstrapAuthority_def Let_def split: option.splits if_splits sum.splits)
  have at: "k < length (hb_heap h)" "an_sessionID (adapter_at h k) = sid"
    using ok k(1) by (auto simp: hub_ok_def adapters_ok_def)
  have "j \<le> k" if "j < length (hb_heap h)" "an_sessionID (adapter_at h j) = sid" for j
    using older_refused [OF ok _ that(1) _ valid(2) store_step_refl, of now x] valid(1) at(2) that(2) by fastforce
  then show ?thesis using that k at by blast
qed

text \<open>
  C11: only the newest adapter of a session can act through a hub. In every state a hub can reach, once
  a session has a later adapter, everything an earlier one does fails: a publication stores nothing and
  broadcasts nothing, and unless it already gave up waiting, the adapter is removed and its connection
  closed; its hello is not acknowledged and does not make it the registered adapter again; and
  the bootstrap authority of the session is always that of its newest adapter.
\<close>

theorem newest_adapter_only:
  assumes "hub_run h" "i < j" "j < length (hb_heap h)" "an_sessionID (adapter_at h i) = an_sessionID (adapter_at h j)"
    "others_ok other"
  shows "(\<exists>h' e. fenced_publish meanwhile waited encrypted i ctx_done batch clk h = (h', [], Inl e) \<and> hb_db h' = hb_db h \<and>
      (\<not> (ctx_done \<and> waited clk) \<longrightarrow>
         i \<in> set (hb_closed h') \<and> map_of (hb_adapters h') (an_sessionID (adapter_at h i)) \<noteq> Some i)) \<and>
    publishAdapterHello other now clks ack i h =
      (h\<lparr>hb_db := other 0 (hb_db h)\<rparr>, [], Inl errAdapterAuthorityLost) \<and>
    (\<forall>b. CurrentBootstrapAuthority (an_sessionID (adapter_at h i)) provider grant t h = Inr b \<longrightarrow>
       (\<exists>k \<ge> j. map_of (hb_adapters h) (an_sessionID (adapter_at h i)) = Some k \<and> ba_ConnectionEpoch b = epoch_of (adapter_at h k)))"
proof -
  note ok = hub_run_ok [OF assms(1)]
  note silent = older_silent [OF ok assms(2-4)]
  have "\<exists>h' e. fenced_publish meanwhile waited encrypted i ctx_done batch clk h = (h', [], Inl e) \<and> hb_db h' = hb_db h \<and>
      (\<not> (ctx_done \<and> waited clk) \<longrightarrow>
         i \<in> set (hb_closed h') \<and> map_of (hb_adapters h') (an_sessionID (adapter_at h i)) \<noteq> Some i)"
    by (cases "ctx_done \<and> waited clk")
      (auto simp: fenced_publish_def withSessionPublication_def withAdapterEffect_def pfail_def pbind_def silent(1) rejected)
  moreover have "publishAdapterHello other now clks ack i h =
      (h\<lparr>hb_db := other 0 (hb_db h)\<rparr>, [], Inl errAdapterAuthorityLost)"
    by (simp add: publishAdapterHello_def Let_def silent(2) [OF assms(5)])
  moreover have "\<exists>k \<ge> j. map_of (hb_adapters h) (an_sessionID (adapter_at h i)) = Some k \<and>
      ba_ConnectionEpoch b = epoch_of (adapter_at h k)"
    if "CurrentBootstrapAuthority (an_sessionID (adapter_at h i)) provider grant t h = Inr b" for b
    using bootstrap_newest [OF ok that] assms(3,4) by metis
  ultimately show ?thesis by blast
qed

definition demo_credential :: "string \<Rightarrow> Principal \<Rightarrow> string \<Rightarrow> (int \<times> int \<times> bool) res" where
  "demo_credential token peer sid = Inr (1, fromMilli 1000, True)"

definition demo_evidence :: "string \<Rightarrow> SessionCredentialEvidence res" where
  "demo_evidence token = Inr \<lparr>sc_SessionID = ''s'',
     sc_Lineage = \<lparr>li_Kind = ''bootstrap_initial'', li_AttachID = [], li_JTI = []\<rparr>, sc_Generation = 1,
     sc_RotationID = ''r'', sc_RevocationID = ''v'', sc_ExpiresAt = fromMilli 1000\<rparr>"

definition demo_peer :: AcceptedPeer where
  "demo_peer = \<lparr>ap_Role = ''adapter'', ap_ProtocolVersion = 2, ap_Principal = \<lparr>pl_Subject = ''p'', pl_Scopes = []\<rparr>,
     ap_SessionID = ''s'', ap_Provider = ''acp'', ap_ContentMode = []\<rparr>"

definition demo_register :: "int \<Rightarrow> hub \<Rightarrow> hub" where
  "demo_register t h = fst (registerAdapter demo_credential (Some demo_evidence) (\<lambda>_ d. d) (Inr ''lease'') (fromMilli t)
     (\<lambda>_ _. t) demo_peer ''token'' h)"

definition demo_hub :: hub where
  "demo_hub = fst (publishAdapterHello (\<lambda>_ d. d) (fromMilli 6) (\<lambda>_ _. 6) (Some (\<lambda>_. None)) 0
     (demo_register 5 (new_hub initial_db)))"

definition demo_two :: hub where
  "demo_two = demo_register 7 demo_hub"

lemma idle_others: "others_ok (\<lambda>_ d. d)"
  by (simp add: others_ok_def store_run.idle)

lemma demo_register_step: "hub_run h \<Longrightarrow> hub_run (demo_register t h)"
  unfolding demo_register_def by (rule hub_run.step [OF _ hub_step.register [OF idle_others]])

lemma demo_hub_run: "hub_run demo_hub" "hub_run demo_two"
proof -
  have "hub_run (demo_register 5 (new_hub initial_db))"
    by (intro demo_register_step hub_run.start) (simp add: reachable_def store_run.idle)
  moreover have "0 < length (hb_heap (demo_register 5 (new_hub initial_db)))" by code_simp
  ultimately show "hub_run demo_hub" unfolding demo_hub_def
    by (rule hub_run.step [OF _ hub_step.hello [OF idle_others]])
  then show "hub_run demo_two" unfolding demo_two_def by (rule demo_register_step)
qed

theorem newest_adapter_only_witness:
  "map_of (hb_adapters demo_hub) ''s'' = Some 0 \<and>
   (\<exists>h' e. fenced_publish (\<lambda>_ d. d) (\<lambda>_. False) False 0 False [demo_item] (\<lambda>_. 8) demo_two = (h', [], Inl e) \<and>
      hb_db h' = hb_db demo_two \<and> 0 \<in> set (hb_closed h'))"
proof -
  have "length (hb_heap demo_two) = 2" by code_simp
  then have len: "(0::nat) < 1" "1 < length (hb_heap demo_two)" by simp_all
  have same: "an_sessionID (adapter_at demo_two 0) = an_sessionID (adapter_at demo_two 1)" by code_simp
  have "map_of (hb_adapters demo_hub) ''s'' = Some 0" by code_simp
  then show ?thesis
    using newest_adapter_only [OF demo_hub_run(2) len same idle_others, where meanwhile = "\<lambda>_ d. d" and waited = "\<lambda>_. False"
      and encrypted = False and ctx_done = False and batch = "[demo_item]" and clk = "\<lambda>_. 8"] by blast
qed

section \<open>What an admission gives\<close>

lemma hello_row_valid:
  assumes "AcceptAdapterHello sid hello clk d = (d', Inr c)"
  obtains row where "map_of (session_adapter_connections d') sid = Some row" "c = row_connection sid row"
    "cn_active_gen row = ah_CredentialGeneration hello" "cn_revoked_ms row = None" "cn_terminal_ms row = None"
    "validAdapterConnectionRow sid row (clk 3) (main_next_fence d')" "cn_fence row < side_next_fence d'"
    "cn_fence row < main_next_fence d'" "1 \<le> cn_fence row"
  using assms
proof (cases rule: hello_ok)
  case (1 row)
  let ?row = "row\<lparr>cn_epoch := cn_epoch row + 1, cn_fence := side_next_fence d, cn_updated_ms := clk 1\<rparr>"
  note same = bind_writer_ok [OF 1(8), THEN conjunct2]
  have d': "map_of (session_adapter_connections d') sid = Some ?row"
    "main_next_fence d' = max (main_next_fence d) (side_next_fence d + 1)" "side_next_fence d' = side_next_fence d + 1"
    using same by (simp_all add: same_authority_def fence_after_def update_conv')
  have "updateConnectionAfter sid (hello_stmt hello) True (bind_writer sid hello) clk 1 d = (d', Inr c)"
    using assms
    by (auto simp: AcceptAdapterHello_def atomic_ok AcceptAdapterHello_in_def pbind_ok prog_ok_simps split: if_splits)
  then have "validAdapterConnectionRow sid ?row (clk 3) (main_next_fence d')"
    using 1 d'(2)
    by (auto simp: updateConnectionAfter_def AllocateAdapterGrantFence_def [symmetric] pbind_ok prog_ok_simps
        allocate_fence_ok update_row_def update_connection_def hello_stmt_def queryAdapterConnection_def
        queryAdapterConnectionWhere_def update_conv' numeral_eq_Suc split: if_splits option.splits)
  then show ?thesis using that [OF d'(1)] 1 d' by simp
qed

lemma valid_row_later:
  "validAdapterConnectionRow sid row t n \<Longrightarrow> cn_revoked_ms row = None \<Longrightarrow> cn_terminal_ms row = None \<Longrightarrow>
   t \<le> t' \<Longrightarrow> n \<le> n' \<Longrightarrow> validAdapterConnectionRow sid row t' n'"
  by (auto simp: validAdapterConnectionRow_def)

text \<open>
  C13: an admission is sound and exclusive. When the hub admits an adapter, whatever other callers do to
  the store meanwhile, every admission that was valid before is refused for good, after any further store
  calls. If no other caller interferes after the hello and the store's attention migration is complete,
  the new admission is accepted from the hello on, at exactly the times before the expiry of the
  session's credential.
\<close>

theorem admission_exclusive:
  assumes "others_ok other" and ok: "admit other lease now clk sid gen expires allow d = (d', Inr ad)"
  shows "(\<forall>a t x later t'. ValidateAdapterAdmission sid a t d = Inr x \<and> store_run d' later \<longrightarrow>
      (\<nexists>y. ValidateAdapterAdmission sid a t' later = Inr y)) \<and>
    ((\<forall>e. other 3 e = e) \<and> migration_state d' = ''complete'' \<longrightarrow>
      (\<exists>c. map_of (session_adapter_connections d') sid = Some c \<and>
         (\<forall>t \<ge> clk 2 3. (\<exists>x. ValidateAdapterAdmission sid (aa_admission ad) t d' = Inr x) \<longleftrightarrow> t < cn_active_expires_ms c)))"
proof (intro conjI allI impI; elim conjE)
  fix a t x later t' assume old: "ValidateAdapterAdmission sid a t d = Inr x" "store_run d' later"
  from old(1) obtain c where "map_of (session_adapter_connections d) sid = Some c" "admitted a t d c" by (rule admission_ok)
  then have "issued d sid (am_ConnectionEpoch a)" by (auto simp: issued_def admitted_def)
  then have "am_ConnectionEpoch a < am_ConnectionEpoch (aa_admission ad)" by (rule admit_epoch(2) [OF assms])
  then show "\<nexists>y. ValidateAdapterAdmission sid a t' later = Inr y"
    using outdated_refused [OF admit_epoch(1) [OF assms] _ store_run_step [OF old(2)]] by blast
next
  assume alone: "\<forall>e. other 3 e = e" and complete: "migration_state d' = ''complete''"
  from admit_ok [OF assms] obtain d1 d2 c leaseID where run:
    "AcceptAdapterHello sid \<lparr>ah_CredentialGeneration = gen, ah_WriterLeaseID = leaseID\<rparr> (clk 2) d1 = (d2, Inr c)"
    "AllocateAdapterGrantFence d2 = (d', Inr (am_GrantFence (aa_admission ad)))"
    "am_ConnectionEpoch (aa_admission ad) = ad_ConnectionEpoch c" "am_AcceptedFence (aa_admission ad) = ad_AcceptedFence c"
    "am_CredentialGeneration (aa_admission ad) = gen" "1 \<le> gen"
    using alone by metis
  from run(1) obtain row where row: "map_of (session_adapter_connections d2) sid = Some row" "c = row_connection sid row"
    "cn_active_gen row = gen" "cn_revoked_ms row = None" "cn_terminal_ms row = None"
    "validAdapterConnectionRow sid row (clk 2 3) (main_next_fence d2)" "cn_fence row < side_next_fence d2"
    "cn_fence row < main_next_fence d2" "1 \<le> cn_fence row"
    by (rule hello_row_valid) simp
  have d': "map_of (session_adapter_connections d') sid = Some row" "main_next_fence d2 \<le> main_next_fence d'"
    "am_GrantFence (aa_admission ad) = side_next_fence d2" "side_next_fence d2 < main_next_fence d'"
    "side_next_fence d2 < side_next_fence d'"
    using run(2) row(1) by (auto simp: allocate_fence_ok)
  have fields: "am_ConnectionEpoch (aa_admission ad) = cn_epoch row" "am_AcceptedFence (aa_admission ad) = cn_fence row"
    using run(3,4) row(2) by (simp_all add: row_connection_def)
  have "(\<exists>x. ValidateAdapterAdmission sid (aa_admission ad) t d' = Inr x) \<longleftrightarrow> t < cn_active_expires_ms row"
    if "clk 2 3 \<le> t" for t
  proof -
    have valid: "validAdapterConnectionRow sid row t (main_next_fence d')" by (rule valid_row_later [OF row(6,4,5) that d'(2)])
    then have "validConnectionID sid" "1 \<le> cn_epoch row" using row(9) by (auto simp: validAdapterConnectionRow_def)
    then show ?thesis
      using complete valid d' fields row run(5,6)
      by (auto simp: ValidateAdapterAdmission_def queryAdapterConnectionWhere_def attentionMigrationPending_def admitted_def)
  qed
  then show "\<exists>c. map_of (session_adapter_connections d') sid = Some c \<and>
      (\<forall>t \<ge> clk 2 3. (\<exists>x. ValidateAdapterAdmission sid (aa_admission ad) t d' = Inr x) \<longleftrightarrow> t < cn_active_expires_ms c)"
    using d'(1) by blast
qed

theorem admission_exclusive_witness:
  "\<exists>d' ad x. admit (\<lambda>_ d. d) (Inr ''lease'') (fromMilli 7) (\<lambda>_ _. 9) ''s'' 1 (fromMilli 1000) True demo_granted = (d', Inr ad) \<and>
     is_ok (ValidateAdapterAdmission ''s'' demo_admission 8 demo_granted) \<and>
     (\<nexists>y. ValidateAdapterAdmission ''s'' demo_admission 10 d' = Inr y) \<and>
     ValidateAdapterAdmission ''s'' (aa_admission ad) 10 d' = Inr x"
proof -
  let ?run = "admit (\<lambda>_ d. d) (Inr ''lease'') (fromMilli 7) (\<lambda>_ _. 9) ''s'' 1 (fromMilli 1000) True demo_granted"
  have "case ?run of (d', Inr ad) \<Rightarrow> migration_state d' = ''complete'' \<and>
      (case map_of (session_adapter_connections d') ''s'' of None \<Rightarrow> False | Some c \<Rightarrow> 10 < cn_active_expires_ms c) | (d', Inl e) \<Rightarrow> False"
    by code_simp
  then obtain d' ad c where run: "?run = (d', Inr ad)" "migration_state d' = ''complete''"
    "map_of (session_adapter_connections d') ''s'' = Some c" "10 < cn_active_expires_ms c"
    by (auto split: prod.splits sum.splits option.splits)
  have old: "is_ok (ValidateAdapterAdmission ''s'' demo_admission 8 demo_granted)" by code_simp
  note both = admission_exclusive [OF idle_others run(1)]
  have "\<nexists>y. ValidateAdapterAdmission ''s'' demo_admission 10 d' = Inr y"
    using conjunct1 [OF both] old store_run.idle [of d'] by (auto simp: is_ok_iff)
  moreover have "\<exists>x. ValidateAdapterAdmission ''s'' (aa_admission ad) 10 d' = Inr x"
    using conjunct2 [OF both] run(2-4) by auto
  ultimately show ?thesis using run(1) old by blast
qed

section \<open>The batcher of an adapter\<close>

lemma fenced_frame:
  assumes "others_ok other"
  shows "store_step (hb_db h) (hb_db (fst (fenced_Append other waited encrypted i ctx_done events clk h))) \<and>
    hb_heap (fst (fenced_Append other waited encrypted i ctx_done events clk h)) = hb_heap h"
  using assms
  by (cases rule: fenced_cases [where waited = waited and encrypted = encrypted and i = i and ctx_done = ctx_done
        and events = events and clk = clk and h = h]) simp_all

lemma register_frame:
  assumes "others_ok other"
  shows "store_step (hb_db h) (hb_db (fst (registerAdapter adapterCredential resolver other lease now clk accepted token h))) \<and>
    prefix (hb_heap h) (hb_heap (fst (registerAdapter adapterCredential resolver other lease now clk accepted token h)))"
proof -
  have "store_step (hb_db h) d" if "admit other lease now clk sid gen expires allow (hb_db h) = (d, r)" for d r sid gen expires allow
    using admit_step [OF assms, of "hb_db h" lease now clk sid gen expires allow] that by simp
  then show ?thesis by (auto simp: registerAdapter_def Let_def split: sum.splits prod.splits)
qed

lemma hub_step_frame: "hub_step h h' \<Longrightarrow> store_step (hb_db h) (hb_db h') \<and> prefix (hb_heap h) (hb_heap h')"
proof (induction rule: hub_step.induct)
  case (hello other i h now clk ack)
  then show ?case
    using hello_effect_step [of other "hb_db h" now clk ack "adapter_at h i"]
    by (auto simp: publishAdapterHello_def Let_def split: prod.splits sum.splits)
next
  case (watch i h ctx_done now)
  show ?case
    by (cases rule: validate_cases [where ctx_done = ctx_done and now = now and i = i and h = h]) simp_all
qed (simp_all add: perform_step register_frame fenced_frame fst_publish)

text \<open>What a publication does to the log of the session, on success and otherwise.\<close>

lemma fenced_publish_log:
  assumes "others_ok other" "hub_ok h"
    and run: "fenced_publish other waited encrypted i ctx_done batch clk h = (h', sent, r)" and "batch \<noteq> []"
  shows "\<exists>rest. let sid = an_sessionID (adapter_at h i); L = event_log_of (hb_db h) sid @ rest; n = int (length L) + 1 in
    (sent = [] \<and> event_log_of (hb_db h') sid = L) \<or>
    (sent = with_seqs n batch \<and> event_log_of (hb_db h') sid = L @ stored_events sid n (map pa_pending batch))"
  using assms(1)
proof (cases rule: fenced_cases [where waited = waited and encrypted = encrypted and i = i and ctx_done = ctx_done
        and events = "map pa_pending batch" and clk = clk and h = h])
  case (ran d r' c)
  let ?sid = "an_sessionID (adapter_at h i)" and ?d = "other clk (hb_db h)"
  have h': "hb_db h' = d" using run ran(1) by (auto simp: publish_Append split: sum.splits)
  have step: "store_step (hb_db h) ?d" by (rule others_step [OF assms(1)])
  obtain rest where L: "event_log_of ?d ?sid = event_log_of (hb_db h) ?sid @ rest"
    using store_step_prefix [OF step] by (auto simp: prefix_def)
  have app: "appendAdapterEvents ?sid (an_admission (adapter_at h i)) (map pa_pending batch) encrypted (\<lambda>n. clk (Suc n)) ?d = (d, r')"
    using ran(3) by (auto simp: append_events_eq dest: arg_cong [of _ _ hb_db] split: prod.splits)
  show ?thesis
  proof (cases r')
    case (Inl e)
    have "sent = []" using run ran(1) Inl by (simp add: publish_Append)
    moreover have "\<exists>rest. event_log_of d ?sid = event_log_of (hb_db h) ?sid @ rest"
      using store_step_prefix [OF ran(2)] by (auto simp: prefix_def)
    ultimately show ?thesis using h' by (auto simp: Let_def)
  next
    case (Inr n)
    note rows = append_adapter_rows [OF app [unfolded Inr]]
    have "numbered ?d" using store_step_wf [OF step] assms(2) by (simp add: hub_ok_def wf_def)
    note log = rows_append_refines [OF this rows(2,1)]
    have "sent = with_seqs n batch" using run ran(1) Inr by (simp add: publish_Append)
    then show ?thesis
      using h' log L by (intro exI [of _ rest]) (simp add: Let_def spec_append_def)
  qed
qed (use run in \<open>auto simp: publish_Append Let_def\<close>)

lemma publication_sent:
  assumes sent: "sent_ok cfg L flushed broadcasts sent"
    and log: "let n = int (length (L @ rest)) + 1 in (out = [] \<and> L' = L @ rest) \<or>
      (out = with_seqs n batch \<and> L' = (L @ rest) @ stored_events (bc_SessionID cfg) n (map pa_pending batch))"
  shows "\<exists>sent'. sent_ok cfg L' (flushed @ batch) (broadcasts @ out) sent'"
proof -
  have "sent_ok cfg (L @ rest) flushed broadcasts sent" using sent_ok_log [OF sent, of rest "[]"] by simp
  from sent_ok_append [OF this refl, of batch] sent_ok_log [OF sent, of rest batch] log show ?thesis
    by (auto simp: Let_def)
qed

definition with_adapter :: "(clock \<Rightarrow> db \<Rightarrow> db) \<Rightarrow> nat \<Rightarrow> adapterConnection \<Rightarrow> hub \<Rightarrow> bool" where
  "with_adapter other i a h \<longleftrightarrow> others_ok other \<and> hub_ok h \<and> i < length (hb_heap h) \<and> adapter_at h i = a"

interpretation hub_flush: flushing "with_adapter other i a" "\<lambda>h. event_log_of (hb_db h)" "adapter_batcher a"
    "\<lambda>sid evs clk. fenced_Append other waited encrypted i False evs clk" "Some (fenced_publish other waited encrypted i)"
  for other i a waited encrypted
proof
  fix b :: "hub batcher" and flushed sent ctx_done clk and batch :: "pendingAdapterEvent list"
  let ?cfg = "adapter_batcher a" and ?app = "\<lambda>sid evs clk. fenced_Append other waited encrypted i False evs clk"
    and ?pub = "fenced_publish other waited encrypted i"
  let ?b = "flush ?cfg ?app (Some ?pub) ctx_done clk batch b"
  assume ok: "with_adapter other i a (bt_store b)" and new: "batch \<noteq> []"
    and sent: "sent_ok ?cfg (event_log_of (hb_db (bt_store b)) (bc_SessionID ?cfg)) flushed (bt_broadcasts b) sent"
  obtain h' out r where run: "?pub ctx_done batch clk (bt_store b) = (h', out, r)" by (rule prod_cases3)
  have b: "bt_store ?b = h'" "bt_broadcasts ?b = bt_broadcasts b @ out"
    using run by (auto simp: flush_def report_def Let_def split: sum.splits)
  have o: "others_ok other" "hub_ok (bt_store b)" "i < length (hb_heap (bt_store b))" "adapter_at (bt_store b) i = a"
    using ok by (simp_all add: with_adapter_def)
  have "h' = fst (fenced_Append other waited encrypted i ctx_done (map pa_pending batch) clk (bt_store b))"
    using fst_publish [of other waited encrypted i ctx_done batch clk "bt_store b"] run by simp
  then have "with_adapter other i a (bt_store ?b)"
    using b(1) o fenced_ok [OF o(1,2)] fenced_frame [OF o(1)] by (simp add: with_adapter_def)
  moreover obtain rest where "let n = int (length (event_log_of (hb_db (bt_store b)) (bc_SessionID ?cfg) @ rest)) + 1 in
      (out = [] \<and> event_log_of (hb_db h') (bc_SessionID ?cfg) = event_log_of (hb_db (bt_store b)) (bc_SessionID ?cfg) @ rest) \<or>
      (out = with_seqs n batch \<and> event_log_of (hb_db h') (bc_SessionID ?cfg) =
         (event_log_of (hb_db (bt_store b)) (bc_SessionID ?cfg) @ rest) @ stored_events (bc_SessionID ?cfg) n (map pa_pending batch))"
    using fenced_publish_log [OF o(1,2) run new] o(4) by (auto simp: Let_def adapter_batcher_def)
  then have "\<exists>sent'. sent_ok ?cfg (event_log_of (hb_db (bt_store ?b)) (bc_SessionID ?cfg)) (flushed @ batch) (bt_broadcasts ?b) sent'"
    unfolding b by (rule publication_sent [OF sent])
  ultimately show "with_adapter other i a (bt_store ?b) \<and>
      (\<exists>sent'. sent_ok ?cfg (event_log_of (hb_db (bt_store ?b)) (bc_SessionID ?cfg)) (flushed @ batch) (bt_broadcasts ?b) sent')" by blast
qed

text \<open>
  C12: what an adapter sends reaches clients only once it is durable, and only while the adapter has
  authority. Whatever the interleaving of the adapter's frames, its batcher, other callers of the store
  and everything else the hub does, including the registration of later adapters of the session: the
  accepted events are those flushed so far followed by the batch and the queue; the events broadcast are
  accepted events in the order of acceptance, under strictly increasing sequence numbers, each stored in
  the session's log under exactly that number; and from the registration of a later adapter of the
  session on, a flush broadcasts nothing.
\<close>

theorem adapter_stream_durable:
  assumes run: "batcher_run (adapter_batcher (adapter_at h i)) (\<lambda>sid evs clk. fenced_Append other waited encrypted i False evs clk)
      (Some (fenced_publish other waited encrypted i)) hub_step h acc b"
    and "hub_run h" "i < length (hb_heap h)" "others_ok other"
  shows "(\<exists>flushed sent. acc = flushed @ bt_batch b @ bt_queue b \<and> subseq (map fst sent) flushed \<and>
       bt_broadcasts b = map (\<lambda>(item, k). (pa_event item)\<lparr>he_Seq := Some k\<rparr>) sent \<and>
       sorted_wrt (<) (map snd sent) \<and>
       (\<forall>(item, k) \<in> set sent. 1 \<le> k \<and>
          nat k \<le> length (event_log_of (hb_db (bt_store b)) (an_sessionID (adapter_at h i))) \<and>
          event_log_of (hb_db (bt_store b)) (an_sessionID (adapter_at h i)) ! (nat k - 1) =
            stored_event (an_sessionID (adapter_at h i)) k (pa_pending item))) \<and>
    (\<forall>j > i. j < length (hb_heap (bt_store b)) \<and> an_sessionID (adapter_at (bt_store b) j) = an_sessionID (adapter_at h i) \<longrightarrow>
       bt_broadcasts (flush_batch (adapter_batcher (adapter_at h i)) (\<lambda>sid evs clk. fenced_Append other waited encrypted i False evs clk)
         (Some (fenced_publish other waited encrypted i)) ctx_done clk b) = bt_broadcasts b)"
proof (intro conjI allI impI; (elim conjE)?)
  let ?a = "adapter_at h i"
  have start: "with_adapter other i ?a h" using assms(2-4) by (simp add: with_adapter_def hub_run_ok)
  have other: "with_adapter other i ?a e' \<and> prefix (event_log_of (hb_db e) sid) (event_log_of (hb_db e') sid)"
    if "with_adapter other i ?a e" "hub_step e e'" for e e' sid
    using that hub_step_ok [OF that(2)] hub_step_frame [OF that(2)] store_step_prefix
    by (auto simp: with_adapter_def prefix_def nth_append)
  have ok: "batcher_ok (with_adapter other i ?a) (\<lambda>h. event_log_of (hb_db h)) (adapter_batcher ?a) acc b"
    by (rule hub_flush.run_ok [OF run start other])
  then show "\<exists>flushed sent. acc = flushed @ bt_batch b @ bt_queue b \<and> subseq (map fst sent) flushed \<and>
       bt_broadcasts b = map (\<lambda>(item, k). (pa_event item)\<lparr>he_Seq := Some k\<rparr>) sent \<and>
       sorted_wrt (<) (map snd sent) \<and>
       (\<forall>(item, k) \<in> set sent. 1 \<le> k \<and> nat k \<le> length (event_log_of (hb_db (bt_store b)) (an_sessionID ?a)) \<and>
          event_log_of (hb_db (bt_store b)) (an_sessionID ?a) ! (nat k - 1) = stored_event (an_sessionID ?a) k (pa_pending item))"
    unfolding batcher_ok_def sent_ok_def by (simp add: adapter_batcher_def)
  fix j assume later: "i < j" "j < length (hb_heap (bt_store b))" "an_sessionID (adapter_at (bt_store b) j) = an_sessionID ?a"
  have at: "hub_ok (bt_store b)" "adapter_at (bt_store b) i = ?a" using ok by (simp_all add: batcher_ok_def with_adapter_def)
  then have "\<exists>h' e. fenced_publish other waited encrypted i ctx_done (bt_batch b) clk (bt_store b) = (h', [], Inl e)"
    using older_silent(1) [OF at(1) later(1,2)] later(3)
    by (auto simp: fenced_publish_def withSessionPublication_def withAdapterEffect_def pfail_def pbind_def)
  then show "bt_broadcasts (flush_batch (adapter_batcher ?a) (\<lambda>sid evs clk. fenced_Append other waited encrypted i False evs clk)
      (Some (fenced_publish other waited encrypted i)) ctx_done clk b) = bt_broadcasts b"
    by (auto simp: flush_batch_def flush_def report_def Let_def)
qed

abbreviation demo_fenced :: "string \<Rightarrow> PendingEvent list \<Rightarrow> clock \<Rightarrow> hub \<Rightarrow> hub \<times> int res" where
  "demo_fenced sid evs clk \<equiv> fenced_Append (\<lambda>_ d. d) (\<lambda>_. False) False 0 False evs clk"

abbreviation demo_publish :: "bool \<Rightarrow> pendingAdapterEvent list \<Rightarrow> clock \<Rightarrow> hub \<Rightarrow> hub \<times> protocol_event list \<times> unit res" where
  "demo_publish \<equiv> fenced_publish (\<lambda>_ d. d) (\<lambda>_. False) False 0"

definition demo_received :: "hub batcher" where
  "demo_received = receive (adapter_batcher (adapter_at demo_hub 0)) demo_fenced (Some demo_publish) (\<lambda>_. 7)
     (Enqueue demo_item (newAdapterEventBatcher demo_hub))"

definition demo_stream :: "hub batcher" where
  "demo_stream = flush_batch (adapter_batcher (adapter_at demo_hub 0)) demo_fenced (Some demo_publish) False (\<lambda>_. 7) demo_received"

theorem adapter_stream_durable_witness:
  "map he_Seq (bt_broadcasts demo_stream) = [Some 1] \<and>
   (\<exists>flushed. [demo_item] = flushed @ bt_batch demo_stream @ bt_queue demo_stream)"
proof -
  let ?run = "batcher_run (adapter_batcher (adapter_at demo_hub 0)) demo_fenced (Some demo_publish) hub_step demo_hub"
  have "?run ([] @ [demo_item]) (Enqueue demo_item (newAdapterEventBatcher demo_hub))" unfolding demo_item_def
    by (rule batcher_run.enqueue [OF batcher_run.start]) (simp add: newAdapterEventBatcher_def)
  then have "?run [demo_item] demo_received" unfolding demo_received_def
    by (intro batcher_run.receive) (simp_all add: Enqueue_def newAdapterEventBatcher_def)
  moreover have "bt_phase demo_received = Running" "bt_timer demo_received" "\<not> bt_cancelled demo_received"
    by (simp_all add: demo_received_def receive_def Enqueue_def newAdapterEventBatcher_def maxEvents_def adapter_batcher_def
        adapterEventBatchMaxEvents_def)
  ultimately have "?run [demo_item] demo_stream" unfolding demo_stream_def
    using batcher_run.timer [where clk = "\<lambda>_. 7"] by fastforce
  moreover have "0 < length (hb_heap demo_hub)" by code_simp
  moreover have "map he_Seq (bt_broadcasts demo_stream) = [Some 1]" by code_simp
  ultimately show ?thesis using adapter_stream_durable [OF _ demo_hub_run(1) _ idle_others] by blast
qed

end

