(* ===== verification/Client_Stream.thy ===== *)
theory Client_Stream
  imports Store_Runs Event_Batcher
begin

text \<open>
  How events reach a client (\<^verbatim>\<open>clientConnection\<close> and \<^verbatim>\<open>replayAccepted\<close> in
  \<^verbatim>\<open>hub/websocket.go\<close>, \<^verbatim>\<open>hub/bootstrap.go\<close>, \<^verbatim>\<open>hub/encrypted_replay.go\<close>): stored
  events are replayed while live ones are buffered, then the buffer is drained, then live events are
  written at once. The frames written to a client are kept in a list; whether the transport accepts a
  frame is a parameter. The mutex of the connection is held while its fields are read or changed, and
  durable events of a session are broadcast one at a time under the session's publication gate, so every
  operation below is one step.
\<close>

section \<open>Required content mode\<close>

definition ContentModeRequired :: string where "ContentModeRequired = ''required''"

definition internalLifecycleEvent :: "string \<Rightarrow> bool" where
  "internalLifecycleEvent eventType \<longleftrightarrow> eventType = ''session.run.outcome'' \<or> eventType = ''session.state''"

text \<open>The members of an object as \<^verbatim>\<open>json.Unmarshal\<close> puts them into a map; \<^verbatim>\<open>null\<close> leaves it empty.\<close>

definition unmarshal_map :: "bytes \<Rightarrow> string list option" where
  "unmarshal_map payload =
     (case parse_json payload of Some (JObj ms) \<Rightarrow> Some (map fst ms) | Some JNull \<Rightarrow> Some [] | _ \<Rightarrow> None)"

definition validatePlaintextLifecycleProjection :: "string \<Rightarrow> bytes \<Rightarrow> unit res" where
  "validatePlaintextLifecycleProjection eventType payload =
     (case unmarshal_map payload of
        None \<Rightarrow> Inl (Fail ''invalid encrypted event history'')
      | Some names \<Rightarrow>
          if eventType = ''session.state'' then
            if \<not> list_all (\<lambda>n. n = ''state'' \<or> n = ''reason'') names then Inl (Fail ''invalid encrypted event history'')
            else (case unmarshal_strings [''state''] payload of
                None \<Rightarrow> Inl (Fail ''invalid encrypted event history'')
              | Some f \<Rightarrow> if f ''state'' = [] then Inl (Fail ''invalid encrypted event history'') else Inr ())
          else if eventType = ''session.run.outcome'' then
            if ValidateRunControlOutcomeProjection payload then Inr () else Inl (Fail ''invalid encrypted packet'')
          else Inl (Fail ''invalid encrypted event history''))"

definition validateRequiredReplayEvent :: "Event \<Rightarrow> string \<Rightarrow> unit res" where
  "validateRequiredReplayEvent event session =
     (if e_SessionID event \<noteq> session \<or> e_Seq event < 1 then Inl (Fail ''invalid encrypted replay routing'')
      else if e_Type event = ''session.command'' then
        (case unmarshal_strings [''type'', ''message_id''] (e_Payload event) of
           None \<Rightarrow> Inl (Fail ''invalid encrypted command history'')
         | Some header \<Rightarrow>
             (case DecodeEncryptedPacketCarrier (e_Payload event) ''command'' (header ''type'') (header ''message_id'') of
                None \<Rightarrow> Inl (Fail ''invalid encrypted command history'')
              | Some carrier \<Rightarrow>
                  if ValidEncryptedCommandType (pk_Type carrier) then Inr ()
                  else Inl (Fail ''invalid encrypted command history'')))
      else if internalLifecycleEvent (e_Type event) then
        (if DecodeEncryptedPacketCarrier (e_Payload event) ''event'' (e_Type event) [] \<noteq> None then Inr ()
         else validatePlaintextLifecycleProjection (e_Type event) (e_Payload event))
      else if DecodeEncryptedPacketCarrier (e_Payload event) ''event'' (e_Type event) [] = None
      then Inl (Fail ''invalid encrypted event history'') else Inr ())"

section \<open>The connection of a client\<close>

definition isEphemeralEvent :: "string \<Rightarrow> bool" where
  "isEphemeralEvent eventType \<longleftrightarrow> eventType \<in> {''presence'', ''agent.activity'', ''log.tail'', ''resource.sample''}"

definition EventTypeAllowed :: "int \<Rightarrow> string \<Rightarrow> bool \<Rightarrow> bool" where
  "EventTypeAllowed version eventType durable =
     (if durable \<and> eventType \<in> {''presence'', ''agent.activity'', ''log.tail'', ''resource.sample''} then False
      else version \<ge> 1)"

definition maxReplayBufferedEvents :: nat where "maxReplayBufferedEvents = 1024"

definition errReplayBufferOverflow :: err where "errReplayBufferOverflow = Fail ''replay buffer overflow''"

record subscriptionState =
  ss_lastSeq :: int
  ss_replaying :: bool
  ss_buffered :: "protocol_event list"
  ss_bufferedEphemerals :: "(string \<times> nat) list"

record clientConnection =
  cc_protocolVersion :: int
  cc_contentMode :: string
  cc_publisherEphemeralTypes :: "string list"
  cc_subscriptions :: "(string \<times> subscriptionState) list"
  cc_frames :: "protocol_event list"

fun newClientConnection ::
  "int \<Rightarrow> string \<Rightarrow> (string \<times> int) list \<Rightarrow> bool \<Rightarrow> string list \<Rightarrow> clientConnection" where
  "newClientConnection version mode [] replaying types =
     \<lparr>cc_protocolVersion = version, cc_contentMode = mode, cc_publisherEphemeralTypes = types,
      cc_subscriptions = [], cc_frames = []\<rparr>"
| "newClientConnection version mode ((sid, lastSeq) # subs) replaying types =
     (let c = newClientConnection version mode subs replaying types in
      if map_of (cc_subscriptions c) sid \<noteq> None then c
      else c\<lparr>cc_subscriptions := AList.update sid
        \<lparr>ss_lastSeq = lastSeq, ss_replaying = replaying, ss_buffered = [], ss_bufferedEphemerals = []\<rparr> (cc_subscriptions c)\<rparr>)"

definition put_state :: "string \<Rightarrow> subscriptionState \<Rightarrow> clientConnection \<Rightarrow> clientConnection" where
  "put_state sid st c = c\<lparr>cc_subscriptions := AList.update sid st (cc_subscriptions c)\<rparr>"

definition client_isPublisherEphemeralType :: "clientConnection \<Rightarrow> string \<Rightarrow> bool" where
  "client_isPublisherEphemeralType c eventType \<longleftrightarrow> eventType \<in> set (cc_publisherEphemeralTypes c)"

definition writeFrame :: "bool \<Rightarrow> protocol_event \<Rightarrow> (clientConnection, unit) prog" where
  "writeFrame accepted ev c =
     (if accepted then (c\<lparr>cc_frames := cc_frames c @ [ev]\<rparr>, Inr ()) else (c, Inl (Fail ''write failed'')))"

definition markSent :: "protocol_event \<Rightarrow> clientConnection \<Rightarrow> clientConnection" where
  "markSent ev c =
     (case he_Seq ev of
        None \<Rightarrow> c
      | Some seq \<Rightarrow>
          (case map_of (cc_subscriptions c) (he_SessionID ev) of
             None \<Rightarrow> c
           | Some st \<Rightarrow> if seq > ss_lastSeq st then put_state (he_SessionID ev) (st\<lparr>ss_lastSeq := seq\<rparr>) c else c))"

definition write_and_mark :: "bool \<Rightarrow> protocol_event \<Rightarrow> (clientConnection, unit) prog" where
  "write_and_mark accepted ev c =
     (case writeFrame accepted ev c of (c, Inl e) \<Rightarrow> (c, Inl e) | (c, Inr _) \<Rightarrow> (markSent ev c, Inr ()))"

definition writeReplayEvent :: "bool \<Rightarrow> protocol_event \<Rightarrow> (clientConnection, unit) prog" where
  "writeReplayEvent accepted ev c =
     (if \<not> EventTypeAllowed (cc_protocolVersion c) (he_Type ev) True \<or> client_isPublisherEphemeralType c (he_Type ev)
      then (markSent ev c, Inr ()) else write_and_mark accepted ev c)"

definition cloneProtocolEvent :: "protocol_event \<Rightarrow> protocol_event" where
  "cloneProtocolEvent ev = ev\<lparr>he_ProposalID := []\<rparr>"

definition required_live :: "clientConnection \<Rightarrow> protocol_event \<Rightarrow> unit res" where
  "required_live c ev =
     (if cc_contentMode c \<noteq> ContentModeRequired then Inr ()
      else case he_Seq ev of
        None \<Rightarrow>
          if \<not> isEphemeralEvent (he_Type ev) then Inl (Fail ''required event lacks sequence'')
          else if DecodeEncryptedPacketCarrier (he_Payload ev) ''event'' (he_Type ev) [] = None
          then Inl (Fail ''invalid encrypted ephemeral event'') else Inr ()
      | Some seq \<Rightarrow> validateRequiredReplayEvent
          \<lparr>e_SessionID = he_SessionID ev, e_Seq = seq, e_Type = he_Type ev, e_Time = zeroTime, e_Payload = he_Payload ev\<rparr>
          (he_SessionID ev))"

definition buffer_event :: "protocol_event \<Rightarrow> subscriptionState \<Rightarrow> subscriptionState res" where
  "buffer_event ev st =
     (case (if he_Seq ev = None then map_of (ss_bufferedEphemerals st) (he_Type ev) else None) of
        Some index \<Rightarrow> Inr (st\<lparr>ss_buffered := (ss_buffered st)[index := cloneProtocolEvent ev]\<rparr>)
      | None \<Rightarrow>
          if length (ss_buffered st) \<ge> maxReplayBufferedEvents then Inl errReplayBufferOverflow
          else Inr (st\<lparr>ss_buffered := ss_buffered st @ [cloneProtocolEvent ev],
            ss_bufferedEphemerals := (if he_Seq ev = None
              then AList.update (he_Type ev) (length (ss_buffered st)) (ss_bufferedEphemerals st)
              else ss_bufferedEphemerals st)\<rparr>))"

definition sendLiveEvent :: "bool \<Rightarrow> protocol_event \<Rightarrow> (clientConnection, unit) prog" where
  "sendLiveEvent accepted ev c =
     (case required_live c ev of
        Inl e \<Rightarrow> (c, Inl e)
      | Inr _ \<Rightarrow>
          if \<not> EventTypeAllowed (cc_protocolVersion c) (he_Type ev) (he_Seq ev \<noteq> None) \<or>
             (he_Seq ev \<noteq> None \<and> client_isPublisherEphemeralType c (he_Type ev))
          then (markSent ev c, Inr ())
          else case map_of (cc_subscriptions c) (he_SessionID ev) of
            None \<Rightarrow> (c, Inr ())
          | Some st \<Rightarrow>
              if ss_replaying st then
                (case buffer_event ev st of
                   Inl e \<Rightarrow> (c, Inl e) | Inr st \<Rightarrow> (put_state (he_SessionID ev) st c, Inr ()))
              else if (case he_Seq ev of None \<Rightarrow> False | Some seq \<Rightarrow> seq \<le> ss_lastSeq st) then (c, Inr ())
              else write_and_mark accepted ev c)"

definition writeBufferedEvent :: "bool \<Rightarrow> protocol_event \<Rightarrow> (clientConnection, unit) prog" where
  "writeBufferedEvent accepted ev c =
     (case map_of (cc_subscriptions c) (he_SessionID ev) of
        None \<Rightarrow> (c, Inr ())
      | Some st \<Rightarrow>
          if (case he_Seq ev of None \<Rightarrow> False | Some seq \<Rightarrow> seq \<le> ss_lastSeq st) then (c, Inr ())
          else write_and_mark accepted ev c)"

text \<open>
  One round of the loop of \<^verbatim>\<open>finishReplay\<close>: the events to write next, or none when the
  loop returns.
\<close>

definition finish_round :: "string \<Rightarrow> clientConnection \<Rightarrow> clientConnection \<times> protocol_event list option" where
  "finish_round sid c =
     (case map_of (cc_subscriptions c) sid of
        None \<Rightarrow> (c, None)
      | Some st \<Rightarrow>
          let cleared = st\<lparr>ss_buffered := [], ss_bufferedEphemerals := []\<rparr> in
          if ss_buffered st = [] then (put_state sid (cleared\<lparr>ss_replaying := False\<rparr>) c, None)
          else (put_state sid cleared c, Some (ss_buffered st)))"

section \<open>Replay and bootstrap\<close>

definition replay_event :: "Event \<Rightarrow> protocol_event" where
  "replay_event ev = \<lparr>he_Type = e_Type ev, he_SessionID = e_SessionID ev, he_Seq = Some (e_Seq ev),
     he_Time = UnixMilli (e_Time ev), he_Payload = e_Payload ev, he_ProposalID = []\<rparr>"

text \<open>The callback of the replay.\<close>

definition replay_one :: "bool \<Rightarrow> string \<Rightarrow> Event \<Rightarrow> (clientConnection, unit) prog" where
  "replay_one accepted sid ev c =
     (case (if cc_contentMode c = ContentModeRequired then validateRequiredReplayEvent ev sid else Inr ()) of
        Inl e \<Rightarrow> (c, Inl e)
      | Inr _ \<Rightarrow> writeReplayEvent accepted (replay_event ev) c)"

definition prepareTailBootstrap :: "string \<Rightarrow> int \<Rightarrow> db \<Rightarrow> clientConnection \<Rightarrow> clientConnection \<times> int res" where
  "prepareTailBootstrap sid lastSeq d c =
     (case LatestSeq sid d of
        Inl e \<Rightarrow> (c, Inl e)
      | Inr latest \<Rightarrow>
          if latest < lastSeq then (c, Inl (Fail ''bootstrap watermark moved backwards''))
          else (case map_of (cc_subscriptions c) sid of
              None \<Rightarrow> (c, Inl (Fail ''nil pointer''))
            | Some st \<Rightarrow> (put_state sid (st\<lparr>ss_lastSeq := latest\<rparr>) c, Inr latest)))"

fun check_bootstrap :: "bool \<Rightarrow> string \<Rightarrow> int \<Rightarrow> string list \<Rightarrow> int \<Rightarrow> Event list \<Rightarrow> unit res" where
  "check_bootstrap required sid lastSeq allowed previous [] = Inr ()"
| "check_bootstrap required sid lastSeq allowed previous (ev # events) =
     (if e_SessionID ev \<noteq> sid \<or> e_Seq ev \<le> previous \<or> e_Seq ev > lastSeq \<or> e_Type ev \<notin> set allowed
      then Inl (Fail ''invalid bootstrap event'')
      else res_bind (if required then validateRequiredReplayEvent ev sid else Inr ()) (\<lambda>_.
        check_bootstrap required sid lastSeq (filter (\<lambda>t. t \<noteq> e_Type ev) allowed) (e_Seq ev) events))"

definition bootstrap_events :: "bool \<Rightarrow> string \<Rightarrow> int \<Rightarrow> db \<Rightarrow> Event list res" where
  "bootstrap_events required sid lastSeq d =
     res_bind (Bootstrap sid lastSeq d) (\<lambda>events.
     if length events > length BootstrapEventTypes then Inl (Fail ''bootstrap state exceeds bound'')
     else res_bind (check_bootstrap required sid lastSeq BootstrapEventTypes 0 events) (\<lambda>_. Inr events))"

section \<open>One subscription, interleaved with everything else\<close>

text \<open>
  What the goroutine of the connection does for a subscription: it has registered the client, writes the
  replayed or the bootstrap events, drains the buffer round by round, and is done when the client is live.
  After an error the client is unregistered and its connection closed.
\<close>

datatype task = Registered | Replaying "Event list" | Sampled | Booting "Event list" | Draining "protocol_event list" | Live | Closed

record stream =
  sm_db :: db
  sm_sent :: nat
  sm_from :: int
  sm_task :: task
  sm_client :: clientConnection

definition settle :: "clientConnection \<times> unit res \<Rightarrow> task \<Rightarrow> stream \<Rightarrow> stream" where
  "settle r next s =
     (case r of (c, Inl e) \<Rightarrow> s\<lparr>sm_client := c, sm_task := Closed\<rparr>
      | (c, Inr _) \<Rightarrow> s\<lparr>sm_client := c, sm_task := next\<rparr>)"

text \<open>What the connection may do for its other subscriptions.\<close>

definition elsewhere :: "string \<Rightarrow> clientConnection \<Rightarrow> clientConnection \<Rightarrow> bool" where
  "elsewhere sid c c' \<longleftrightarrow>
     (\<exists>subs frames. map_of subs sid = map_of (cc_subscriptions c) sid \<and> (\<forall>f \<in> set frames. he_SessionID f \<noteq> sid) \<and>
        c' = c\<lparr>cc_subscriptions := subs, cc_frames := cc_frames c @ frames\<rparr>)"

text \<open>
  Which numbered events may be broadcast next is a parameter of the steps. It is \<open>in_order\<close> where events are
  stored before they are broadcast and broadcast in the order of the log, each of them once.
\<close>

definition carries :: "string \<Rightarrow> protocol_event \<Rightarrow> Event \<Rightarrow> bool" where
  "carries sid f ev \<longleftrightarrow> he_SessionID f = sid \<and> he_Seq f = Some (e_Seq ev) \<and> he_Type f = e_Type ev \<and> he_Payload f = e_Payload ev"

definition in_order :: "string \<Rightarrow> stream \<Rightarrow> protocol_event \<Rightarrow> bool" where
  "in_order sid s f \<longleftrightarrow> sm_sent s < length (event_log_of (sm_db s) sid) \<and>
     carries sid f (event_log_of (sm_db s) sid ! sm_sent s)"

inductive stream_step :: "(stream \<Rightarrow> protocol_event \<Rightarrow> bool) \<Rightarrow> string \<Rightarrow> int \<Rightarrow> stream \<Rightarrow> stream \<Rightarrow> bool" for feed sid lastSeq where
  store: "store_run (sm_db s) d \<Longrightarrow> stream_step feed sid lastSeq s (s\<lparr>sm_db := d\<rparr>)"
| others: "elsewhere sid (sm_client s) c \<Longrightarrow> stream_step feed sid lastSeq s (s\<lparr>sm_client := c\<rparr>)"
| close: "stream_step feed sid lastSeq s (s\<lparr>sm_task := Closed\<rparr>)"
| broadcast: "sm_task s \<noteq> Closed \<Longrightarrow> feed s f \<Longrightarrow> he_SessionID f = sid \<Longrightarrow> he_Seq f \<noteq> None \<Longrightarrow>
    stream_step feed sid lastSeq s ((settle (sendLiveEvent accepted f (sm_client s)) (sm_task s) s)\<lparr>sm_sent := Suc (sm_sent s)\<rparr>)"
| ephemeral: "sm_task s \<noteq> Closed \<Longrightarrow> he_Seq f = None \<Longrightarrow> he_SessionID f = sid \<Longrightarrow>
    stream_step feed sid lastSeq s (settle (sendLiveEvent accepted f (sm_client s)) (sm_task s) s)"
| replay: "sm_task s = Registered \<Longrightarrow>
    stream_step feed sid lastSeq s (s\<lparr>sm_task := Replaying (map row_event (filter (\<lambda>r. ev_seq r > lastSeq) (session_rows (sm_db s) sid)))\<rparr>)"
| replay_event: "sm_task s = Replaying (ev # evs) \<Longrightarrow>
    stream_step feed sid lastSeq s (settle (replay_one accepted sid ev (sm_client s)) (Replaying evs) s)"
| tail: "sm_task s = Registered \<Longrightarrow> prepareTailBootstrap sid lastSeq (sm_db s) (sm_client s) = (c, Inr latest) \<Longrightarrow>
    stream_step feed sid lastSeq s (s\<lparr>sm_client := c, sm_from := latest, sm_task := Sampled\<rparr>)"
| bootstrap: "sm_task s = Sampled \<Longrightarrow>
    bootstrap_events (cc_contentMode (sm_client s) = ContentModeRequired) sid (sm_from s) (sm_db s) = Inr evs \<Longrightarrow>
    stream_step feed sid lastSeq s (s\<lparr>sm_task := Booting evs\<rparr>)"
| boot_event: "sm_task s = Booting (ev # evs) \<Longrightarrow>
    stream_step feed sid lastSeq s (settle (writeReplayEvent accepted (replay_event ev) (sm_client s)) (Booting evs) s)"
| drain: "sm_task s = Replaying [] \<or> sm_task s = Booting [] \<or> sm_task s = Draining [] \<Longrightarrow>
    finish_round sid (sm_client s) = (c, next) \<Longrightarrow>
    stream_step feed sid lastSeq s (s\<lparr>sm_client := c, sm_task := (case next of None \<Rightarrow> Live | Some fs \<Rightarrow> Draining fs)\<rparr>)"
| drain_event: "sm_task s = Draining (f # fs) \<Longrightarrow>
    stream_step feed sid lastSeq s (settle (writeBufferedEvent accepted f (sm_client s)) (Draining fs) s)"

inductive stream_run :: "(stream \<Rightarrow> protocol_event \<Rightarrow> bool) \<Rightarrow> string \<Rightarrow> int \<Rightarrow> stream \<Rightarrow> stream \<Rightarrow> bool" for feed sid lastSeq s0 where
  start: "stream_run feed sid lastSeq s0 s0"
| step: "stream_run feed sid lastSeq s0 s \<Longrightarrow> stream_step feed sid lastSeq s s' \<Longrightarrow> stream_run feed sid lastSeq s0 s'"

text \<open>A client that has just been registered for a session with the last sequence number it has seen.\<close>

definition registered :: "string \<Rightarrow> int \<Rightarrow> stream \<Rightarrow> bool" where
  "registered sid lastSeq s \<longleftrightarrow>
     wf (sm_db s) \<and> 0 \<le> lastSeq \<and> sm_sent s \<le> length (event_log_of (sm_db s) sid) \<and> sm_from s = lastSeq \<and> sm_task s = Registered \<and>
     (\<exists>version mode subs types. sm_client s = newClientConnection version mode subs True types \<and>
        map_of (cc_subscriptions (sm_client s)) sid =
          Some \<lparr>ss_lastSeq = lastSeq, ss_replaying = True, ss_buffered = [], ss_bufferedEphemerals = []\<rparr>)"

definition visible :: "clientConnection \<Rightarrow> Event \<Rightarrow> bool" where
  "visible c ev \<longleftrightarrow> EventTypeAllowed (cc_protocolVersion c) (e_Type ev) True \<and> \<not> client_isPublisherEphemeralType c (e_Type ev)"

definition durable_frames :: "string \<Rightarrow> int \<Rightarrow> clientConnection \<Rightarrow> protocol_event list" where
  "durable_frames sid after c =
     filter (\<lambda>f. he_SessionID f = sid \<and> (case he_Seq f of None \<Rightarrow> False | Some n \<Rightarrow> after < n)) (cc_frames c)"

section \<open>The log of the session\<close>

lemma log_seq:
  assumes "wf d" "i < length (event_log_of d sid)"
  shows "e_Seq (event_log_of d sid ! i) = int i + 1" "e_SessionID (event_log_of d sid ! i) = sid"
proof -
  have "map e_Seq (event_log_of d sid) = [1..int (length (event_log_of d sid))]"
    using assms(1) by (simp add: wf_def numbered_log_def event_log_of_def row_event_def comp_def)
  then have "map e_Seq (event_log_of d sid) ! i = int i + 1" using assms(2) by (simp add: nth_upto)
  then show "e_Seq (event_log_of d sid ! i) = int i + 1" using assms(2) by simp
  have "event_log_of d sid ! i \<in> set (event_log_of d sid)" using assms(2) by simp
  then show "e_SessionID (event_log_of d sid ! i) = sid" by (auto simp: event_log_of_def rows_of_def row_event_def)
qed

lemma replay_rows:
  assumes "wf d"
  shows "map row_event (filter (\<lambda>r. ev_seq r > n) (session_rows d sid)) = drop (nat n) (event_log_of d sid)"
  using rows_after [of d n sid] assms by (simp add: wf_def event_log_of_def drop_map)

lemma window_Suc: "k \<le> n \<Longrightarrow> n < length L \<Longrightarrow> drop k (take (Suc n) L) = drop k (take n L) @ [L ! n]"
  by (simp add: take_Suc_conv_app_nth)

lemma window_Cons:
  "drop k (take n L) = x # xs \<Longrightarrow> x = L ! k \<and> k < n \<and> k < length L \<and> xs = drop (Suc k) (take n L)"
  by (metis (no_types, lifting) drop_Suc drop_eq_Nil2 length_take list.distinct(1) list.sel(1,3) hd_drop_conv_nth min_less_iff_conj
      not_le_imp_less nth_take tl_drop)

lemma nth_in_set_drop: "k0 \<le> k \<Longrightarrow> k < length L \<Longrightarrow> L ! k \<in> set (drop k0 L)"
  by (auto simp: in_set_conv_nth intro!: exI [of _ "k - k0"])

section \<open>The operations on one subscription\<close>

abbreviation state_of :: "clientConnection \<Rightarrow> string \<Rightarrow> subscriptionState option" where
  "state_of c \<equiv> map_of (cc_subscriptions c)"

abbreviation durable :: "protocol_event \<Rightarrow> bool" where
  "durable f \<equiv> he_Seq f \<noteq> None"

definition same_view :: "clientConnection \<Rightarrow> clientConnection \<Rightarrow> bool" where
  "same_view c c' \<longleftrightarrow> cc_protocolVersion c' = cc_protocolVersion c \<and> cc_contentMode c' = cc_contentMode c \<and>
     cc_publisherEphemeralTypes c' = cc_publisherEphemeralTypes c"

lemma same_view_refl [simp]: "same_view c c"
  by (simp add: same_view_def)

lemma same_view_visible: "same_view c c' \<Longrightarrow> visible c' = visible c"
  by (simp add: fun_eq_iff same_view_def visible_def client_isPublisherEphemeralType_def)

lemma put_state_simps [simp]:
  "state_of (put_state sid st c) s = (if s = sid then Some st else state_of c s)"
  "cc_frames (put_state sid st c) = cc_frames c" "same_view c (put_state sid st c)"
  "cc_protocolVersion (put_state sid st c) = cc_protocolVersion c" "cc_contentMode (put_state sid st c) = cc_contentMode c"
  by (simp_all add: put_state_def update_conv' same_view_def)

lemma markSent_simps:
  "cc_frames (markSent f c) = cc_frames c" "same_view c (markSent f c)"
  "he_SessionID f = sid \<Longrightarrow> state_of c sid = Some st \<Longrightarrow>
   state_of (markSent f c) sid = Some (st\<lparr>ss_lastSeq := (case he_Seq f of None \<Rightarrow> ss_lastSeq st | Some n \<Rightarrow> max n (ss_lastSeq st))\<rparr>)"
  by (auto simp: markSent_def max_def split: option.splits)

lemma write_and_mark_cases:
  assumes "he_SessionID f = sid" "state_of c sid = Some st"
  obtains e where "write_and_mark accepted f c = (c, Inl e)"
  | c' where "write_and_mark accepted f c = (c', Inr ())" "cc_frames c' = cc_frames c @ [f]" "same_view c c'"
      "state_of c' sid = Some (st\<lparr>ss_lastSeq := (case he_Seq f of None \<Rightarrow> ss_lastSeq st | Some n \<Rightarrow> max n (ss_lastSeq st))\<rparr>)"
proof (cases accepted)
  case True
  let ?c = "c\<lparr>cc_frames := cc_frames c @ [f]\<rparr>"
  have "same_view c (markSent f ?c)" using markSent_simps(2) [of ?c f] by (simp add: same_view_def)
  then show ?thesis
    using that(2) [of "markSent f ?c"] True assms markSent_simps(1) [of f ?c] markSent_simps(3) [of f sid ?c st]
    by (simp add: write_and_mark_def writeFrame_def)
qed (use that(1) in \<open>simp add: write_and_mark_def writeFrame_def\<close>)

lemma durable_frames_snoc:
  "cc_frames c' = cc_frames c @ [f] \<Longrightarrow> he_SessionID f = sid \<Longrightarrow>
   durable_frames sid after c' = durable_frames sid after c @
     (case he_Seq f of None \<Rightarrow> [] | Some n \<Rightarrow> if after < n then [f] else [])"
  by (simp add: durable_frames_def split: option.splits)

lemma durable_frames_same: "cc_frames c' = cc_frames c \<Longrightarrow> durable_frames sid after c' = durable_frames sid after c"
  by (simp add: durable_frames_def)

lemma carries_clone [simp]: "carries sid (cloneProtocolEvent f) ev = carries sid f ev"
  by (simp add: carries_def cloneProtocolEvent_def)

definition buffer_ok :: "string \<Rightarrow> subscriptionState \<Rightarrow> bool" where
  "buffer_ok sid st \<longleftrightarrow>
     length (ss_buffered st) \<le> maxReplayBufferedEvents \<and> (\<forall>f \<in> set (ss_buffered st). he_SessionID f = sid) \<and>
     (\<forall>(t, i) \<in> set (ss_bufferedEphemerals st). i < length (ss_buffered st) \<and> \<not> durable (ss_buffered st ! i))"

lemma filter_update: "i < length xs \<Longrightarrow> \<not> P (xs ! i) \<Longrightarrow> \<not> P x \<Longrightarrow> filter P (xs[i := x]) = filter P xs"
  by (induction xs arbitrary: i) (auto split: nat.splits simp: nth_Cons)

lemma set_alist_update: "set (AList.update k v xs) \<subseteq> insert (k, v) (set xs)"
  by (induction xs) auto

lemma buffer_event_ok:
  assumes ok: "buffer_ok sid st" and run: "buffer_event f st = Inr st'" and sid: "he_SessionID f = sid"
  shows "buffer_ok sid st'" "ss_lastSeq st' = ss_lastSeq st" "ss_replaying st' = ss_replaying st"
    "filter durable (ss_buffered st') = filter durable (ss_buffered st) @ (if durable f then [cloneProtocolEvent f] else [])"
    "set (ss_buffered st') \<subseteq> insert (cloneProtocolEvent f) (set (ss_buffered st))"
proof -
  have clone: "he_Seq (cloneProtocolEvent f) = he_Seq f" "he_SessionID (cloneProtocolEvent f) = sid"
    using sid by (simp_all add: cloneProtocolEvent_def)
  show "ss_lastSeq st' = ss_lastSeq st" "ss_replaying st' = ss_replaying st"
    using run by (auto simp: buffer_event_def split: option.splits if_splits)
  show "set (ss_buffered st') \<subseteq> insert (cloneProtocolEvent f) (set (ss_buffered st))"
    using run set_update_subset_insert by (fastforce simp: buffer_event_def split: option.splits if_splits)
  have "buffer_ok sid st' \<and>
    filter durable (ss_buffered st') = filter durable (ss_buffered st) @ (if durable f then [cloneProtocolEvent f] else [])"
  proof (cases "if he_Seq f = None then map_of (ss_bufferedEphemerals st) (he_Type f) else None")
    case (Some i)
    then have eph: "he_Seq f = None" and i: "i < length (ss_buffered st)" "\<not> durable (ss_buffered st ! i)"
      using ok by (auto simp: buffer_ok_def split: if_splits dest!: map_of_SomeD)
    have st': "st' = st\<lparr>ss_buffered := (ss_buffered st)[i := cloneProtocolEvent f]\<rparr>"
      using run Some by (simp add: buffer_event_def)
    have "he_SessionID g = sid" if "g \<in> set (ss_buffered st')" for g
      using that set_update_subset_insert [of "ss_buffered st" i "cloneProtocolEvent f"] ok clone by (auto simp: st' buffer_ok_def)
    moreover have "j < length (ss_buffered st) \<and> \<not> durable ((ss_buffered st)[i := cloneProtocolEvent f] ! j)"
      if "(t, j) \<in> set (ss_bufferedEphemerals st)" for t j
      using that ok clone(1) eph by (cases "j = i") (auto simp: buffer_ok_def)
    moreover have "filter durable ((ss_buffered st)[i := cloneProtocolEvent f]) = filter durable (ss_buffered st)"
      using i clone(1) eph by (intro filter_update) simp_all
    ultimately show ?thesis using ok eph by (auto simp: st' buffer_ok_def)
  next
    case None
    then have st': "st' = st\<lparr>ss_buffered := ss_buffered st @ [cloneProtocolEvent f],
        ss_bufferedEphemerals := (if he_Seq f = None
          then AList.update (he_Type f) (length (ss_buffered st)) (ss_bufferedEphemerals st) else ss_bufferedEphemerals st)\<rparr>"
      and len: "length (ss_buffered st) < maxReplayBufferedEvents"
      using run by (auto simp: buffer_event_def split: if_splits)
    have "i < Suc (length (ss_buffered st)) \<and> \<not> durable ((ss_buffered st @ [cloneProtocolEvent f]) ! i)"
      if "(t, i) \<in> set (ss_bufferedEphemerals st')" for t i
      using that ok clone set_alist_update [of "he_Type f" "length (ss_buffered st)" "ss_bufferedEphemerals st"]
      by (fastforce simp: st' buffer_ok_def nth_append split: if_splits)
    then show ?thesis using ok clone len by (auto simp: st' buffer_ok_def)
  qed
  then show "buffer_ok sid st'"
    "filter durable (ss_buffered st') = filter durable (ss_buffered st) @ (if durable f then [cloneProtocolEvent f] else [])"
    by simp_all
qed

section \<open>The invariant\<close>

definition delivered :: "string \<Rightarrow> int \<Rightarrow> int \<Rightarrow> clientConnection \<Rightarrow> Event list \<Rightarrow> bool" where
  "delivered sid start cur c L \<longleftrightarrow> start \<le> cur \<and> (cur \<le> int (length L) \<or> cur = start) \<and>
     list_all2 (carries sid) (durable_frames sid start c) (filter (visible c) (drop (nat start) (take (nat cur) L)))"

lemma delivered_same:
  "delivered sid start cur c L \<Longrightarrow> same_view c c' \<Longrightarrow> durable_frames sid start c' = durable_frames sid start c \<Longrightarrow>
   delivered sid start cur c' L"
  by (simp add: delivered_def same_view_visible)

lemma delivered_log: "delivered sid start cur c L \<Longrightarrow> delivered sid start cur c (L @ rest)"
  by (auto simp: delivered_def)

lemma delivered_next:
  assumes "delivered sid start (int n) c L" "0 \<le> start" "n < length L" "e_Seq (L ! n) = int n + 1" "same_view c c'"
    and frames: "durable_frames sid start c' = durable_frames sid start c @ (if visible c (L ! n) then [f] else [])"
    and "visible c (L ! n) \<Longrightarrow> carries sid f (L ! n)"
  shows "delivered sid start (int (Suc n)) c' L"
proof -
  have "nat start \<le> n" using assms(1,2) by (simp add: delivered_def nat_le_iff)
  then show ?thesis
    using assms by (auto simp: delivered_def same_view_visible window_Suc list_all2_appendI nat_add_distrib)
qed

definition queue :: "task \<Rightarrow> subscriptionState \<Rightarrow> protocol_event list" where
  "queue t st = (case t of Draining fs \<Rightarrow> fs | _ \<Rightarrow> []) @ ss_buffered st"

text \<open>Where the queue may begin: no later than what the goroutine has written or is about to write.\<close>

definition covered :: "string \<Rightarrow> task \<Rightarrow> int \<Rightarrow> int \<Rightarrow> int \<Rightarrow> nat \<Rightarrow> Event list \<Rightarrow> bool" where
  "covered sid t lastSeq start cur k L \<longleftrightarrow>
     (case t of
        Registered \<Rightarrow> start = lastSeq \<and> cur = lastSeq
      | Replaying evs \<Rightarrow> (\<exists>n \<le> length L. evs = drop (nat cur) (take n L) \<and> k \<le> n)
      | Booting evs \<Rightarrow> int k \<le> cur \<and> (\<forall>ev \<in> set evs. e_Seq ev \<le> start \<and> e_SessionID ev = sid)
      | _ \<Rightarrow> int k \<le> cur)"

definition stream_ok :: "string \<Rightarrow> int \<Rightarrow> nat \<Rightarrow> stream \<Rightarrow> bool" where
  "stream_ok sid lastSeq k0 s \<longleftrightarrow>
     (let L = event_log_of (sm_db s) sid in
      wf (sm_db s) \<and> 0 \<le> sm_from s \<and> sm_sent s \<le> length L \<and>
      (\<exists>st. state_of (sm_client s) sid = Some st \<and> delivered sid (sm_from s) (ss_lastSeq st) (sm_client s) L \<and>
         (sm_task s \<noteq> Closed \<longrightarrow>
            buffer_ok sid st \<and> (ss_replaying st \<longleftrightarrow> sm_task s \<noteq> Live) \<and> (sm_task s = Live \<longrightarrow> ss_buffered st = []) \<and>
            (\<forall>f \<in> set (queue (sm_task s) st). he_SessionID f = sid) \<and>
            (\<exists>k. k0 \<le> k \<and> k \<le> sm_sent s \<and>
               list_all2 (carries sid) (filter durable (queue (sm_task s) st)) (drop k (take (sm_sent s) L)) \<and>
               covered sid (sm_task s) lastSeq (sm_from s) (ss_lastSeq st) k L))))"

definition allowed :: "clientConnection \<Rightarrow> protocol_event \<Rightarrow> bool" where
  "allowed c f \<longleftrightarrow> EventTypeAllowed (cc_protocolVersion c) (he_Type f) True \<and> \<not> client_isPublisherEphemeralType c (he_Type f)"

abbreviation stale_frame :: "subscriptionState \<Rightarrow> protocol_event \<Rightarrow> bool" where
  "stale_frame st f \<equiv> (case he_Seq f of None \<Rightarrow> False | Some n \<Rightarrow> n \<le> ss_lastSeq st)"

definition advance :: "protocol_event \<Rightarrow> subscriptionState \<Rightarrow> subscriptionState" where
  "advance f st = st\<lparr>ss_lastSeq := (case he_Seq f of None \<Rightarrow> ss_lastSeq st | Some n \<Rightarrow> max n (ss_lastSeq st))\<rparr>"

lemma advance_simps [simp]:
  "ss_replaying (advance f st) = ss_replaying st" "ss_buffered (advance f st) = ss_buffered st"
  "buffer_ok sid (advance f st) = buffer_ok sid st" "queue t (advance f st) = queue t st"
  "he_Seq f = None \<Longrightarrow> advance f st = st" "ss_lastSeq st \<le> ss_lastSeq (advance f st)"
  by (auto simp: advance_def buffer_ok_def queue_def split: option.splits)

lemma live_cases:
  assumes sid: "he_SessionID f = sid" "state_of c sid = Some st" and vis: "durable f \<longrightarrow> allowed c f"
  obtains (refused) e where "sendLiveEvent accepted f c = (c, Inl e)"
  | (ignored) "sendLiveEvent accepted f c = (c, Inr ())" "\<not> durable f \<or> (\<not> ss_replaying st \<and> stale_frame st f)"
  | (buffered) st' where "sendLiveEvent accepted f c = (put_state sid st' c, Inr ())" "ss_replaying st" "buffer_event f st = Inr st'"
      "required_live c f = Inr ()"
  | (written) c' where "sendLiveEvent accepted f c = (c', Inr ())" "\<not> ss_replaying st" "\<not> stale_frame st f"
      "cc_frames c' = cc_frames c @ [f]" "same_view c c'" "state_of c' sid = Some (advance f st)" "required_live c f = Inr ()"
proof (cases "required_live c f")
  case (Inl e)
  then show ?thesis using refused by (simp add: sendLiveEvent_def)
next
  case (Inr u)
  then have req: "required_live c f = Inr ()" by simp
  let ?skip = "\<not> EventTypeAllowed (cc_protocolVersion c) (he_Type f) (durable f) \<or> (durable f \<and> client_isPublisherEphemeralType c (he_Type f))"
  show ?thesis
  proof (cases ?skip)
    case True
    then have "he_Seq f = None" using vis by (cases "he_Seq f") (auto simp: allowed_def)
    then show ?thesis using ignored True req by (simp add: sendLiveEvent_def markSent_def)
  next
    case pass: False
    have core: "sendLiveEvent accepted f c =
        (if ss_replaying st then
           (case buffer_event f st of Inl e \<Rightarrow> (c, Inl e) | Inr st \<Rightarrow> (put_state sid st c, Inr ()))
         else if stale_frame st f then (c, Inr ()) else write_and_mark accepted f c)"
      using req pass sid by (auto simp: sendLiveEvent_def)
    show ?thesis
    proof (cases "ss_replaying st")
      case True
      show ?thesis
      proof (cases "buffer_event f st")
        case (Inl e)
        then show ?thesis using refused True core by simp
      next
        case (Inr st')
        show ?thesis by (rule buffered [OF _ True Inr req]) (simp add: core True Inr)
      qed
    next
      case direct: False
      show ?thesis
      proof (cases "stale_frame st f")
        case True
        then show ?thesis using ignored direct core by simp
      next
        case False
        have run: "sendLiveEvent accepted f c = write_and_mark accepted f c"
          using False direct core by simp
        from sid show ?thesis
        proof (cases rule: write_and_mark_cases [where accepted = accepted])
          case (1 e)
          then show ?thesis using refused run by simp
        next
          case (2 c')
          show ?thesis by (rule written [OF _ direct False 2(2,3) _ req]) (simp_all add: run 2 advance_def)
        qed
      qed
    qed
  qed
qed

section \<open>Every step keeps the invariant\<close>

lemma settle_simps [simp]:
  "settle (c, Inl e) t s = s\<lparr>sm_client := c, sm_task := Closed\<rparr>" "settle (c, Inr u) t s = s\<lparr>sm_client := c, sm_task := t\<rparr>"
  by (simp_all add: settle_def)

lemma stream_ok_close: "stream_ok sid lastSeq k0 s \<Longrightarrow> stream_ok sid lastSeq k0 (s\<lparr>sm_task := Closed\<rparr>)"
  by (auto simp: stream_ok_def Let_def)

lemma stream_okE:
  assumes "stream_ok sid lastSeq k0 s" "sm_task s \<noteq> Closed"
  obtains st k where "wf (sm_db s)" "0 \<le> sm_from s" "sm_sent s \<le> length (event_log_of (sm_db s) sid)"
    "state_of (sm_client s) sid = Some st"
    "delivered sid (sm_from s) (ss_lastSeq st) (sm_client s) (event_log_of (sm_db s) sid)" "buffer_ok sid st"
    "ss_replaying st \<longleftrightarrow> sm_task s \<noteq> Live" "sm_task s = Live \<Longrightarrow> ss_buffered st = []"
    "\<And>f. f \<in> set (queue (sm_task s) st) \<Longrightarrow> he_SessionID f = sid" "k0 \<le> k" "k \<le> sm_sent s"
    "list_all2 (carries sid) (filter durable (queue (sm_task s) st)) (drop k (take (sm_sent s) (event_log_of (sm_db s) sid)))"
    "covered sid (sm_task s) lastSeq (sm_from s) (ss_lastSeq st) k (event_log_of (sm_db s) sid)"
  using assms unfolding stream_ok_def Let_def by blast

lemma stream_okI:
  assumes "wf (sm_db s)" "0 \<le> sm_from s" "sm_sent s \<le> length (event_log_of (sm_db s) sid)"
    "state_of (sm_client s) sid = Some st"
    "delivered sid (sm_from s) (ss_lastSeq st) (sm_client s) (event_log_of (sm_db s) sid)"
    "buffer_ok sid st" "ss_replaying st \<longleftrightarrow> sm_task s \<noteq> Live" "sm_task s = Live \<Longrightarrow> ss_buffered st = []"
    "\<And>f. f \<in> set (queue (sm_task s) st) \<Longrightarrow> he_SessionID f = sid" "k0 \<le> k" "k \<le> sm_sent s"
    "list_all2 (carries sid) (filter durable (queue (sm_task s) st)) (drop k (take (sm_sent s) (event_log_of (sm_db s) sid)))"
    "covered sid (sm_task s) lastSeq (sm_from s) (ss_lastSeq st) k (event_log_of (sm_db s) sid)"
  shows "stream_ok sid lastSeq k0 s"
  using assms unfolding stream_ok_def Let_def by blast

lemma covered_log: "covered sid t lastSeq start cur k L \<Longrightarrow> covered sid t lastSeq start cur k (L @ rest)"
proof (cases t)
  case (Replaying evs)
  assume "covered sid t lastSeq start cur k L"
  then obtain n where "n \<le> length L" "evs = drop (nat cur) (take n L)" "k \<le> n" by (auto simp: covered_def Replaying)
  then show ?thesis by (auto simp: covered_def Replaying intro!: exI [of _ n])
qed (auto simp: covered_def)

lemma store_ok:
  assumes ok: "stream_ok sid lastSeq k0 s" and run: "store_run (sm_db s) d"
  shows "stream_ok sid lastSeq k0 (s\<lparr>sm_db := d\<rparr>)"
proof -
  note step = store_run_step [OF run]
  obtain rest where L: "event_log_of d sid = event_log_of (sm_db s) sid @ rest"
    using store_step_prefix [OF step, of sid] by (auto simp: prefix_def)
  note cov = covered_log [where rest = rest]
  have wf: "wf d" using ok store_step_wf [OF step] by (simp add: stream_ok_def Let_def)
  show ?thesis
  proof (cases "sm_task s = Closed")
    case True
    then show ?thesis using ok wf by (auto simp: stream_ok_def Let_def L intro: delivered_log)
  next
    case False
    from ok False show ?thesis
    proof (cases rule: stream_okE)
      case (1 st k)
      show ?thesis
        by (rule stream_okI [where st = st and k = k]) (use 1 wf cov in \<open>simp_all add: L delivered_log\<close>)
    qed
  qed
qed

lemma others_ok_stream:
  assumes "stream_ok sid lastSeq k0 s" "elsewhere sid (sm_client s) c"
  shows "stream_ok sid lastSeq k0 (s\<lparr>sm_client := c\<rparr>)"
proof -
  obtain subs frames where c: "map_of subs sid = state_of (sm_client s) sid" "\<forall>f \<in> set frames. he_SessionID f \<noteq> sid"
    "c = (sm_client s)\<lparr>cc_subscriptions := subs, cc_frames := cc_frames (sm_client s) @ frames\<rparr>"
    using assms(2) by (auto simp: elsewhere_def)
  have "durable_frames sid start c = durable_frames sid start (sm_client s)" for start
    using c(2,3) by (auto simp: durable_frames_def filter_empty_conv)
  moreover have "same_view (sm_client s) c" "state_of c sid = state_of (sm_client s) sid" using c by (simp_all add: same_view_def)
  ultimately show ?thesis using assms(1) delivered_same by (auto simp: stream_ok_def Let_def)
qed

lemma live_queue:
  assumes "list_all2 P (filter durable (queue Live st)) (drop k (take n L))" "ss_buffered st = []" "k \<le> n" "n \<le> length L"
  shows "k = n"
  using assms by (simp add: queue_def)

lemma queue_buffered:
  assumes "buffer_ok sid st" "buffer_event f st = Inr st'" "he_SessionID f = sid"
  shows "filter durable (queue t st') = filter durable (queue t st) @ (if durable f then [cloneProtocolEvent f] else [])"
    "g \<in> set (queue t st') \<Longrightarrow> (\<And>g. g \<in> set (queue t st) \<Longrightarrow> he_SessionID g = sid) \<Longrightarrow> he_SessionID g = sid"
  using buffer_event_ok [OF assms] assms(3) by (auto simp: queue_def cloneProtocolEvent_def)

lemma broadcast_ok:
  assumes ok: "stream_ok sid lastSeq k0 s" and open_task: "sm_task s \<noteq> Closed"
    and n: "sm_sent s < length (event_log_of (sm_db s) sid)" and f: "carries sid f (event_log_of (sm_db s) sid ! sm_sent s)"
    and vis: "visible (sm_client s) (event_log_of (sm_db s) sid ! sm_sent s)"
  shows "stream_ok sid lastSeq k0
    ((settle (sendLiveEvent accepted f (sm_client s)) (sm_task s) s)\<lparr>sm_sent := Suc (sm_sent s)\<rparr>)"
  using ok open_task
proof (cases rule: stream_okE)
  case (1 st k)
  let ?L = "event_log_of (sm_db s) sid" and ?n = "sm_sent s" and ?c = "sm_client s"
  note seq = log_seq(1) [OF 1(1) n]
  have fs: "he_SessionID f = sid" "he_Seq f = Some (int ?n + 1)" "durable f" "allowed ?c f"
    using f seq vis by (auto simp: carries_def allowed_def visible_def)
  have v: "durable f \<longrightarrow> allowed ?c f" using fs(4) by simp
  from fs(1) 1(4) v show ?thesis
  proof (cases rule: live_cases [where accepted = accepted])
    case (refused e)
    then show ?thesis using 1 n by (auto simp: stream_ok_def Let_def)
  next
    case ignored
    then have live: "sm_task s = Live" "int ?n + 1 \<le> ss_lastSeq st" using fs 1(7) by auto
    show ?thesis
      by (rule stream_okI [where st = st and k = "Suc ?n"])
        (use 1 n live ignored in \<open>simp_all add: queue_def covered_def\<close>)
  next
    case (buffered st')
    note b = buffer_event_ok [OF 1(6) buffered(3) fs(1)] and q = queue_buffered [OF 1(6) buffered(3) fs(1)]
    have "filter durable (queue (sm_task s) st') = filter durable (queue (sm_task s) st) @ [cloneProtocolEvent f]"
      using q(1) fs(3) by simp
    moreover have "drop k (take (Suc ?n) ?L) = drop k (take ?n ?L) @ [?L ! ?n]" by (rule window_Suc [OF 1(11) n])
    ultimately have "list_all2 (carries sid) (filter durable (queue (sm_task s) st')) (drop k (take (Suc ?n) ?L))"
      using 1(12) f by (simp add: list_all2_appendI)
    moreover have "sm_task s \<noteq> Live" using buffered(2) 1(7) by simp
    moreover have "delivered sid (sm_from s) (ss_lastSeq st') (put_state sid st' ?c) ?L"
      unfolding b(2) by (rule delivered_same [OF 1(5)]) (simp, rule durable_frames_same, simp)
    ultimately show ?thesis
      by (intro stream_okI [where st = st' and k = k]) (use 1(1-4,6-13) n b(1,2,3) buffered(1) q(2) [OF _ 1(9)] in simp_all)
  next
    case (written c')
    then have live: "sm_task s = Live" using 1(7) by simp
    have k: "k = ?n" using live_queue [of "carries sid" st k ?n ?L] 1(8,11,12) live n by simp
    have cur: "ss_lastSeq st = int ?n" using written(3) fs(2) 1(13) k live by (simp add: covered_def)
    have "int ?n \<ge> sm_from s" using 1(5) cur by (simp add: delivered_def)
    then have new: "durable_frames sid (sm_from s) c' = durable_frames sid (sm_from s) ?c @ (if visible ?c (?L ! ?n) then [f] else [])"
      using durable_frames_snoc [OF written(4) fs(1), of "sm_from s"] fs(2) vis by simp
    have del: "delivered sid (sm_from s) (int (Suc ?n)) c' ?L"
      by (rule delivered_next [OF 1(5) [unfolded cur] 1(2) n seq written(5) new f])
    have adv: "ss_lastSeq (advance f st) = int (Suc ?n)" using fs(2) cur by (simp add: advance_def)
    show ?thesis
      by (rule stream_okI [where st = "advance f st" and k = "Suc ?n"])
        (use 1 n written(1,2,6) live adv k del in \<open>simp_all add: queue_def covered_def\<close>)
  qed
qed

lemma ephemeral_ok:
  assumes ok: "stream_ok sid lastSeq k0 s" and open_task: "sm_task s \<noteq> Closed" and f: "he_Seq f = None" "he_SessionID f = sid"
  shows "stream_ok sid lastSeq k0 (settle (sendLiveEvent accepted f (sm_client s)) (sm_task s) s)"
  using ok open_task
proof (cases rule: stream_okE)
  case (1 st k)
  let ?c = "sm_client s"
  have v: "durable f \<longrightarrow> allowed ?c f" using f by simp
  from f(2) 1(4) v show ?thesis
  proof (cases rule: live_cases [where accepted = accepted])
    case (refused e)
    then show ?thesis using stream_ok_close [OF ok] by simp
  next
    case ignored
    then show ?thesis using ok by simp
  next
    case (buffered st')
    note b = buffer_event_ok [OF 1(6) buffered(3) f(2)] and q = queue_buffered [OF 1(6) buffered(3) f(2)]
    have "delivered sid (sm_from s) (ss_lastSeq st') (put_state sid st' ?c) (event_log_of (sm_db s) sid)"
      unfolding b(2) by (rule delivered_same [OF 1(5)]) (simp, rule durable_frames_same, simp)
    then show ?thesis
      by (intro stream_okI [where st = st' and k = k]) (use 1(1-4,6-13) b(1,2,3) buffered(1,2) q(1) q(2) [OF _ 1(9)] f in simp_all)
  next
    case (written c')
    have "delivered sid (sm_from s) (ss_lastSeq st) c' (event_log_of (sm_db s) sid)"
      by (rule delivered_same [OF 1(5) written(5)]) (use durable_frames_snoc [OF written(4) f(2)] f(1) in simp)
    then show ?thesis
      by (intro stream_okI [where st = st and k = k]) (use 1 written(1,2,6) f in simp_all)
  qed
qed

lemma replay_ok:
  assumes ok: "stream_ok sid lastSeq k0 s" and t: "sm_task s = Registered"
  shows "stream_ok sid lastSeq k0
    (s\<lparr>sm_task := Replaying (map row_event (filter (\<lambda>r. ev_seq r > lastSeq) (session_rows (sm_db s) sid)))\<rparr>)"
proof -
  have "sm_task s \<noteq> Closed" using t by simp
  with ok show ?thesis
  proof (cases rule: stream_okE)
    case (1 st k)
    have "k \<le> length (event_log_of (sm_db s) sid)" using 1(3,11) by simp
    then show ?thesis unfolding replay_rows [OF 1(1)]
      by (intro stream_okI [where st = st and k = k])
        (use 1 t in \<open>auto simp: queue_def covered_def intro!: exI [of _ "length (event_log_of (sm_db s) sid)"]\<close>)
  qed
qed

lemma replay_event_simps [simp]:
  "he_SessionID (replay_event ev) = e_SessionID ev" "he_Seq (replay_event ev) = Some (e_Seq ev)"
  "he_Type (replay_event ev) = e_Type ev" "carries sid (replay_event ev) ev \<longleftrightarrow> e_SessionID ev = sid"
  by (simp_all add: replay_event_def carries_def)

text \<open>Writing a stored event: it is skipped for a client that may not see it, and marked either way.\<close>

lemma writeReplayEvent_cases:
  assumes "e_SessionID ev = sid" "state_of c sid = Some st"
  obtains (failed) e where "writeReplayEvent accepted (replay_event ev) c = (c, Inl e)"
  | (skipped) c' where "writeReplayEvent accepted (replay_event ev) c = (c', Inr ())" "\<not> visible c ev" "cc_frames c' = cc_frames c"
      "same_view c c'" "state_of c' sid = Some (advance (replay_event ev) st)"
  | (written) c' where "writeReplayEvent accepted (replay_event ev) c = (c', Inr ())" "visible c ev"
      "cc_frames c' = cc_frames c @ [replay_event ev]" "same_view c c'" "state_of c' sid = Some (advance (replay_event ev) st)"
proof (cases "visible c ev")
  case False
  show ?thesis
    by (rule skipped [where c' = "markSent (replay_event ev) c"])
      (use False assms markSent_simps(3) [of "replay_event ev" sid c st] in
        \<open>auto simp: writeReplayEvent_def visible_def markSent_simps(1,2) advance_def\<close>)
next
  case True
  have run: "writeReplayEvent accepted (replay_event ev) c = write_and_mark accepted (replay_event ev) c"
    using True by (simp add: writeReplayEvent_def visible_def)
  have "he_SessionID (replay_event ev) = sid" using assms(1) by simp
  from this assms(2) show ?thesis
  proof (cases rule: write_and_mark_cases [where accepted = accepted])
    case (1 e)
    then show ?thesis using failed run by simp
  next
    case (2 c')
    show ?thesis by (rule written [OF _ True 2(2,3)]) (simp_all add: run 2 advance_def)
  qed
qed

lemma replayed_event_ok:
  assumes ok: "stream_ok sid lastSeq k0 s" and t: "sm_task s = Replaying (ev # evs)"
  shows "stream_ok sid lastSeq k0 (settle (replay_one accepted sid ev (sm_client s)) (Replaying evs) s)"
proof -
  let ?L = "event_log_of (sm_db s) sid" and ?c = "sm_client s"
  have "sm_task s \<noteq> Closed" using t by simp
  with ok show ?thesis
  proof (cases rule: stream_okE)
    case (1 st k)
    have "0 \<le> ss_lastSeq st" using 1(2,5) by (simp add: delivered_def)
    then obtain i where cur: "ss_lastSeq st = int i" by (rule nonneg_int_cases)
    obtain n where n: "n \<le> length ?L" "ev # evs = drop i (take n ?L)" "k \<le> n" using 1(13) by (auto simp: covered_def t cur)
    note w = window_Cons [OF n(2) [symmetric]]
    then have ev: "ev = ?L ! i" "i < length ?L" "evs = drop (Suc i) (take n ?L)" by simp_all
    note seq = log_seq [OF 1(1) ev(2)]
    have adv: "ss_lastSeq (advance (replay_event ev) st) = int (Suc i)" using seq cur by (simp add: advance_def ev(1))
    have start: "sm_from s \<le> int i" using 1(5) cur by (simp add: delivered_def)
    have next_ok: "stream_ok sid lastSeq k0 (s\<lparr>sm_client := c', sm_task := Replaying evs\<rparr>)"
      if "same_view ?c c'" "state_of c' sid = Some (advance (replay_event ev) st)"
        and frames: "durable_frames sid (sm_from s) c' = durable_frames sid (sm_from s) ?c @ (if visible ?c (?L ! i) then [replay_event ev] else [])"
      for c'
    proof -
      have "delivered sid (sm_from s) (int (Suc i)) c' ?L"
        by (rule delivered_next [OF 1(5) [unfolded cur] 1(2) ev(2) seq(1) that(1) frames]) (simp add: ev(1) seq(2))
      moreover have "covered sid (Replaying evs) lastSeq (sm_from s) (int (Suc i)) k ?L"
        using ev(3) n by (auto simp: covered_def simp del: of_nat_Suc intro!: exI [of _ n])
      ultimately show ?thesis
        by (intro stream_okI [where st = "advance (replay_event ev) st" and k = k])
          (use 1(1-4,6-12) t that(2) adv in \<open>auto simp: queue_def\<close>)
    qed
    have sid: "e_SessionID ev = sid" using seq ev by simp
    from sid 1(4) have "stream_ok sid lastSeq k0 (settle (writeReplayEvent accepted (replay_event ev) ?c) (Replaying evs) s)"
    proof (cases rule: writeReplayEvent_cases [where accepted = accepted])
      case (failed e)
      then show ?thesis using stream_ok_close [OF ok] by simp
    next
      case (skipped c')
      have "durable_frames sid (sm_from s) c' = durable_frames sid (sm_from s) ?c" by (rule durable_frames_same [OF skipped(3)])
      then show ?thesis using next_ok [OF skipped(4,5)] skipped(1,2) ev(1) by simp
    next
      case (written c')
      have "durable_frames sid (sm_from s) c' = durable_frames sid (sm_from s) ?c @ [replay_event ev]"
        using durable_frames_snoc [OF written(3), of sid "sm_from s"] seq start sid ev(1) by simp
      then show ?thesis using next_ok [OF written(4,5)] written(1,2) ev(1) by simp
    qed
    then show ?thesis using stream_ok_close [OF ok] by (auto simp: replay_one_def split: sum.splits)
  qed
qed

lemma tail_ok:
  assumes ok: "stream_ok sid lastSeq k0 s" and t: "sm_task s = Registered"
    and run: "prepareTailBootstrap sid lastSeq (sm_db s) (sm_client s) = (c, Inr latest)"
  shows "stream_ok sid lastSeq k0 (s\<lparr>sm_client := c, sm_from := latest, sm_task := Sampled\<rparr>)"
proof -
  let ?L = "event_log_of (sm_db s) sid"
  have "sm_task s \<noteq> Closed" using t by simp
  with ok show ?thesis
  proof (cases rule: stream_okE)
    case (1 st k)
    have latest: "latest = int (length ?L)" "lastSeq \<le> latest" "c = put_state sid (st\<lparr>ss_lastSeq := latest\<rparr>) (sm_client s)"
      using run store_log.latest_length [OF 1(1), of sid] 1(4)
      by (auto simp: prepareTailBootstrap_def split: sum.splits if_splits option.splits)
    have "durable_frames sid lastSeq (sm_client s) = []" using 1(5,13) t by (simp add: delivered_def covered_def)
    then have "durable_frames sid latest c = []"
      using latest(2,3) by (fastforce simp: durable_frames_def filter_empty_conv split: option.splits)
    then have "delivered sid latest latest c ?L" by (simp add: delivered_def)
    moreover have "buffer_ok sid (st\<lparr>ss_lastSeq := latest\<rparr>)" using 1(6) by (simp add: buffer_ok_def)
    ultimately show ?thesis
      by (intro stream_okI [where st = "st\<lparr>ss_lastSeq := latest\<rparr>" and k = k])
        (use 1(1-3,7-12) t latest in \<open>auto simp: queue_def covered_def\<close>)
  qed
qed

lemma check_bootstrap_ok:
  "check_bootstrap required sid lastSeq types previous events = Inr () \<Longrightarrow> ev \<in> set events \<Longrightarrow>
   e_Seq ev \<le> lastSeq \<and> e_SessionID ev = sid \<and> (required \<longrightarrow> validateRequiredReplayEvent ev sid = Inr ())"
proof (induction events arbitrary: types previous)
  case (Cons e events)
  then show ?case by (auto split: if_splits)
qed simp

lemma bootstrap_ok:
  assumes ok: "stream_ok sid lastSeq k0 s" and t: "sm_task s = Sampled"
    and run: "bootstrap_events required sid (sm_from s) (sm_db s) = Inr evs"
  shows "stream_ok sid lastSeq k0 (s\<lparr>sm_task := Booting evs\<rparr>)"
proof -
  have "check_bootstrap required sid (sm_from s) BootstrapEventTypes 0 evs = Inr ()"
    using run by (auto simp: bootstrap_events_def split: if_splits)
  then have evs: "\<forall>ev \<in> set evs. e_Seq ev \<le> sm_from s \<and> e_SessionID ev = sid" using check_bootstrap_ok by blast
  have "sm_task s \<noteq> Closed" using t by simp
  with ok show ?thesis
  proof (cases rule: stream_okE)
    case (1 st k)
    show ?thesis
      by (rule stream_okI [where st = st and k = k]) (use 1 t evs in \<open>auto simp: queue_def covered_def\<close>)
  qed
qed

lemma boot_event_ok:
  assumes ok: "stream_ok sid lastSeq k0 s" and t: "sm_task s = Booting (ev # evs)"
  shows "stream_ok sid lastSeq k0 (settle (writeReplayEvent accepted (replay_event ev) (sm_client s)) (Booting evs) s)"
proof -
  let ?L = "event_log_of (sm_db s) sid" and ?c = "sm_client s"
  have "sm_task s \<noteq> Closed" using t by simp
  with ok show ?thesis
  proof (cases rule: stream_okE)
    case (1 st k)
    have ev: "e_Seq ev \<le> sm_from s" "e_SessionID ev = sid" using 1(13) t by (auto simp: covered_def)
    have "sm_from s \<le> ss_lastSeq st" using 1(5) by (simp add: delivered_def)
    then have adv: "advance (replay_event ev) st = st" using ev(1) by (simp add: advance_def max_def)
    have next_ok: "stream_ok sid lastSeq k0 (s\<lparr>sm_client := c', sm_task := Booting evs\<rparr>)"
      if "same_view ?c c'" "state_of c' sid = Some st" "durable_frames sid (sm_from s) c' = durable_frames sid (sm_from s) ?c" for c'
      by (rule stream_okI [where st = st and k = k])
        (use 1(1-4,6-13) t that(2) delivered_same [OF 1(5) that(1,3)] in \<open>auto simp: queue_def covered_def\<close>)
    from ev(2) 1(4) show ?thesis
    proof (cases rule: writeReplayEvent_cases [where accepted = accepted])
      case (failed e)
      then show ?thesis using stream_ok_close [OF ok] by simp
    next
      case (skipped c')
      then show ?thesis using next_ok [OF skipped(4) _ durable_frames_same [OF skipped(3)]] adv by simp
    next
      case (written c')
      have "durable_frames sid (sm_from s) c' = durable_frames sid (sm_from s) ?c"
        using durable_frames_snoc [OF written(3), of sid "sm_from s"] ev by simp
      then show ?thesis using next_ok [OF written(4)] written(1,5) adv by simp
    qed
  qed
qed

lemma drain_ok:
  assumes ok: "stream_ok sid lastSeq k0 s" and t: "sm_task s = Replaying [] \<or> sm_task s = Booting [] \<or> sm_task s = Draining []"
    and run: "finish_round sid (sm_client s) = (c, next)"
  shows "stream_ok sid lastSeq k0 (s\<lparr>sm_client := c, sm_task := (case next of None \<Rightarrow> Live | Some fs \<Rightarrow> Draining fs)\<rparr>)"
proof -
  let ?L = "event_log_of (sm_db s) sid" and ?c = "sm_client s"
  have "sm_task s \<noteq> Closed" using t by auto
  with ok show ?thesis
  proof (cases rule: stream_okE)
    case (1 st k)
    let ?st = "st\<lparr>ss_buffered := [], ss_bufferedEphemerals := []\<rparr>"
    have q: "queue (sm_task s) st = ss_buffered st" using t by (auto simp: queue_def)
    have "0 \<le> ss_lastSeq st" using 1(2,5) by (simp add: delivered_def)
    then have k: "int k \<le> ss_lastSeq st" using 1(13) t by (auto simp: covered_def)
    have del: "delivered sid (sm_from s) (ss_lastSeq st) (put_state sid x ?c) ?L" for x
      by (rule delivered_same [OF 1(5)]) (simp, rule durable_frames_same, simp)
    have empty: "buffer_ok sid ?st" "buffer_ok sid (?st\<lparr>ss_replaying := False\<rparr>)" by (simp_all add: buffer_ok_def)
    show ?thesis
    proof (cases "ss_buffered st = []")
      case True
      then have "c = put_state sid (?st\<lparr>ss_replaying := False\<rparr>) ?c" "next = None"
        using run 1(4) by (auto simp: finish_round_def Let_def)
      then show ?thesis
        by (intro stream_okI [where st = "?st\<lparr>ss_replaying := False\<rparr>" and k = k])
          (use 1(1-3,10-12) k del empty q True in \<open>simp_all add: queue_def covered_def\<close>)
    next
      case False
      then have "c = put_state sid ?st ?c" "next = Some (ss_buffered st)" using run 1(4) by (auto simp: finish_round_def Let_def)
      moreover have "ss_replaying st" using 1(7) t by auto
      ultimately show ?thesis
        by (intro stream_okI [where st = ?st and k = k])
          (use 1(1-3,9-12) k del empty q in \<open>simp_all add: queue_def covered_def\<close>)
    qed
  qed
qed

lemma buffered_cases:
  assumes "he_SessionID f = sid" "state_of c sid = Some st"
  obtains (failed) e where "writeBufferedEvent accepted f c = (c, Inl e)"
  | (skipped) "writeBufferedEvent accepted f c = (c, Inr ())" "stale_frame st f"
  | (written) c' where "writeBufferedEvent accepted f c = (c', Inr ())" "\<not> stale_frame st f" "cc_frames c' = cc_frames c @ [f]"
      "same_view c c'" "state_of c' sid = Some (advance f st)"
proof (cases "stale_frame st f")
  case True
  then show ?thesis using skipped assms by (simp add: writeBufferedEvent_def)
next
  case False
  have run: "writeBufferedEvent accepted f c = write_and_mark accepted f c"
    using False assms by (simp add: writeBufferedEvent_def)
  from assms show ?thesis
  proof (cases rule: write_and_mark_cases [where accepted = accepted])
    case (1 e)
    then show ?thesis using failed run by simp
  next
    case (2 c')
    show ?thesis by (rule written [OF _ False 2(2,3)]) (simp_all add: run 2 advance_def)
  qed
qed

lemma drain_event_ok:
  assumes ok: "stream_ok sid lastSeq k0 s" and t: "sm_task s = Draining (f # fs)"
    and vis: "\<forall>ev \<in> set (drop k0 (event_log_of (sm_db s) sid)). visible (sm_client s) ev"
  shows "stream_ok sid lastSeq k0 (settle (writeBufferedEvent accepted f (sm_client s)) (Draining fs) s)"
proof -
  let ?L = "event_log_of (sm_db s) sid" and ?c = "sm_client s" and ?q = "\<lambda>st. fs @ ss_buffered st"
  have "sm_task s \<noteq> Closed" using t by simp
  with ok show ?thesis
  proof (cases rule: stream_okE)
    case (1 st k)
    have k: "int k \<le> ss_lastSeq st" using 1(13) t by (simp add: covered_def)
    have q: "queue (sm_task s) st = f # ?q st" by (simp add: queue_def t)
    have sid: "he_SessionID f = sid" using 1(9) q by simp
    have next_ok: "stream_ok sid lastSeq k0 (s\<lparr>sm_client := c', sm_task := Draining fs\<rparr>)"
      if "state_of c' sid = Some st'" "delivered sid (sm_from s) (ss_lastSeq st') c' ?L" "k0 \<le> k'" "k' \<le> sm_sent s" "int k' \<le> ss_lastSeq st'"
        "list_all2 (carries sid) (filter durable (?q st)) (drop k' (take (sm_sent s) ?L))" "st' = advance f st \<or> st' = st"
      for c' st' k'
      by (rule stream_okI [where st = st' and k = k'])
        (use that 1(1-3,6,7,9) q t in \<open>auto simp: queue_def covered_def\<close>)
    show ?thesis
    proof (cases "he_Seq f")
      case None
      have rest: "list_all2 (carries sid) (filter durable (?q st)) (drop k (take (sm_sent s) ?L))" using 1(12) q None by simp
      from sid 1(4) show ?thesis
      proof (cases rule: buffered_cases [where accepted = accepted])
        case (written c')
        have "delivered sid (sm_from s) (ss_lastSeq st) c' ?L"
          by (rule delivered_same [OF 1(5) written(4)]) (use durable_frames_snoc [OF written(3) sid] None in simp)
        then show ?thesis using next_ok [OF _ _ 1(10,11) _ rest, of c' st] written(1,5) k None by simp
      qed (use stream_ok_close [OF ok] next_ok [OF 1(4,5,10,11) k rest] None in simp_all)
    next
      case (Some m)
      then have "list_all2 (carries sid) (f # filter durable (?q st)) (drop k (take (sm_sent s) ?L))" using 1(12) q by simp
      then obtain ev evs where d: "drop k (take (sm_sent s) ?L) = ev # evs" "carries sid f ev"
        "list_all2 (carries sid) (filter durable (?q st)) evs" by (auto simp: list_all2_Cons1)
      note w = window_Cons [OF d(1)]
      then have ev: "ev = ?L ! k" "k < sm_sent s" "k < length ?L" "evs = drop (Suc k) (take (sm_sent s) ?L)" by simp_all
      note seq = log_seq(1) [OF 1(1) ev(3)]
      have m: "m = int k + 1" using d(2) Some seq ev(1) by (simp add: carries_def)
      have rest: "list_all2 (carries sid) (filter durable (?q st)) (drop (Suc k) (take (sm_sent s) ?L))" using d(3) ev(4) by simp
      have k': "k0 \<le> Suc k" "Suc k \<le> sm_sent s" using 1(10) ev(2) by simp_all
      have "ev \<in> set (drop k0 ?L)" using ev(1,3) 1(10) by (simp add: nth_in_set_drop)
      then have see: "visible ?c (?L ! k)" using vis ev(1) by blast
      from sid 1(4) show ?thesis
      proof (cases rule: buffered_cases [where accepted = accepted])
        case skipped
        then show ?thesis using next_ok [OF 1(4,5) k' _ rest] Some m by simp
      next
        case (written c')
        have cur: "ss_lastSeq st = int k" using written(2) Some m k by simp
        have "sm_from s \<le> int k" using 1(5) cur by (simp add: delivered_def)
        then have new: "durable_frames sid (sm_from s) c' = durable_frames sid (sm_from s) ?c @ (if visible ?c (?L ! k) then [f] else [])"
          using durable_frames_snoc [OF written(3) sid, of "sm_from s"] Some m see by simp
        have "delivered sid (sm_from s) (int (Suc k)) c' ?L"
          by (rule delivered_next [OF 1(5) [unfolded cur] 1(2) ev(3) seq written(4) new]) (use d(2) ev(1) in simp)
        moreover have "ss_lastSeq (advance f st) = int (Suc k)" using Some m cur by (simp add: advance_def)
        ultimately show ?thesis using next_ok [OF written(5) _ k' _ rest] written(1) by simp
      qed (use stream_ok_close [OF ok] in simp)
    qed
  qed
qed

section \<open>Runs\<close>

lemma same_view_trans: "same_view a b \<Longrightarrow> same_view b c \<Longrightarrow> same_view a c"
  by (simp add: same_view_def)

lemma view_write: "same_view c (fst (write_and_mark accepted f c))"
  using markSent_simps(2) [of "c\<lparr>cc_frames := cc_frames c @ [f]\<rparr>" f]
  by (simp add: write_and_mark_def writeFrame_def same_view_def)

lemma views:
  "same_view c (fst (writeReplayEvent accepted f c))" "same_view c (fst (writeBufferedEvent accepted f c))"
  "same_view c (fst (sendLiveEvent accepted f c))" "same_view c (fst (replay_one accepted sid ev c))"
  "same_view c (fst (prepareTailBootstrap sid lastSeq d c))" "same_view c (fst (finish_round sid c))"
proof -
  show replay: "same_view c (fst (writeReplayEvent accepted f c))" for f
    by (simp add: writeReplayEvent_def view_write markSent_simps(2))
  show "same_view c (fst (writeBufferedEvent accepted f c))"
    by (simp add: writeBufferedEvent_def view_write split: option.split)
  show "same_view c (fst (sendLiveEvent accepted f c))"
    by (simp add: sendLiveEvent_def view_write markSent_simps(2) split: option.split sum.split)
  show "same_view c (fst (replay_one accepted sid ev c))"
    by (simp add: replay_one_def replay split: sum.split)
  show "same_view c (fst (prepareTailBootstrap sid lastSeq d c))"
    by (simp add: prepareTailBootstrap_def split: sum.split option.split)
  show "same_view c (fst (finish_round sid c))"
    by (simp add: finish_round_def Let_def split: option.split)
qed

lemma settle_client [simp]: "sm_client (settle r t s) = fst r" "sm_db (settle r t s) = sm_db s" "sm_sent (settle r t s) = sm_sent s"
  "sm_from (settle r t s) = sm_from s"
  by (simp_all add: settle_def split: prod.split sum.split)

lemma step_frame:
  "stream_step feed sid lastSeq s s' \<Longrightarrow>
   same_view (sm_client s) (sm_client s') \<and> prefix (event_log_of (sm_db s) sid) (event_log_of (sm_db s') sid)"
proof (induction rule: stream_step.induct)
  case (store s d)
  then show ?case by (simp add: store_step_prefix store_run_step)
next
  case (others s c)
  then show ?case by (auto simp: elsewhere_def same_view_def)
next
  case (tail s c latest)
  then show ?case using views(5) [of "sm_client s" sid lastSeq "sm_db s"] by simp
next
  case (drain s c "next")
  then show ?case using views(6) [of "sm_client s" sid] by simp
qed (simp_all add: views)

definition all_visible :: "string \<Rightarrow> nat \<Rightarrow> stream \<Rightarrow> bool" where
  "all_visible sid k0 s \<longleftrightarrow> (\<forall>ev \<in> set (drop k0 (event_log_of (sm_db s) sid)). visible (sm_client s) ev)"

lemma all_visible_back:
  assumes "stream_step feed sid lastSeq s s'" "all_visible sid k0 s'" shows "all_visible sid k0 s"
proof -
  obtain rest where "event_log_of (sm_db s') sid = event_log_of (sm_db s) sid @ rest"
    using step_frame [OF assms(1)] by (auto simp: prefix_def)
  then show ?thesis using assms(2) same_view_visible step_frame [OF assms(1)] by (auto simp: all_visible_def)
qed

lemma step_ok:
  assumes "stream_step (in_order sid) sid lastSeq s s'" "stream_ok sid lastSeq k0 s" "k0 \<le> sm_sent s" "all_visible sid k0 s"
  shows "stream_ok sid lastSeq k0 s' \<and> sm_sent s \<le> sm_sent s'"
  using assms
proof (induction rule: stream_step.induct)
  case (broadcast s f accepted)
  have n: "sm_sent s < length (event_log_of (sm_db s) sid)" "carries sid f (event_log_of (sm_db s) sid ! sm_sent s)"
    using broadcast.hyps(2) by (simp_all add: in_order_def)
  have "visible (sm_client s) (event_log_of (sm_db s) sid ! sm_sent s)"
    using broadcast.prems(2,3) nth_in_set_drop [OF _ n(1)] by (auto simp: all_visible_def)
  then show ?case using broadcast_ok [OF broadcast.prems(1) broadcast.hyps(1) n] by simp
next
  case (drain_event s f fs accepted)
  then show ?case by (simp add: drain_event_ok all_visible_def)
qed (simp_all add: store_ok others_ok_stream stream_ok_close ephemeral_ok replay_ok replayed_event_ok tail_ok bootstrap_ok
    boot_event_ok drain_ok)

lemma frames_new [simp]: "cc_frames (newClientConnection version mode subs replaying types) = []"
  by (induction version mode subs replaying types rule: newClientConnection.induct) (simp_all add: Let_def)

lemma registered_ok:
  assumes "registered sid lastSeq s" shows "stream_ok sid lastSeq (sm_sent s) s"
proof -
  let ?st = "\<lparr>ss_lastSeq = lastSeq, ss_replaying = True, ss_buffered = [], ss_bufferedEphemerals = []\<rparr>"
  have "durable_frames sid lastSeq (sm_client s) = []" using assms by (auto simp: registered_def durable_frames_def)
  then show ?thesis
    by (intro stream_okI [where st = ?st and k = "sm_sent s"])
      (use assms in \<open>auto simp: registered_def delivered_def buffer_ok_def queue_def covered_def\<close>)
qed

lemma stream_run_ok:
  assumes "stream_run (in_order sid) sid lastSeq s0 s" "registered sid lastSeq s0" "all_visible sid (sm_sent s0) s"
  shows "stream_ok sid lastSeq (sm_sent s0) s \<and> sm_sent s0 \<le> sm_sent s"
  using assms
proof (induction rule: stream_run.induct)
  case start
  then show ?case by (simp add: registered_ok)
next
  case (step s s')
  note prev = all_visible_back [OF step.hyps(2) step.prems(2)]
  have "stream_ok sid lastSeq (sm_sent s0) s \<and> sm_sent s0 \<le> sm_sent s" by (rule step.IH [OF step.prems(1) prev])
  then show ?case using step_ok [OF step.hyps(2) _ _ prev] by auto
qed

text \<open>
  A client sees the events of a session exactly once and in order, across replay and live delivery.
  Whatever the interleaving of the replay (or the bootstrap of the tail), new events, broadcasts, ephemeral
  events and the client's other subscriptions, the numbered frames written behind the point the client
  starts from carry exactly the stored events from there up to a cursor, in the order of the log, without
  gap or repetition, leaving out those the client may not see; once the client is live, the cursor is at
  or behind the last broadcast. The buffer stays within its bound. Broadcasts are taken to follow the log,
  and the events broadcast after the registration to be ones the client may see.
\<close>

theorem client_sees_log:
  assumes "stream_run (in_order sid) sid lastSeq s0 s" "registered sid lastSeq s0"
    "\<forall>ev \<in> set (drop (sm_sent s0) (event_log_of (sm_db s) sid)). visible (sm_client s) ev"
  shows "(\<exists>cur \<ge> sm_from s. (cur \<le> int (length (event_log_of (sm_db s) sid)) \<or> cur = sm_from s) \<and>
      list_all2 (carries sid) (durable_frames sid (sm_from s) (sm_client s))
        (filter (visible (sm_client s)) (drop (nat (sm_from s)) (take (nat cur) (event_log_of (sm_db s) sid)))) \<and>
      (sm_task s = Live \<longrightarrow> int (sm_sent s) \<le> cur)) \<and>
    (\<forall>st. map_of (cc_subscriptions (sm_client s)) sid = Some st \<and> sm_task s \<noteq> Closed \<longrightarrow>
       length (ss_buffered st) \<le> maxReplayBufferedEvents)"
proof -
  have ok: "stream_ok sid lastSeq (sm_sent s0) s" using stream_run_ok [OF assms(1,2)] assms(3) by (simp add: all_visible_def)
  obtain st where st: "state_of (sm_client s) sid = Some st"
    and del: "delivered sid (sm_from s) (ss_lastSeq st) (sm_client s) (event_log_of (sm_db s) sid)"
    using ok by (auto simp: stream_ok_def Let_def)
  have live: "int (sm_sent s) \<le> ss_lastSeq st" if t: "sm_task s = Live"
  proof -
    have "sm_task s \<noteq> Closed" using t by simp
    with ok show ?thesis
    proof (cases rule: stream_okE)
      case (1 st' k)
      have "k = sm_sent s" using live_queue [of "carries sid" st' k] 1(3,8,11,12) t by simp
      then show ?thesis using 1(4,13) st t by (simp add: covered_def)
    qed
  qed
  moreover have "length (ss_buffered st) \<le> maxReplayBufferedEvents" if "sm_task s \<noteq> Closed"
    using ok that st by (auto simp: stream_ok_def Let_def buffer_ok_def)
  ultimately show ?thesis using del st by (auto simp: delivered_def)
qed

definition demo_ev :: "int \<Rightarrow> Event" where
  "demo_ev n = \<lparr>e_SessionID = ''s'', e_Seq = n, e_Type = ''session.state'', e_Time = 5000000, e_Payload = pe_Payload demo_event\<rparr>"

lemma demo_log: "event_log_of demo_db ''s'' = map demo_ev [1, 2, 3]"
  by code_simp

lemma demo_ev_simps [simp]:
  "e_SessionID (demo_ev n) = ''s''" "e_Seq (demo_ev n) = n" "e_Type (demo_ev n) = ''session.state''"
  "cloneProtocolEvent (replay_event ev) = replay_event ev"
  by (simp_all add: demo_ev_def cloneProtocolEvent_def replay_event_def)

definition demo_client :: "int \<Rightarrow> bool \<Rightarrow> Event list \<Rightarrow> Event list \<Rightarrow> clientConnection" where
  "demo_client cur replaying buffered frames =
     \<lparr>cc_protocolVersion = 1, cc_contentMode = [], cc_publisherEphemeralTypes = [],
      cc_subscriptions = [(''s'', \<lparr>ss_lastSeq = cur, ss_replaying = replaying, ss_buffered = map replay_event buffered,
        ss_bufferedEphemerals = []\<rparr>)], cc_frames = map replay_event frames\<rparr>"

definition demo_client_stream :: "nat \<Rightarrow> task \<Rightarrow> clientConnection \<Rightarrow> stream" where
  "demo_client_stream sent t c = \<lparr>sm_db = demo_db, sm_sent = sent, sm_from = 1, sm_task = t, sm_client = c\<rparr>"

lemmas demo_simps = demo_client_def demo_client_stream_def sendLiveEvent_def required_live_def ContentModeRequired_def EventTypeAllowed_def
  client_isPublisherEphemeralType_def buffer_event_def maxReplayBufferedEvents_def put_state_def replay_one_def writeReplayEvent_def
  write_and_mark_def writeFrame_def markSent_def finish_round_def Let_def writeBufferedEvent_def

lemma demo_db_wf: "wf demo_db"
  unfolding demo_db_def by (rule store_step_wf [OF Append_step wf_initial])

text \<open>The client has event 1; event 3 is broadcast while events 2 and 3 are replayed.\<close>

lemma demo_client_run:
  "stream_run (in_order ''s'') ''s'' 1 (demo_client_stream 2 Registered (demo_client 1 True [] [])) (demo_client_stream 3 Live (demo_client 3 False [] [demo_ev 2, demo_ev 3]))"
proof -
  let ?s0 = "demo_client_stream 2 Registered (demo_client 1 True [] [])" and ?e2 = "demo_ev 2" and ?e3 = "demo_ev 3"
  let ?s1 = "demo_client_stream 3 Registered (demo_client 1 True [?e3] [])"
  let ?s2 = "demo_client_stream 3 (Replaying [?e2, ?e3]) (demo_client 1 True [?e3] [])"
  let ?s3 = "demo_client_stream 3 (Replaying [?e3]) (demo_client 2 True [?e3] [?e2])"
  let ?s4 = "demo_client_stream 3 (Replaying []) (demo_client 3 True [?e3] [?e2, ?e3])"
  let ?s5 = "demo_client_stream 3 (Draining [replay_event ?e3]) (demo_client 3 True [] [?e2, ?e3])"
  let ?s6 = "demo_client_stream 3 (Draining []) (demo_client 3 True [] [?e2, ?e3])"
  let ?s7 = "demo_client_stream 3 Live (demo_client 3 False [] [?e2, ?e3])"
  note step = stream_run.step [where feed = "in_order ''s''" and sid = "''s''" and lastSeq = 1 and ?s0.0 = ?s0]
  have "stream_step (in_order ''s'') ''s'' 1 ?s0 ?s1"
    using stream_step.broadcast [where feed = "in_order ''s''" and sid = "''s''" and lastSeq = 1, of ?s0 "replay_event ?e3" True] by (simp add: demo_simps demo_log in_order_def)
  then have r1: "stream_run (in_order ''s'') ''s'' 1 ?s0 ?s1" by (rule step [OF stream_run.start])
  have "stream_step (in_order ''s'') ''s'' 1 ?s1 ?s2" using stream_step.replay [where feed = "in_order ''s''" and sid = "''s''" and lastSeq = 1, of ?s1]
    by (simp add: demo_simps demo_log replay_rows [OF demo_db_wf])
  then have r2: "stream_run (in_order ''s'') ''s'' 1 ?s0 ?s2" by (rule step [OF r1])
  have "stream_step (in_order ''s'') ''s'' 1 ?s2 ?s3" using stream_step.replay_event [where feed = "in_order ''s''" and sid = "''s''" and lastSeq = 1, of ?s2 ?e2 "[?e3]" True] by (simp add: demo_simps)
  then have r3: "stream_run (in_order ''s'') ''s'' 1 ?s0 ?s3" by (rule step [OF r2])
  have "stream_step (in_order ''s'') ''s'' 1 ?s3 ?s4" using stream_step.replay_event [where feed = "in_order ''s''" and sid = "''s''" and lastSeq = 1, of ?s3 ?e3 "[]" True] by (simp add: demo_simps)
  then have r4: "stream_run (in_order ''s'') ''s'' 1 ?s0 ?s4" by (rule step [OF r3])
  have "stream_step (in_order ''s'') ''s'' 1 ?s4 ?s5"
    using stream_step.drain [where feed = "in_order ''s''" and sid = "''s''" and lastSeq = 1, of ?s4 "demo_client 3 True [] [?e2, ?e3]" "Some [replay_event ?e3]"] by (simp add: demo_simps)
  then have r5: "stream_run (in_order ''s'') ''s'' 1 ?s0 ?s5" by (rule step [OF r4])
  have "stream_step (in_order ''s'') ''s'' 1 ?s5 ?s6"
    using stream_step.drain_event [where feed = "in_order ''s''" and sid = "''s''" and lastSeq = 1, of ?s5 "replay_event ?e3" "[]" True] by (simp add: demo_simps)
  then have r6: "stream_run (in_order ''s'') ''s'' 1 ?s0 ?s6" by (rule step [OF r5])
  have "stream_step (in_order ''s'') ''s'' 1 ?s6 ?s7"
    using stream_step.drain [where feed = "in_order ''s''" and sid = "''s''" and lastSeq = 1, of ?s6 "demo_client 3 False [] [?e2, ?e3]" None] by (simp add: demo_simps)
  then show ?thesis by (rule step [OF r6])
qed

theorem client_sees_log_witness:
  "\<exists>cur \<ge> 3. cur \<le> 3 \<and> list_all2 (carries ''s'') (durable_frames ''s'' 1 (demo_client 3 False [] [demo_ev 2, demo_ev 3]))
     (drop 1 (take (nat cur) (event_log_of demo_db ''s'')))"
proof -
  let ?c = "demo_client 3 False [] [demo_ev 2, demo_ev 3]"
  note demo_db_wf
  moreover have "demo_client 1 True [] [] = newClientConnection 1 [] [(''s'', 1)] True []" by (simp add: demo_client_def Let_def)
  moreover have "state_of (demo_client 1 True [] []) ''s'' =
      Some \<lparr>ss_lastSeq = 1, ss_replaying = True, ss_buffered = [], ss_bufferedEphemerals = []\<rparr>" by (simp add: demo_client_def)
  moreover have "2 \<le> length (event_log_of demo_db ''s'')" by (simp add: demo_log)
  ultimately have reg: "registered ''s'' 1 (demo_client_stream 2 Registered (demo_client 1 True [] []))"
    unfolding registered_def demo_client_stream_def stream.select_convs by (intro conjI exI) (assumption | simp)+
  have see: "visible ?c (demo_ev n)" for n
    by (simp add: visible_def demo_client_def EventTypeAllowed_def client_isPublisherEphemeralType_def)
  then have "filter (visible ?c) (drop k (take m (event_log_of demo_db ''s''))) = drop k (take m (event_log_of demo_db ''s''))" for k m
    by (auto simp: demo_log filter_id_conv dest!: in_set_dropD in_set_takeD)
  moreover have "\<forall>ev \<in> set (drop 2 (event_log_of demo_db ''s'')). visible ?c ev" using see by (simp add: demo_log)
  ultimately show ?thesis
    using conjunct1 [OF client_sees_log [OF demo_client_run reg]] by (auto simp: demo_client_stream_def demo_log)
qed

section \<open>What leaves the hub in required mode\<close>

definition sealed :: "string \<Rightarrow> bytes \<Rightarrow> bool" where
  "sealed eventType payload \<longleftrightarrow>
     DecodeEncryptedPacketCarrier payload ''event'' eventType [] \<noteq> None \<or>
     (eventType = ''session.command'' \<and> (\<exists>t m c. DecodeEncryptedPacketCarrier payload ''command'' t m = Some c \<and>
        ValidEncryptedCommandType (pk_Type c)))"

definition lifecycle_record :: "string \<Rightarrow> bytes \<Rightarrow> bool" where
  "lifecycle_record eventType payload \<longleftrightarrow>
     (eventType = ''session.state'' \<and> (\<exists>names. unmarshal_map payload = Some names \<and> set names \<subseteq> {''state'', ''reason''})) \<or>
     (eventType = ''session.run.outcome'' \<and> ValidateRunControlOutcomeProjection payload)"

definition guarded :: "protocol_event \<Rightarrow> bool" where
  "guarded f \<longleftrightarrow> sealed (he_Type f) (he_Payload f) \<or> lifecycle_record (he_Type f) (he_Payload f)"

lemma lifecycle_checked:
  "validatePlaintextLifecycleProjection t payload = Inr () \<Longrightarrow> lifecycle_record t payload"
  by (auto simp: validatePlaintextLifecycleProjection_def lifecycle_record_def list_all_iff split: option.splits if_splits)

lemma validated_guarded:
  "validateRequiredReplayEvent ev sid = Inr () \<Longrightarrow> sealed (e_Type ev) (e_Payload ev) \<or> lifecycle_record (e_Type ev) (e_Payload ev)"
  by (auto simp: validateRequiredReplayEvent_def sealed_def dest: lifecycle_checked split: option.splits if_splits)

lemma required_live_guarded:
  "required_live c f = Inr () \<Longrightarrow> cc_contentMode c = ContentModeRequired \<Longrightarrow> guarded f"
  by (auto simp: required_live_def guarded_def sealed_def dest!: validated_guarded split: option.splits if_splits)

definition frames_ok :: "string \<Rightarrow> clientConnection \<Rightarrow> bool" where
  "frames_ok sid c \<longleftrightarrow> (\<forall>f \<in> set (cc_frames c). he_SessionID f = sid \<longrightarrow> guarded f)"

fun draining :: "task \<Rightarrow> protocol_event list" where
  "draining (Draining fs) = fs"
| "draining (Booting evs) = map replay_event evs"
| "draining t = []"

definition sealed_ok :: "string \<Rightarrow> stream \<Rightarrow> bool" where
  "sealed_ok sid s \<longleftrightarrow> (cc_contentMode (sm_client s) = ContentModeRequired \<longrightarrow>
     frames_ok sid (sm_client s) \<and> (\<forall>f \<in> set (draining (sm_task s)). guarded f) \<and>
     (\<forall>st. map_of (cc_subscriptions (sm_client s)) sid = Some st \<longrightarrow> (\<forall>f \<in> set (ss_buffered st). guarded f)))"

text \<open>The frames and the buffer after an operation.\<close>

definition grows :: "string \<Rightarrow> protocol_event \<Rightarrow> clientConnection \<Rightarrow> clientConnection \<Rightarrow> bool" where
  "grows sid f c c' \<longleftrightarrow> set (cc_frames c') \<subseteq> insert f (set (cc_frames c)) \<and>
     (\<forall>st'. state_of c' sid = Some st' \<longrightarrow> (\<exists>st. state_of c sid = Some st \<and>
        set (ss_buffered st') \<subseteq> insert (cloneProtocolEvent f) (set (ss_buffered st))))"

lemma grows_refl [simp]: "grows sid f c c"
  by (auto simp: grows_def)

lemma markSent_grows: "grows sid f (markSent g c) c' \<Longrightarrow> grows sid f c c'" "grows sid f c' c \<Longrightarrow> grows sid f c' (markSent g c)"
  by (auto simp: grows_def markSent_def split: option.splits if_splits)

lemma write_grows: "grows sid f c (fst (write_and_mark accepted f c))"
proof -
  have "grows sid f c (c\<lparr>cc_frames := cc_frames c @ [f]\<rparr>)" by (auto simp: grows_def)
  then show ?thesis by (simp add: write_and_mark_def writeFrame_def markSent_grows(2))
qed

lemma buffer_grows:
  assumes "buffer_event f st = Inr st'" shows "set (ss_buffered st') \<subseteq> insert (cloneProtocolEvent f) (set (ss_buffered st))"
  using assms set_update_subset_insert by (fastforce simp: buffer_event_def split: option.splits if_splits)

lemma ops_grow:
  "grows sid f c (fst (writeReplayEvent accepted f c))" "grows sid f c (fst (writeBufferedEvent accepted f c))"
  "he_SessionID f = sid \<Longrightarrow> grows sid f c (fst (sendLiveEvent accepted f c))"
proof -
  show "grows sid f c (fst (writeReplayEvent accepted f c))"
    by (simp add: writeReplayEvent_def write_grows markSent_grows(2))
  show "grows sid f c (fst (writeBufferedEvent accepted f c))"
    by (simp add: writeBufferedEvent_def write_grows split: option.split)
  have "grows sid f c (put_state sid st' c)" if "state_of c sid = Some st" "buffer_event f st = Inr st'" for st st'
    using that buffer_grows [OF that(2)] by (auto simp: grows_def)
  then show "grows sid f c (fst (sendLiveEvent accepted f c))" if "he_SessionID f = sid"
    using that by (auto simp: sendLiveEvent_def write_grows markSent_grows(2) split: option.split sum.split)
qed

lemma sealed_settle:
  assumes ok: "sealed_ok sid s" and "same_view (sm_client s) (fst r)" "set (draining t) \<subseteq> set (draining (sm_task s))"
    and g: "grows sid f (sm_client s) (fst r)"
    and f: "cc_contentMode (sm_client s) = ContentModeRequired \<Longrightarrow> guarded f \<or> fst r = sm_client s"
  shows "sealed_ok sid (settle r t s)"
proof -
  let ?c = "sm_client s" and ?c' = "fst r"
  have t: "set (draining (sm_task (settle r t s))) \<subseteq> set (draining (sm_task s))"
    using assms(3) by (auto simp: settle_def split: prod.splits sum.splits)
  have "frames_ok sid ?c' \<and> (\<forall>st'. state_of ?c' sid = Some st' \<longrightarrow> (\<forall>f \<in> set (ss_buffered st'). guarded f))"
    if m: "cc_contentMode ?c = ContentModeRequired"
  proof (cases "?c' = ?c")
    case True
    then show ?thesis using ok m by (simp add: sealed_ok_def)
  next
    case False
    then have "guarded f" "guarded (cloneProtocolEvent f)" using f [OF m] by (auto simp: guarded_def cloneProtocolEvent_def)
    then show ?thesis using ok m g unfolding sealed_ok_def frames_ok_def grows_def by blast
  qed
  then show ?thesis using ok t assms(2) by (auto simp: sealed_ok_def same_view_def)
qed

lemma live_guarded:
  "cc_contentMode c = ContentModeRequired \<Longrightarrow> guarded f \<or> fst (sendLiveEvent accepted f c) = c"
  by (cases "required_live c f") (auto simp: sendLiveEvent_def dest: required_live_guarded)

lemma replay_guarded:
  "cc_contentMode c = ContentModeRequired \<Longrightarrow> guarded (replay_event ev) \<or> fst (replay_one accepted sid ev c) = c"
  using validated_guarded [of ev sid]
  by (cases "validateRequiredReplayEvent ev sid") (auto simp: replay_one_def guarded_def replay_event_def)

lemma replay_one_grows: "grows sid (replay_event ev) c (fst (replay_one accepted sid ev c))"
  by (simp add: replay_one_def ops_grow(1) split: sum.split)

lemma sealed_step: "stream_step feed sid lastSeq s s' \<Longrightarrow> sealed_ok sid s \<Longrightarrow> sealed_ok sid s'"
proof (induction rule: stream_step.induct)
  case (others s c)
  then show ?case by (auto simp: sealed_ok_def elsewhere_def frames_ok_def)
next
  case (broadcast s f accepted)
  have "sealed_ok sid (settle (sendLiveEvent accepted f (sm_client s)) (sm_task s) s)"
    by (rule sealed_settle [OF broadcast.prems views(3) subset_refl ops_grow(3) [OF broadcast.hyps(3)] live_guarded])
  then show ?case by (simp add: sealed_ok_def)
next
  case (ephemeral s f accepted)
  then show ?case by (intro sealed_settle [OF ephemeral.prems views(3) subset_refl ops_grow(3) live_guarded])
next
  case (replay_event s ev evs accepted)
  then show ?case
    by (intro sealed_settle [OF replay_event.prems views(4) _ replay_one_grows replay_guarded]) simp_all
next
  case (tail s c latest)
  then show ?case
    by (auto simp: sealed_ok_def frames_ok_def prepareTailBootstrap_def split: sum.splits if_splits option.splits)
next
  case (bootstrap s evs)
  then have "check_bootstrap (cc_contentMode (sm_client s) = ContentModeRequired) sid (sm_from s) BootstrapEventTypes 0 evs = Inr ()"
    by (auto simp: bootstrap_events_def split: if_splits)
  then have "guarded (Client_Stream.replay_event ev)" if "ev \<in> set evs" "cc_contentMode (sm_client s) = ContentModeRequired" for ev
    using check_bootstrap_ok [OF _ that(1)] that(2) validated_guarded [of ev sid]
    by (auto simp: guarded_def replay_event_def)
  then show ?case using bootstrap.prems by (auto simp: sealed_ok_def)
next
  case (boot_event s ev evs accepted)
  have "guarded (Client_Stream.replay_event ev)" if "cc_contentMode (sm_client s) = ContentModeRequired"
    using boot_event that by (simp add: sealed_ok_def)
  then show ?case using boot_event.hyps
    by (intro sealed_settle [OF boot_event.prems views(1) _ ops_grow(1)]) auto
next
  case (drain s c "next")
  then show ?case
    by (auto simp: sealed_ok_def frames_ok_def finish_round_def Let_def split: option.splits if_splits)
next
  case (drain_event s f fs accepted)
  have "guarded f" if "cc_contentMode (sm_client s) = ContentModeRequired"
    using drain_event that by (simp add: sealed_ok_def)
  then show ?case using drain_event.hyps
    by (intro sealed_settle [OF drain_event.prems views(2) _ ops_grow(2)]) auto
qed (auto simp: sealed_ok_def)

text \<open>
  C31: in required content mode every frame of a session that is written to a client is a sealed carrier
  that fits its type, or a lifecycle record of a closed shape: a session state with no members but its
  state and its reason, or a run-control outcome of the closed projection. This holds on every path,
  replay, bootstrap of the tail, the drained buffer and live delivery, and under every interleaving of
  them, whatever the store holds and whatever is broadcast.
\<close>

theorem required_mode_sealed:
  assumes "stream_run feed sid lastSeq s0 s" "registered sid lastSeq s0"
    "cc_contentMode (sm_client s) = ContentModeRequired" "f \<in> set (cc_frames (sm_client s))" "he_SessionID f = sid"
  shows "sealed (he_Type f) (he_Payload f) \<or> lifecycle_record (he_Type f) (he_Payload f)"
proof -
  have "sealed_ok sid s0" using assms(2) by (auto simp: registered_def sealed_ok_def frames_ok_def)
  with assms(1) have "sealed_ok sid s" by (induction rule: stream_run.induct) (auto intro: sealed_step)
  then show ?thesis using assms(3-5) by (simp add: sealed_ok_def frames_ok_def guarded_def)
qed

text \<open>
  The values of a plain session state are not checked: any state and any reason pass, where the
  projection of a sealed event must name a known state.
\<close>

lemma state_values_unchecked:
  "validateRequiredReplayEvent \<lparr>e_SessionID = ''s'', e_Seq = 1, e_Type = ''session.state'', e_Time = 0,
     e_Payload = print_json (JObj [(''state'', JStr ''x''), (''reason'', JStr ''any text'')])\<rparr> ''s'' = Inr ()"
  "\<not> validateEncryptedProjection ''session.state'' (JObj [(''state'', JStr ''x'')])"
  by code_simp+

definition demo_required :: "int \<Rightarrow> Event list \<Rightarrow> clientConnection" where
  "demo_required cur frames = (demo_client cur True [] frames)\<lparr>cc_contentMode := ContentModeRequired\<rparr>"

lemma demo_required_run:
  "stream_run (in_order ''s'') ''s'' 1 (demo_client_stream 3 Registered (demo_required 1 []))
     (demo_client_stream 3 (Replaying [demo_ev 3]) (demo_required 2 [demo_ev 2]))"
proof -
  let ?s0 = "demo_client_stream 3 Registered (demo_required 1 [])"
  let ?s1 = "demo_client_stream 3 (Replaying [demo_ev 2, demo_ev 3]) (demo_required 1 [])"
  let ?s2 = "demo_client_stream 3 (Replaying [demo_ev 3]) (demo_required 2 [demo_ev 2])"
  have valid: "validateRequiredReplayEvent (demo_ev 2) ''s'' = Inr ()" by code_simp
  have "stream_step (in_order ''s'') ''s'' 1 ?s0 ?s1"
    using stream_step.replay [where feed = "in_order ''s''" and sid = "''s''" and lastSeq = 1, of ?s0]
    by (simp add: demo_client_stream_def demo_log replay_rows [OF demo_db_wf])
  then have r1: "stream_run (in_order ''s'') ''s'' 1 ?s0 ?s1" by (rule stream_run.step [OF stream_run.start])
  have "replay_one True ''s'' (demo_ev 2) (demo_required 1 []) = (demo_required 2 [demo_ev 2], Inr ())"
    by (simp add: replay_one_def valid) (simp add: demo_required_def demo_simps)
  then have "stream_step (in_order ''s'') ''s'' 1 ?s1 ?s2"
    using stream_step.replay_event [where feed = "in_order ''s''" and sid = "''s''" and lastSeq = 1,
        of ?s1 "demo_ev 2" "[demo_ev 3]" True]
    by (simp add: demo_client_stream_def settle_def)
  then show ?thesis by (rule stream_run.step [OF r1])
qed

theorem required_mode_sealed_witness:
  "sealed ''session.state'' (e_Payload (demo_ev 2)) \<or> lifecycle_record ''session.state'' (e_Payload (demo_ev 2))"
proof -
  have "demo_required 1 [] = newClientConnection 1 ContentModeRequired [(''s'', 1)] True []"
    "state_of (demo_required 1 []) ''s'' =
      Some \<lparr>ss_lastSeq = 1, ss_replaying = True, ss_buffered = [], ss_bufferedEphemerals = []\<rparr>"
    by (simp_all add: demo_required_def demo_client_def Let_def)
  moreover have "3 \<le> length (event_log_of demo_db ''s'')" by (simp add: demo_log)
  ultimately have reg: "registered ''s'' 1 (demo_client_stream 3 Registered (demo_required 1 []))"
    unfolding registered_def demo_client_stream_def stream.select_convs using demo_db_wf by (intro conjI exI) (assumption | simp)+
  show ?thesis
    using required_mode_sealed [OF demo_required_run reg, of "replay_event (demo_ev 2)"]
    by (simp add: demo_client_stream_def demo_required_def demo_client_def replay_event_def)
qed

end
