(* ===== verification/Activity_Dispatcher.thy ===== *)
theory Activity_Dispatcher
  imports Connections
begin

text \<open>
  The activity dispatcher (\<^verbatim>\<open>hub/activity_dispatcher.go\<close>): a scan of all attention summaries,
  page by page, that publishes one activity summary per session. The page store and the sink are
  parameters. The locale \<open>page_store\<close> is what the scan relies on when the store does not change under
  it; the SQLite page query is shown to keep it.
\<close>

section \<open>Data\<close>

record ActivitySummary =
  as_SessionID :: string
  as_State :: string
  as_LastDurableSeq :: int
  as_LedgerVersion :: int
  as_LastDurableEventAt :: "gotime option"
  as_LastClientCommandAt :: "gotime option"
  as_StoreSnapshotAt :: gotime
  as_ProjectionState :: string
  as_BlockerKind :: string
  as_BlockerExpiresAt :: "gotime option"

type_synonym 's activity_sink = "'s \<Rightarrow> ActivitySummary \<Rightarrow> 's \<times> err option"

type_synonym page_reader = "AttentionSummaryPageRequest \<Rightarrow> AttentionSummaryPage_rec res"

definition activity_of :: "gotime \<Rightarrow> SessionAttentionSummary \<Rightarrow> ActivitySummary" where
  "activity_of snapshot s =
     \<lparr>as_SessionID = su_SessionID s, as_State = su_State s, as_LastDurableSeq = su_LatestSeq s,
      as_LedgerVersion = su_SummaryVersion s, as_LastDurableEventAt = su_LastDurableEventAt s,
      as_LastClientCommandAt = su_LastClientCommandAt s, as_StoreSnapshotAt = snapshot,
      as_ProjectionState = su_StateOfProjection s,
      as_BlockerKind = (case su_Blocker s of None \<Rightarrow> [] | Some b \<Rightarrow> bl_Kind b),
      as_BlockerExpiresAt = (case su_Blocker s of None \<Rightarrow> None | Some b \<Rightarrow> bl_ExpiresAt b)\<rparr>"

section \<open>The scan\<close>

fun publish_page ::
  "'s activity_sink \<Rightarrow> gotime \<Rightarrow> string \<Rightarrow> SessionAttentionSummary list \<Rightarrow> 's \<Rightarrow> 's \<times> string \<times> unit res" where
  "publish_page sink snapshot after [] s = (s, after, Inr ())"
| "publish_page sink snapshot after (x # xs) s =
     (if su_SessionID x \<le> after then (s, after, Inl (Fail ''activity summary page is not strictly ordered''))
      else case sink s (activity_of snapshot x) of
        (s, Some e) \<Rightarrow> (s, su_SessionID x, Inl e)
      | (s, None) \<Rightarrow> publish_page sink snapshot (su_SessionID x) xs s)"

text \<open>
  The loop of \<^verbatim>\<open>dispatchOnce\<close>. The store may change between two pages, so the pages come from a
  reader per round; nothing bounds the rounds in general, so the loop takes fuel and returns nothing
  when it runs out.
\<close>

fun dispatchOnce ::
  "nat \<Rightarrow> (nat \<Rightarrow> page_reader) \<Rightarrow> 's activity_sink \<Rightarrow> nat \<Rightarrow> string \<Rightarrow> 's \<Rightarrow> ('s \<times> unit res) option" where
  "dispatchOnce 0 pages sink k after s = None"
| "dispatchOnce (Suc fuel) pages sink k after s =
     (case pages k \<lparr>pq_AfterSessionID = after, pq_Limit = MaxAttentionSummaryPageSize\<rparr> of
        Inl e \<Rightarrow> Some (s, Inl e)
      | Inr page \<Rightarrow>
          if pg_SnapshotAt page = zeroTime
          then Some (s, Inl (Fail ''activity summary page snapshot is missing''))
          else case publish_page sink (pg_SnapshotAt page) after (pg_Summaries page) s of
            (s, after, Inl e) \<Rightarrow> Some (s, Inl e)
          | (s, after, Inr _) \<Rightarrow>
              (case pg_NextAfterSessionID page of
                 None \<Rightarrow> Some (s, Inr ())
               | Some nx \<Rightarrow>
                   if pg_Summaries page = [] \<or> nx = [] \<or> nx \<noteq> after
                   then Some (s, Inl (Fail ''activity summary page continuation is invalid''))
                   else dispatchOnce fuel pages sink (Suc k) after s))"

definition DispatchOnce ::
  "nat \<Rightarrow> (nat \<Rightarrow> page_reader) option \<Rightarrow> 's activity_sink option \<Rightarrow> 's \<Rightarrow> ('s \<times> unit res) option" where
  "DispatchOnce fuel pages sink s =
     (case (pages, sink) of
        (Some pages, Some sink) \<Rightarrow> dispatchOnce fuel pages sink 0 [] s
      | _ \<Rightarrow> Some (s, Inl (Fail ''activity dispatcher is not configured'')))"

section \<open>Whatever the pages are\<close>

text \<open>A sink that keeps what it is given and may refuse it.\<close>

definition keeping :: "(ActivitySummary list \<Rightarrow> ActivitySummary \<Rightarrow> err option) \<Rightarrow> ActivitySummary list activity_sink" where
  "keeping refuse s a = (s @ [a], refuse s a)"

definition ascending :: "string \<Rightarrow> ActivitySummary list \<Rightarrow> bool" where
  "ascending after out \<longleftrightarrow> sorted_wrt (<) (map as_SessionID out) \<and> (\<forall>a \<in> set out. as_SessionID a \<le> after)"

lemma ascending_snoc:
  "ascending after out \<Longrightarrow> after < as_SessionID a \<Longrightarrow> ascending (as_SessionID a) (out @ [a])"
  by (auto simp: ascending_def sorted_wrt_append intro: order_trans order.strict_implies_order order.strict_trans1)

lemma publish_page_ascending:
  "publish_page (keeping refuse) snapshot after xs out = (out', after', r) \<Longrightarrow> ascending after out \<Longrightarrow> ascending after' out'"
proof (induction xs arbitrary: after out)
  case (Cons x xs)
  show ?case
  proof (cases "su_SessionID x \<le> after")
    case False
    have "ascending (su_SessionID x) (out @ [activity_of snapshot x])"
      using ascending_snoc [OF Cons.prems(2), of "activity_of snapshot x"] False by (simp add: activity_of_def)
    then show ?thesis using Cons.IH Cons.prems(1) False by (auto simp: keeping_def split: option.splits)
  qed (use Cons.prems in auto)
qed auto

lemma dispatch_ascending:
  "dispatchOnce fuel pages (keeping refuse) k after out = Some (out', r) \<Longrightarrow> ascending after out \<Longrightarrow>
   \<exists>after'. ascending after' out'"
proof (induction fuel arbitrary: k after out)
  case (Suc fuel)
  show ?case
  proof (cases "pages k \<lparr>pq_AfterSessionID = after, pq_Limit = MaxAttentionSummaryPageSize\<rparr>")
    case (Inl e)
    then show ?thesis using Suc.prems by auto
  next
    case (Inr page)
    obtain out1 after1 r1 where p: "publish_page (keeping refuse) (pg_SnapshotAt page) after (pg_Summaries page) out = (out1, after1, r1)"
      by (metis prod_cases3)
    note asc = publish_page_ascending [OF p Suc.prems(2)]
    show ?thesis
      using Suc.prems Suc.IH [of "Suc k" after1 out1] asc Inr p
      by (auto split: if_splits sum.splits option.splits)
  qed
qed simp

section \<open>The contract of the pages\<close>

definition last_id :: "SessionAttentionSummary list \<Rightarrow> string" where
  "last_id xs = (if xs = [] then [] else su_SessionID (last xs))"

definition page_of :: "gotime \<Rightarrow> SessionAttentionSummary list \<Rightarrow> AttentionSummaryPage_rec" where
  "page_of snapshot rest =
     \<lparr>pg_Summaries = take (nat MaxAttentionSummaryPageSize) rest,
      pg_NextAfterSessionID = (if length rest > nat MaxAttentionSummaryPageSize
        then Some (last_id (take (nat MaxAttentionSummaryPageSize) rest)) else None),
      pg_SnapshotAt = snapshot\<rparr>"

text \<open>All summaries, in strictly ascending order; a page behind the last of a front part is the
  beginning of what is left, with a cursor exactly if there is more.\<close>

locale page_store =
  fixes store_ok :: "'d \<Rightarrow> bool" and summaries :: "'d \<Rightarrow> SessionAttentionSummary list"
    and snapshot :: "'d \<Rightarrow> gotime" and page :: "'d \<Rightarrow> page_reader"
  assumes order: "store_ok d \<Longrightarrow> sorted_wrt (<) (map su_SessionID (summaries d))"
    and named: "store_ok d \<Longrightarrow> x \<in> set (summaries d) \<Longrightarrow> su_SessionID x \<noteq> []"
    and taken: "store_ok d \<Longrightarrow> snapshot d \<noteq> zeroTime"
    and pages: "store_ok d \<Longrightarrow> summaries d = front @ rest \<Longrightarrow>
      page d \<lparr>pq_AfterSessionID = last_id front, pq_Limit = MaxAttentionSummaryPageSize\<rparr> =
        Inr (page_of (snapshot d) rest)"
begin

lemma publish_rest:
  assumes "store_ok d"
  shows "summaries d = front @ xs @ rest \<Longrightarrow>
    publish_page (keeping (\<lambda>_ _. None)) t (last_id front) xs out = (out @ map (activity_of t) xs, last_id (front @ xs), Inr ())"
proof (induction xs arbitrary: front out)
  case (Cons x xs)
  have "last_id front < su_SessionID x"
  proof (cases "front = []")
    case True
    have "su_SessionID x \<noteq> []" using named [OF assms, of x] Cons.prems by simp
    then show ?thesis using True by (cases "su_SessionID x") (simp_all add: last_id_def)
  next
    case False
    then show ?thesis using order [OF assms] Cons.prems by (auto simp: last_id_def sorted_wrt_append)
  qed
  then show ?case using Cons.IH [of "front @ [x]" "out @ [activity_of t x]"] Cons.prems
    by (simp add: keeping_def last_id_def)
qed simp

lemma scan_rest:
  assumes ok: "store_ok d"
  shows "summaries d = front @ rest \<Longrightarrow> length rest < fuel \<Longrightarrow>
    dispatchOnce fuel (\<lambda>_. page d) (keeping (\<lambda>_ _. None)) k (last_id front) out =
      Some (out @ map (activity_of (snapshot d)) rest, Inr ())"
proof (induction fuel arbitrary: front rest k out)
  case (Suc fuel)
  let ?n = "nat MaxAttentionSummaryPageSize"
  have n: "0 < ?n" by (simp add: MaxAttentionSummaryPageSize_def)
  have split: "summaries d = front @ take ?n rest @ drop ?n rest" using Suc.prems(1) by simp
  note pub = publish_rest [OF ok split]
  show ?case
  proof (cases "length rest > ?n")
    case False
    then show ?thesis
      using pages [OF ok Suc.prems(1)] taken [OF ok] pub [of "snapshot d" out] by (simp add: page_of_def)
  next
    case True
    have more: "summaries d = (front @ take ?n rest) @ drop ?n rest" using split by simp
    have "rest \<noteq> []" "take ?n rest \<noteq> []" using True n by auto
    then have last: "last_id (front @ take ?n rest) = last_id (take ?n rest)" by (simp add: last_id_def)
    have "last (take ?n rest) \<in> set (summaries d)"
      using last_in_set [OF \<open>take ?n rest \<noteq> []\<close>] in_set_takeD [of _ ?n rest] Suc.prems(1) by auto
    then have "last_id (take ?n rest) \<noteq> []" using named [OF ok] \<open>take ?n rest \<noteq> []\<close> by (simp add: last_id_def)
    moreover have "length (drop ?n rest) < fuel" using Suc.prems(2) True n by simp
    ultimately show ?thesis
      using pages [OF ok Suc.prems(1)] taken [OF ok] pub [of "snapshot d" out] True \<open>rest \<noteq> []\<close> n last
        Suc.IH [OF more, of "Suc k" "out @ map (activity_of (snapshot d)) (take ?n rest)"]
      by (simp add: page_of_def map_append [symmetric] del: map_append)
  qed
qed simp

end

section \<open>The SQLite pages\<close>

definition live_rows :: "db \<Rightarrow> int \<Rightarrow> (string \<times> summary_row) list" where
  "live_rows d now = sort_key fst (filter (\<lambda>(sid, r). live_authority d now sid) (session_attention_summaries d))"

definition live_summaries :: "db \<times> clock \<Rightarrow> SessionAttentionSummary list" where
  "live_summaries x = (case scan_rows (\<lambda>(sid, r). querySQLiteAttentionSummary sid r) (live_rows (fst x) (snd x 1)) of
     Inl e \<Rightarrow> [] | Inr ss \<Rightarrow> ss)"

definition readable :: "db \<times> clock \<Rightarrow> bool" where
  "readable x \<longleftrightarrow> unique_keys (session_attention_summaries (fst x)) \<and> migration_state (fst x) = ''complete'' \<and>
     fromMilli (snd x 0) \<noteq> zeroTime \<and>
     is_ok (scan_rows (\<lambda>(sid, r). querySQLiteAttentionSummary sid r) (live_rows (fst x) (snd x 1)))"

lemma query_summary_id: "querySQLiteAttentionSummary sid r = Inr s \<Longrightarrow> su_SessionID s = sid \<and> sid \<noteq> [] \<and> length sid \<le> 255"
  by (auto simp: querySQLiteAttentionSummary_def validConnectionID_def split: if_splits)

lemma scan_rows_append:
  "scan_rows f (a @ b) = res_bind (scan_rows f a) (\<lambda>xs. res_bind (scan_rows f b) (\<lambda>ys. Inr (xs @ ys)))"
  by (induction a) (auto simp: res_bind_def split: sum.splits)

lemma scan_rows_ids:
  "scan_rows (\<lambda>(sid, r). querySQLiteAttentionSummary sid r) rows = Inr ss \<Longrightarrow>
   map su_SessionID ss = map fst rows \<and> (\<forall>s \<in> set ss. su_SessionID s \<noteq> [] \<and> length (su_SessionID s) \<le> 255)"
proof (induction rows arbitrary: ss)
  case (Cons row rows)
  then obtain s ss' where "querySQLiteAttentionSummary (fst row) (snd row) = Inr s"
    "scan_rows (\<lambda>(sid, r). querySQLiteAttentionSummary sid r) rows = Inr ss'" "ss = s # ss'"
    by (auto simp: split_def)
  then show ?case using Cons.IH query_summary_id by auto
qed simp

lemma scan_rows_take: "scan_rows f rows = Inr xs \<Longrightarrow> scan_rows f (take n rows) = Inr (take n xs)"
proof (induction rows arbitrary: n xs)
  case (Cons row rows)
  then show ?case by (cases n) auto
qed simp

lemma page_loop_scan:
  assumes "0 < n"
  shows "scan_rows (\<lambda>(sid, r). querySQLiteAttentionSummary sid r) rows = Inr ss \<Longrightarrow> length acc \<le> n \<Longrightarrow>
    page_loop n rows acc = Inr (acc @ take (n - length acc) ss,
      if length acc + length ss > n then Some (last_id (acc @ take (n - length acc) ss)) else None)"
proof (induction rows arbitrary: ss acc)
  case (Cons row rows)
  then obtain s ss' where s: "querySQLiteAttentionSummary (fst row) (snd row) = Inr s"
    "scan_rows (\<lambda>(sid, r). querySQLiteAttentionSummary sid r) rows = Inr ss'" "ss = s # ss'"
    by (auto simp: split_def)
  show ?case
  proof (cases "length acc = n")
    case True
    then show ?thesis using s assms by (auto simp: last_id_def)
  next
    case False
    then have "n - length acc = Suc (n - Suc (length acc))" using Cons.prems(2) by simp
    then show ?thesis using Cons.IH [OF s(2), of "acc @ [s]"] s False Cons.prems(2) by simp
  qed
qed simp

lemma live_rows_sorted:
  assumes "unique_keys (session_attention_summaries d)"
  shows "sorted_wrt (<) (map fst (live_rows d now))"
proof -
  have "distinct (map fst (filter (\<lambda>(sid, r). live_authority d now sid) (session_attention_summaries d)))"
    using assms by (simp add: unique_keys_def distinct_map_filter)
  then have "distinct (map fst (live_rows d now))"
    unfolding live_rows_def by (simp add: distinct_map)
  moreover have "sorted (map fst (live_rows d now))" by (simp add: live_rows_def)
  ultimately show ?thesis by (simp add: strict_sorted_iff)
qed

lemma page_rows_live: "page_rows d now after n = take n (filter (\<lambda>(sid, r). after < sid) (live_rows d now))"
  by (simp add: page_rows_def live_rows_def filter_sort split_def conj_commute)

lemma rows_behind:
  assumes "sorted_wrt (<) (map fst (a @ b))" "\<forall>x \<in> set b. fst x \<noteq> []" "after = (if a = [] then [] else fst (last a))"
  shows "filter (\<lambda>(sid, r). after < sid) (a @ b) = (b :: (string \<times> 'r) list)"
proof -
  have "\<not> after < fst x" if x: "x \<in> set a" for x
  proof -
    have "a \<noteq> []" using x by auto
    then have "a = butlast a @ [last a]" by simp
    then have "x = last a \<or> x \<in> set (butlast a)" "sorted_wrt (<) (map fst (butlast a @ [last a]))"
      using x assms(1) by (metis Un_iff insert_iff list.simps(15) set_append empty_iff list.set(1), metis map_append sorted_wrt_append)
    then have "fst x \<le> fst (last a)" by (auto simp: sorted_wrt_append)
    then show ?thesis using assms(3) \<open>a \<noteq> []\<close> by simp
  qed
  moreover have "after < fst x" if x: "x \<in> set b" for x
  proof (cases "a = []")
    case True
    then show ?thesis using assms(2,3) x by (cases "fst x") auto
  next
    case False
    then show ?thesis using assms(1,3) x by (auto simp: sorted_wrt_append)
  qed
  ultimately show ?thesis by (auto simp: split_def filter_empty_conv filter_id_conv)
qed

lemma page_rows_rest:
  assumes "scan_rows (\<lambda>(sid, r). querySQLiteAttentionSummary sid r) (live_rows d now) = Inr (front @ rest)"
    and asc: "sorted_wrt (<) (map fst (live_rows d now))"
  obtains b where "\<And>n. page_rows d now (last_id front) n = take n b"
    "scan_rows (\<lambda>(sid, r). querySQLiteAttentionSummary sid r) b = Inr rest"
proof -
  let ?scan = "scan_rows (\<lambda>(sid, r). querySQLiteAttentionSummary sid r)"
  note ids = scan_rows_ids [OF assms(1)]
  define a b where "a = take (length front) (live_rows d now)" and "b = drop (length front) (live_rows d now)"
  have ab: "live_rows d now = a @ b" by (simp add: a_def b_def)
  have idlist: "map fst (live_rows d now) = map su_SessionID front @ map su_SessionID rest"
    using ids by simp
  have ia: "map fst a = map su_SessionID front" "map fst b = map su_SessionID rest"
    by (simp_all add: a_def b_def take_map [symmetric] drop_map [symmetric] idlist)
  obtain sa sb where sc: "?scan a = Inr sa" "?scan b = Inr sb" "front @ rest = sa @ sb"
    using assms(1) unfolding ab scan_rows_append by auto
  have "length sa = length front" using scan_rows_ids [OF sc(1)] ia(1) by (metis length_map)
  then have sb: "sb = rest" using sc(3) by simp
  have cursor: "last_id front = (if a = [] then [] else fst (last a))"
  proof (cases "front = []")
    case True
    then show ?thesis using ia(1) by (simp add: last_id_def)
  next
    case False
    then have "a \<noteq> []" using ia(1) by auto
    have "fst (last a) = last (map fst a)" using \<open>a \<noteq> []\<close> by (simp add: last_map)
    also have "\<dots> = su_SessionID (last front)" unfolding ia(1) using False by (simp add: last_map)
    finally show ?thesis using False \<open>a \<noteq> []\<close> by (simp add: last_id_def)
  qed
  have "filter (\<lambda>(sid, r). last_id front < sid) (a @ b) = b"
  proof (rule rows_behind [OF _ _ cursor])
    show "sorted_wrt (<) (map fst (a @ b))" using asc unfolding ab .
    have "set (map su_SessionID rest) \<subseteq> {i. i \<noteq> []}" using ids by auto
    then have "set (map fst b) \<subseteq> {i. i \<noteq> []}" unfolding ia(2) .
    then show "\<forall>y \<in> set b. fst y \<noteq> []" by auto
  qed
  then have rows: "page_rows d now (last_id front) n = take n b" for n
    by (simp only: page_rows_live ab)
  then show ?thesis using that sc(2) sb by blast
qed

interpretation sqlite_pages: page_store readable live_summaries "\<lambda>x. fromMilli (snd x 0)" "\<lambda>x q. AttentionSummaryPage q (snd x) (fst x)"
proof
  fix x :: "db \<times> clock"
  assume r: "readable x"
  obtain d clk where x: "x = (d, clk)" by force
  let ?scan = "scan_rows (\<lambda>(sid, r). querySQLiteAttentionSummary sid r)"
  obtain ss where ss: "?scan (live_rows d (clk 1)) = Inr ss" using r by (auto simp: readable_def x is_ok_iff)
  have all: "live_summaries x = ss" by (simp add: live_summaries_def x ss del: One_nat_def)
  note ids = scan_rows_ids [OF ss]
  have asc: "sorted_wrt (<) (map fst (live_rows d (clk 1)))" using r by (simp add: readable_def x live_rows_sorted)
  show "sorted_wrt (<) (map su_SessionID (live_summaries x))" using asc ids by (simp add: all)
  show "su_SessionID s \<noteq> []" if "s \<in> set (live_summaries x)" for s using that ids by (simp add: all)
  show "fromMilli (snd x 0) \<noteq> zeroTime" using r by (simp add: readable_def)
  fix front rest
  assume split: "live_summaries x = front @ rest"
  obtain b where rows: "\<And>n. page_rows d (clk 1) (last_id front) n = take n b" and sc: "?scan b = Inr rest"
    using page_rows_rest [OF ss [unfolded all [symmetric] split] asc] by blast
  show "AttentionSummaryPage \<lparr>pq_AfterSessionID = last_id front, pq_Limit = MaxAttentionSummaryPageSize\<rparr> (snd x) (fst x) =
      Inr (page_of (fromMilli (snd x 0)) rest)"
  proof -
    let ?n = "nat MaxAttentionSummaryPageSize"
    have n: "0 < ?n" "nat (MaxAttentionSummaryPageSize + 1) = Suc ?n" by (simp_all add: MaxAttentionSummaryPageSize_def)
    have "page_loop ?n (take (Suc ?n) b) [] = Inr (take ?n rest, if length rest > ?n then Some (last_id (take ?n rest)) else None)"
      using page_loop_scan [OF n(1) scan_rows_take [OF sc, of "Suc ?n"], of "[]"] by (simp add: min_def)
    moreover have "last_id front = [] \<or> validConnectionID (last_id front)"
      using ids split all by (auto simp: last_id_def validConnectionID_def)
    moreover have "attentionMigrationPending d = Inr False" using r by (simp add: readable_def x attentionMigrationPending_def)
    ultimately show ?thesis
      by (auto simp: AttentionSummaryPage_def x rows n(2) page_of_def MaxAttentionSummaryPageSize_def simp del: One_nat_def)
  qed
qed

section \<open>Properties\<close>

text \<open>
  C24: a scan of an unchanged store is complete and ends. When the store's summaries are readable, the
  dispatcher publishes, page after page, the summary of every session with live authority exactly once
  and in ascending order of the sessions, and stops; one round more than there are such sessions is
  enough. Whatever pages a store returns, changing or malformed, no session is published twice.
\<close>

theorem dispatch_complete:
  assumes "readable (d, clk)" "length (live_summaries (d, clk)) < fuel"
  shows "DispatchOnce fuel (Some (\<lambda>_ q. AttentionSummaryPage q clk d)) (Some (keeping (\<lambda>_ _. None))) [] =
      Some (map (activity_of (fromMilli (clk 0))) (live_summaries (d, clk)), Inr ()) \<and>
    sorted_wrt (<) (map su_SessionID (live_summaries (d, clk))) \<and>
    (\<forall>pages refuse out r. DispatchOnce fuel (Some pages) (Some (keeping refuse)) [] = Some (out, r) \<longrightarrow>
       sorted_wrt (<) (map as_SessionID out))"
proof -
  have "ascending [] []" by (simp add: ascending_def)
  then have "sorted_wrt (<) (map as_SessionID out)"
    if "DispatchOnce fuel (Some pages) (Some (keeping refuse)) [] = Some (out, r)" for pages refuse out r
    using dispatch_ascending [of fuel pages refuse 0 "[]" "[]" out r] that by (auto simp: DispatchOnce_def ascending_def)
  moreover have "last_id [] = []" by (simp add: last_id_def)
  ultimately show ?thesis
    using sqlite_pages.scan_rest [OF assms(1) _ assms(2), of "[]" 0 "[]"] sqlite_pages.order [OF assms(1)]
    by (simp add: DispatchOnce_def)
qed

definition demo_active :: db where
  "demo_active = fst (Append ''s'' [demo_event] (\<lambda>_. 7) demo_bound)"

theorem dispatch_complete_witness:
  "\<exists>a. DispatchOnce 2 (Some (\<lambda>_ q. AttentionSummaryPage q (\<lambda>_. 8) demo_active)) (Some (keeping (\<lambda>_ _. None))) [] =
     Some ([a], Inr ()) \<and> as_SessionID a = ''s'' \<and> as_State a = ''ready''"
proof -
  have ok: "readable (demo_active, \<lambda>_. 8)" by code_simp
  have "map (\<lambda>s. (su_SessionID s, su_State s)) (live_summaries (demo_active, \<lambda>_. 8)) = [(''s'', ''ready'')]" by code_simp
  then obtain x where "live_summaries (demo_active, \<lambda>_. 8) = [x]" "su_SessionID x = ''s''" "su_State x = ''ready''"
    by (auto simp: map_eq_Cons_conv)
  then show ?thesis using dispatch_complete [OF ok, of 2] by (simp add: activity_of_def)
qed

end
