(* ===== verification/Publication_Gates.thy ===== *)
theory Publication_Gates
  imports Wharf_Prelude
begin

text \<open>
  The publication gates of the hub (\<^verbatim>\<open>sessionPublicationGates\<close> in \<^verbatim>\<open>hub/event_batcher.go\<close>):
  callers queue up per session, each behind the channel its predecessor will close. A call of
  \<^verbatim>\<open>acquire\<close> makes a ticket; the ticket's channel is closed exactly when the ticket is released.
  A caller whose context ends leaves a goroutine behind that passes the token on. The map and the
  channels are only changed under the mutex, so every step below is atomic in the code.
\<close>

section \<open>The code\<close>

datatype ticket_status = Waiting | Held | Relaying | Released

record ticket =
  tk_session :: string
  tk_previous :: "nat option"
  tk_status :: ticket_status

record gates =
  ga_tail :: "string \<Rightarrow> nat option"
  ga_tickets :: "ticket list"

definition new_gates :: gates where
  "new_gates = \<lparr>ga_tail = (\<lambda>_. None), ga_tickets = []\<rparr>"

definition acquire :: "string \<Rightarrow> gates \<Rightarrow> gates" where
  "acquire sid g =
     (let previous = ga_tail g sid; current = length (ga_tickets g) in
      g\<lparr>ga_tail := (ga_tail g)(sid := Some current),
        ga_tickets := ga_tickets g @ [\<lparr>tk_session = sid, tk_previous = previous,
          tk_status = (if previous = None then Held else Waiting)\<rparr>]\<rparr>)"

definition set_status :: "nat \<Rightarrow> ticket_status \<Rightarrow> gates \<Rightarrow> gates" where
  "set_status c st g = g\<lparr>ga_tickets := (ga_tickets g)[c := (ga_tickets g ! c)\<lparr>tk_status := st\<rparr>]\<rparr>"

definition release :: "nat \<Rightarrow> gates \<Rightarrow> gates" where
  "release c g =
     (let sid = tk_session (ga_tickets g ! c) in
      set_status c Released
        (if ga_tail g sid = Some c then g\<lparr>ga_tail := (ga_tail g)(sid := None)\<rparr> else g))"

text \<open>Receiving from the predecessor's channel succeeds once that channel is closed.\<close>

definition predecessor_done :: "gates \<Rightarrow> nat \<Rightarrow> bool" where
  "predecessor_done g c \<longleftrightarrow>
     (case tk_previous (ga_tickets g ! c) of None \<Rightarrow> True | Some p \<Rightarrow> tk_status (ga_tickets g ! p) = Released)"

abbreviation status :: "gates \<Rightarrow> nat \<Rightarrow> ticket_status" where
  "status g c \<equiv> tk_status (ga_tickets g ! c)"

text \<open>The steps of the callers that have a ticket already.\<close>

inductive gate_step :: "gates \<Rightarrow> gates \<Rightarrow> bool" where
  enter: "c < length (ga_tickets g) \<Longrightarrow> status g c = Waiting \<Longrightarrow> predecessor_done g c \<Longrightarrow>
    gate_step g (set_status c Held g)"
| cancel: "c < length (ga_tickets g) \<Longrightarrow> status g c = Waiting \<Longrightarrow> gate_step g (set_status c Relaying g)"
| relay: "c < length (ga_tickets g) \<Longrightarrow> status g c = Relaying \<Longrightarrow> predecessor_done g c \<Longrightarrow>
    gate_step g (release c g)"
| leave: "c < length (ga_tickets g) \<Longrightarrow> status g c = Held \<Longrightarrow> gate_step g (release c g)"

inductive gate_run :: "gates \<Rightarrow> bool" where
  start: "gate_run new_gates"
| acquire: "gate_run g \<Longrightarrow> gate_run (acquire sid g)"
| step: "gate_run g \<Longrightarrow> gate_step g g' \<Longrightarrow> gate_run g'"

section \<open>The invariant\<close>

definition earlier :: "gates \<Rightarrow> nat \<Rightarrow> nat \<Rightarrow> bool" where
  "earlier g a c \<longleftrightarrow> a < c \<and> c < length (ga_tickets g) \<and> tk_session (ga_tickets g ! a) = tk_session (ga_tickets g ! c)"

definition front_done :: "gates \<Rightarrow> nat \<Rightarrow> bool" where
  "front_done g c \<longleftrightarrow> (\<forall>a. earlier g a c \<longrightarrow> status g a = Released)"

definition ticket_ok :: "gates \<Rightarrow> nat \<Rightarrow> bool" where
  "ticket_ok g c \<longleftrightarrow>
     (status g c = Held \<or> status g c = Released \<longrightarrow> front_done g c) \<and>
     (case tk_previous (ga_tickets g ! c) of
        None \<Rightarrow> front_done g c
      | Some p \<Rightarrow> earlier g p c \<and> (\<forall>a. earlier g a c \<longrightarrow> a \<le> p))"

definition tail_ok :: "gates \<Rightarrow> string \<Rightarrow> bool" where
  "tail_ok g sid \<longleftrightarrow>
     (case ga_tail g sid of
        None \<Rightarrow> (\<forall>c < length (ga_tickets g). tk_session (ga_tickets g ! c) = sid \<longrightarrow> status g c = Released)
      | Some l \<Rightarrow> l < length (ga_tickets g) \<and> tk_session (ga_tickets g ! l) = sid \<and> status g l \<noteq> Released \<and>
          (\<forall>c < length (ga_tickets g). tk_session (ga_tickets g ! c) = sid \<longrightarrow> c \<le> l))"

definition gates_ok :: "gates \<Rightarrow> bool" where
  "gates_ok g \<longleftrightarrow> (\<forall>c < length (ga_tickets g). ticket_ok g c) \<and> (\<forall>sid. tail_ok g sid)"

lemma set_status_nth:
  "a < length (ga_tickets g) \<Longrightarrow>
   ga_tickets (set_status c st g) ! a = (if a = c then (ga_tickets g ! a)\<lparr>tk_status := st\<rparr> else ga_tickets g ! a)"
  by (auto simp: set_status_def nth_list_update)

lemma set_status_frame [simp]:
  "length (ga_tickets (set_status c st g)) = length (ga_tickets g)" "ga_tail (set_status c st g) = ga_tail g"
  by (simp_all add: set_status_def)

lemma set_status_fields [simp]:
  "a < length (ga_tickets g) \<Longrightarrow> tk_session (ga_tickets (set_status c st g) ! a) = tk_session (ga_tickets g ! a)"
  "a < length (ga_tickets g) \<Longrightarrow> tk_previous (ga_tickets (set_status c st g) ! a) = tk_previous (ga_tickets g ! a)"
  "a < length (ga_tickets g) \<Longrightarrow> status (set_status c st g) a = (if a = c then st else status g a)"
  by (simp_all add: set_status_nth)

lemma earlier_set_status [simp]: "earlier (set_status c st g) a b = earlier g a b"
  by (auto simp: earlier_def)

lemma gates_okD:
  assumes "gates_ok g"
  shows "c < length (ga_tickets g) \<Longrightarrow> ticket_ok g c" "tail_ok g sid"
  using assms by (simp_all add: gates_ok_def)

lemma front_done_previous:
  assumes ok: "gates_ok g" and c: "c < length (ga_tickets g)" and prior: "predecessor_done g c"
  shows "front_done g c"
proof (cases "tk_previous (ga_tickets g ! c)")
  case None
  then show ?thesis using gates_okD(1) [OF ok c] by (simp add: ticket_ok_def)
next
  case (Some p)
  then have p: "earlier g p c" "\<And>a. earlier g a c \<Longrightarrow> a \<le> p" "status g p = Released"
    using gates_okD(1) [OF ok c] prior by (auto simp: ticket_ok_def predecessor_done_def)
  then have "p < length (ga_tickets g)" by (auto simp: earlier_def)
  then have front: "front_done g p" using gates_okD(1) [OF ok, of p] p(3) by (simp add: ticket_ok_def)
  have "status g a = Released" if a: "earlier g a c" for a
  proof (cases "a = p")
    case False
    then have "earlier g a p" using p(1) p(2) [OF a] a by (auto simp: earlier_def)
    then show ?thesis using front by (simp add: front_done_def)
  qed (use p(3) in simp)
  then show ?thesis by (simp add: front_done_def)
qed

lemma front_done_set_status:
  assumes "front_done g a" "status g c \<noteq> Released \<or> st = Released"
  shows "front_done (set_status c st g) a"
  using assms by (auto simp: front_done_def earlier_def)

lemma unreleased_tail:
  assumes "gates_ok g" "c < length (ga_tickets g)" "status g c \<noteq> Released"
  obtains l where "ga_tail g (tk_session (ga_tickets g ! c)) = Some l" "c \<le> l"
proof (cases "ga_tail g (tk_session (ga_tickets g ! c))")
  case None
  then show thesis using gates_okD(2) [OF assms(1), of "tk_session (ga_tickets g ! c)"] assms(2,3) by (auto simp: tail_ok_def)
next
  case (Some l)
  then show thesis
    using that gates_okD(2) [OF assms(1), of "tk_session (ga_tickets g ! c)"] assms(2) by (auto simp: tail_ok_def)
qed

lemma ticket_ok_set_status:
  assumes ok: "gates_ok g" and a: "a < length (ga_tickets g)"
    and "status g c \<noteq> Released \<or> st = Released" and "st = Held \<or> st = Released \<Longrightarrow> front_done g c"
  shows "ticket_ok (set_status c st g) a"
  using gates_okD(1) [OF ok a] a assms(3,4) front_done_set_status [OF _ assms(3)]
  by (cases "a = c") (auto simp: ticket_ok_def split: option.splits)

lemma set_status_ok:
  assumes ok: "gates_ok g" and c: "c < length (ga_tickets g)" "status g c \<noteq> Released" and st: "st \<noteq> Released"
    and held: "st = Held \<Longrightarrow> front_done g c"
  shows "gates_ok (set_status c st g)"
proof -
  have "tail_ok (set_status c st g) sid" for sid
  proof (cases "ga_tail g sid")
    case None
    then have "tk_session (ga_tickets g ! c) \<noteq> sid" using unreleased_tail [OF ok c] by fastforce
    then show ?thesis using gates_okD(2) [OF ok, of sid] None by (auto simp: tail_ok_def)
  next
    case (Some l)
    then show ?thesis using gates_okD(2) [OF ok, of sid] st by (auto simp: tail_ok_def)
  qed
  moreover have "ticket_ok (set_status c st g) a" if "a < length (ga_tickets g)" for a
    by (rule ticket_ok_set_status [OF ok that]) (use c st held in auto)
  ultimately show ?thesis by (simp add: gates_ok_def)
qed

lemma release_ok:
  assumes ok: "gates_ok g" and c: "c < length (ga_tickets g)" "status g c \<noteq> Released" and front: "front_done g c"
  shows "gates_ok (release c g)"
proof -
  define sid where "sid = tk_session (ga_tickets g ! c)"
  obtain l where l: "ga_tail g sid = Some l" "c \<le> l" using unreleased_tail [OF ok c] by (auto simp: sid_def)
  have last: "l < length (ga_tickets g)" "tk_session (ga_tickets g ! l) = sid" "status g l \<noteq> Released"
    "\<And>a. a < length (ga_tickets g) \<Longrightarrow> tk_session (ga_tickets g ! a) = sid \<Longrightarrow> a \<le> l"
    using gates_okD(2) [OF ok, of sid] l(1) by (auto simp: tail_ok_def)
  define h where "h = (if l = c then g\<lparr>ga_tail := (ga_tail g)(sid := None)\<rparr> else g)"
  have rel: "release c g = set_status c Released h" using l(1) by (simp add: release_def sid_def Let_def h_def)
  have h [simp]: "ga_tickets h = ga_tickets g" by (simp add: h_def)
  have same: "earlier h = earlier g" "front_done h = front_done g" "ticket_ok h = ticket_ok g"
    by (auto simp: earlier_def front_done_def ticket_ok_def fun_eq_iff split: option.splits)
  have "ticket_ok (set_status c Released h) a" if a: "a < length (ga_tickets g)" for a
    using gates_okD(1) [OF ok a] a front front_done_set_status [of h _ c Released] same
    by (cases "a = c") (auto simp: ticket_ok_def split: option.splits)
  moreover have "tail_ok (set_status c Released h) s" for s
  proof (cases "s = sid")
    case False
    then have "tk_session (ga_tickets g ! c) \<noteq> s" "ga_tail h s = ga_tail g s" by (auto simp: sid_def h_def)
    then show ?thesis using gates_okD(2) [OF ok, of s] by (auto simp: tail_ok_def split: option.splits)
  next
    case True
    show ?thesis
    proof (cases "l = c")
      case True
      have "status g a = Released" if "a < length (ga_tickets g)" "tk_session (ga_tickets g ! a) = sid" "a \<noteq> c" for a
        using last(4) [OF that(1,2)] that front c(1) True by (auto simp: front_done_def earlier_def sid_def)
      then show ?thesis using True \<open>s = sid\<close> by (auto simp: tail_ok_def h_def)
    next
      case False
      then show ?thesis using l last \<open>s = sid\<close> by (auto simp: tail_ok_def h_def)
    qed
  qed
  ultimately show ?thesis unfolding rel by (simp add: gates_ok_def)
qed

lemma acquire_nth:
  "a < length (ga_tickets g) \<Longrightarrow> ga_tickets (acquire sid g) ! a = ga_tickets g ! a"
  "ga_tickets (acquire sid g) ! length (ga_tickets g) = \<lparr>tk_session = sid, tk_previous = ga_tail g sid,
     tk_status = (if ga_tail g sid = None then Held else Waiting)\<rparr>"
  "length (ga_tickets (acquire sid g)) = Suc (length (ga_tickets g))"
  "ga_tail (acquire sid g) = (ga_tail g)(sid := Some (length (ga_tickets g)))"
  by (simp_all add: acquire_def Let_def nth_append)

lemma acquire_earlier:
  "c < length (ga_tickets g) \<Longrightarrow> earlier (acquire sid g) a c = earlier g a c"
  "earlier (acquire sid g) a (length (ga_tickets g)) \<longleftrightarrow> a < length (ga_tickets g) \<and> tk_session (ga_tickets g ! a) = sid"
  by (auto simp: earlier_def acquire_nth)

lemma acquire_ok:
  assumes ok: "gates_ok g"
  shows "gates_ok (acquire sid g)"
proof -
  let ?n = "length (ga_tickets g)" and ?g = "acquire sid g"
  have "front_done ?g c = front_done g c" if "c < ?n" for c
  proof -
    have "status ?g a = status g a" if "earlier g a c" for a using that by (auto simp: earlier_def acquire_nth)
    then show ?thesis using \<open>c < ?n\<close> by (simp add: front_done_def acquire_earlier)
  qed
  then have old: "ticket_ok ?g c" if "c < ?n" for c
    using gates_okD(1) [OF ok that] that by (simp add: ticket_ok_def acquire_nth acquire_earlier split: option.splits)
  have tail: "tail_ok g sid" by (rule gates_okD(2) [OF ok])
  have new: "ticket_ok ?g ?n"
  proof (cases "ga_tail g sid")
    case None
    then have "front_done ?g ?n" using tail by (auto simp: front_done_def acquire_earlier acquire_nth tail_ok_def)
    then show ?thesis by (simp add: ticket_ok_def acquire_nth None)
  next
    case (Some l)
    then show ?thesis using tail by (auto simp: ticket_ok_def acquire_nth acquire_earlier tail_ok_def)
  qed
  have "tail_ok ?g s" for s
    using gates_okD(2) [OF ok, of s]
    by (cases "s = sid") (auto simp: tail_ok_def acquire_nth less_Suc_eq split: option.splits)
  moreover have "ticket_ok ?g c" if "c < Suc ?n" for c using old new that by (cases "c = ?n") auto
  ultimately show ?thesis by (simp add: gates_ok_def acquire_nth)
qed

lemma gate_step_ok: "gate_step g g' \<Longrightarrow> gates_ok g \<Longrightarrow> gates_ok g'"
proof (induction rule: gate_step.induct)
  case (enter c g)
  then show ?case using front_done_previous by (intro set_status_ok) auto
next
  case (cancel c g)
  then show ?case by (intro set_status_ok) auto
next
  case (relay c g)
  then show ?case using front_done_previous by (intro release_ok) auto
next
  case (leave c g)
  then show ?case using gates_okD(1) [of g c] by (intro release_ok) (auto simp: ticket_ok_def)
qed

lemma gate_run_ok: "gate_run g \<Longrightarrow> gates_ok g"
proof (induction rule: gate_run.induct)
  case start
  show ?case by (simp add: gates_ok_def new_gates_def tail_ok_def)
qed (auto intro: acquire_ok gate_step_ok)

section \<open>Properties\<close>

text \<open>
  C23: publications of a session take turns. However callers acquire, enter, give up and leave, at most
  one ticket of a session is held, and a ticket is held only after every earlier ticket of the session
  has been released, whether its caller published or gave up. The first unreleased ticket of a session
  is held or can go on at once, so a caller that gives up never blocks the ones behind it, and a
  session leaves no entry in the map exactly when all its tickets are released.
\<close>

theorem gates_take_turns:
  assumes "gate_run g"
  shows "(\<forall>a < length (ga_tickets g). \<forall>c < length (ga_tickets g).
      status g a = Held \<and> status g c = Held \<and> tk_session (ga_tickets g ! a) = tk_session (ga_tickets g ! c) \<longrightarrow> a = c) \<and>
    (\<forall>c < length (ga_tickets g). status g c = Held \<longrightarrow> front_done g c) \<and>
    (\<forall>c < length (ga_tickets g). front_done g c \<longrightarrow> status g c = Held \<or> predecessor_done g c) \<and>
    (\<forall>sid. ga_tail g sid = None \<longleftrightarrow>
      (\<forall>c < length (ga_tickets g). tk_session (ga_tickets g ! c) = sid \<longrightarrow> status g c = Released))"
proof -
  note ok = gate_run_ok [OF assms]
  have held: "front_done g c" if "c < length (ga_tickets g)" "status g c = Held" for c
    using gates_okD(1) [OF ok that(1)] that(2) by (simp add: ticket_ok_def)
  have first: False if "status g a = Held" "status g c = Held" "a < c" "c < length (ga_tickets g)"
    "tk_session (ga_tickets g ! a) = tk_session (ga_tickets g ! c)" for a c
  proof -
    have "earlier g a c" using that by (simp add: earlier_def)
    then have "status g a = Released" using held [OF that(4,2)] by (simp add: front_done_def)
    then show False using that(1) by simp
  qed
  have excl: "a = c" if "a < length (ga_tickets g)" "c < length (ga_tickets g)" "status g a = Held" "status g c = Held"
    "tk_session (ga_tickets g ! a) = tk_session (ga_tickets g ! c)" for a c
    using first [OF that(3,4) _ that(2,5)] first [OF that(4,3) _ that(1) that(5) [symmetric]] by (meson linorder_neqE_nat)
  have go_on: "predecessor_done g c" if "c < length (ga_tickets g)" "front_done g c" for c
  proof (cases "tk_previous (ga_tickets g ! c)")
    case (Some p)
    then have "earlier g p c" using gates_okD(1) [OF ok that(1)] by (simp add: ticket_ok_def)
    then show ?thesis using that(2) Some by (simp add: predecessor_done_def front_done_def)
  qed (simp add: predecessor_done_def)
  have tail: "ga_tail g sid = None \<longleftrightarrow>
      (\<forall>c < length (ga_tickets g). tk_session (ga_tickets g ! c) = sid \<longrightarrow> status g c = Released)" for sid
  proof (cases "ga_tail g sid")
    case None
    then show ?thesis using gates_okD(2) [OF ok, of sid] by (simp add: tail_ok_def)
  next
    case (Some l)
    then have "l < length (ga_tickets g)" "tk_session (ga_tickets g ! l) = sid" "status g l \<noteq> Released"
      using gates_okD(2) [OF ok, of sid] by (simp_all add: tail_ok_def)
    then show ?thesis using Some by auto
  qed
  show ?thesis
    by (intro conjI allI impI; (elim conjE)?) (rule excl, assumption+, rule held, assumption+, rule disjI2, rule go_on, assumption+, rule tail)
qed

definition demo_gates :: gates where
  "demo_gates = release 0 (acquire ''s'' (acquire ''s'' new_gates))"

theorem gates_take_turns_witness:
  "length (ga_tickets demo_gates) = 2 \<and> predecessor_done demo_gates 1 \<and> ga_tail demo_gates ''s'' \<noteq> None"
proof -
  have "gate_run (acquire ''s'' (acquire ''s'' new_gates))" by (intro gate_run.acquire gate_run.start)
  moreover have "gate_step (acquire ''s'' (acquire ''s'' new_gates)) demo_gates"
    unfolding demo_gates_def by (rule gate_step.leave) (simp_all add: acquire_def new_gates_def Let_def)
  ultimately have run: "gate_run demo_gates" by (rule gate_run.step)
  have facts: "length (ga_tickets demo_gates) = 2" "status demo_gates 1 = Waiting" "status demo_gates 0 = Released"
    "tk_session (ga_tickets demo_gates ! 1) = ''s''" by code_simp+
  have "front_done demo_gates 1" using facts by (auto simp: front_done_def earlier_def)
  moreover have "status demo_gates 1 \<noteq> Released" using facts(2) by simp
  ultimately show ?thesis
    using gates_take_turns [OF run] facts
    by (intro conjI notI) (auto dest!: spec [of _ 1] dest: spec [of _ "''s''"])
qed

end
