(* ===== verification/Session_State.thy ===== *)
theory Session_State
  imports Wharf_Prelude
begin

text \<open>
  The state machine of a session on the adapter's side (\<^verbatim>\<open>adapter/core/state.go\<close>). States and
  reasons are strings, as in the code; a machine is a pointer, so an operation may meet none.
\<close>

section \<open>The code\<close>

datatype state_error = ErrInvalidState | ErrInvalidReason | ErrInvalidTransition | ErrTerminalState

record Transition_rec =
  tr_From :: string
  tr_To :: string
  tr_Reason :: string

record StateMachine =
  sm_state :: string

definition Terminal :: "Transition_rec \<Rightarrow> bool" where
  "Terminal t \<longleftrightarrow> tr_To t = ''ended'' \<or> tr_To t = ''error''"

definition validState :: "string \<Rightarrow> bool" where
  "validState state \<longleftrightarrow>
     state \<in> {''starting'', ''ready'', ''busy'', ''waiting_permission'', ''recovering'', ''ended'', ''error''}"

definition terminalState :: "string \<Rightarrow> bool" where
  "terminalState state \<longleftrightarrow> state = ''ended'' \<or> state = ''error''"

definition legalTransition :: "string \<Rightarrow> string \<Rightarrow> bool" where
  "legalTransition old new =
     (if old = ''starting'' then new = ''ready''
      else if old = ''ready'' then new = ''busy'' \<or> new = ''recovering''
      else if old = ''busy'' then new = ''ready'' \<or> new = ''waiting_permission'' \<or> new = ''recovering''
      else if old = ''waiting_permission'' then new = ''busy'' \<or> new = ''ready''
      else if old = ''recovering'' then new = ''ready''
      else False)"

definition validEndReason :: "string \<Rightarrow> bool" where
  "validEndReason reason \<longleftrightarrow> reason \<in> {''user_stop'', ''provider_exit'', ''crash'', ''timeout''}"

definition NewStateMachine :: "string \<Rightarrow> state_error + StateMachine" where
  "NewStateMachine initial =
     (if \<not> validState initial then Inl ErrInvalidState
      else if terminalState initial then Inl ErrTerminalState
      else Inr \<lparr>sm_state = initial\<rparr>)"

definition State :: "StateMachine option \<Rightarrow> string" where
  "State m = (case m of None \<Rightarrow> [] | Some m \<Rightarrow> sm_state m)"

definition apply_to :: "StateMachine \<Rightarrow> string \<Rightarrow> string \<Rightarrow> StateMachine \<times> Transition_rec" where
  "apply_to m to reason = (m\<lparr>sm_state := to\<rparr>, \<lparr>tr_From = sm_state m, tr_To = to, tr_Reason = reason\<rparr>)"

definition Transition ::
  "StateMachine option \<Rightarrow> string \<Rightarrow> string \<Rightarrow> StateMachine option \<times> (state_error + Transition_rec)" where
  "Transition p to reason =
     (case p of
        None \<Rightarrow> (p, Inl ErrInvalidState)
      | Some m \<Rightarrow>
          if \<not> validState (sm_state m) then (p, Inl ErrInvalidState)
          else if terminalState (sm_state m) then (p, Inl ErrTerminalState)
          else if \<not> validState to then (p, Inl ErrInvalidState)
          else if to = ''ended'' \<or> to = ''error'' then
            if reason = [] then (p, Inl ErrInvalidReason)
            else (case apply_to m to reason of (m, t) \<Rightarrow> (Some m, Inr t))
          else if \<not> legalTransition (sm_state m) to then (p, Inl ErrInvalidTransition)
          else (case apply_to m to reason of (m, t) \<Rightarrow> (Some m, Inr t)))"

definition End :: "StateMachine option \<Rightarrow> string \<Rightarrow> StateMachine option \<times> (state_error + Transition_rec)" where
  "End p reason =
     (if \<not> validEndReason reason then (p, Inl ErrInvalidReason) else Transition p ''ended'' reason)"

definition Error_to :: "StateMachine option \<Rightarrow> string \<Rightarrow> StateMachine option \<times> (state_error + Transition_rec)" where
  "Error_to p reason =
     (if reason = [] then (p, Inl ErrInvalidReason) else Transition p ''error'' reason)"

section \<open>Lives of a machine\<close>

datatype machine_call = CallTransition string string | CallEnd string | CallError string

fun machine_step :: "machine_call \<Rightarrow> StateMachine option \<Rightarrow> StateMachine option \<times> (state_error + Transition_rec)" where
  "machine_step (CallTransition to reason) p = Transition p to reason"
| "machine_step (CallEnd reason) p = End p reason"
| "machine_step (CallError reason) p = Error_to p reason"

text \<open>The transitions that the calls report, in order; refused calls report none.\<close>

fun machine_run :: "machine_call list \<Rightarrow> StateMachine option \<Rightarrow> StateMachine option \<times> Transition_rec list" where
  "machine_run [] p = (p, [])"
| "machine_run (c # cs) p =
     (case machine_step c p of
        (p, Inl e) \<Rightarrow> machine_run cs p
      | (p, Inr t) \<Rightarrow> (case machine_run cs p of (p, ts) \<Rightarrow> (p, t # ts)))"

text \<open>What a history from a state may look like.\<close>

inductive history :: "string \<Rightarrow> Transition_rec list \<Rightarrow> string \<Rightarrow> bool" where
  rest: "history s [] s"
| move: "legalTransition s s' \<Longrightarrow> history s' ts s'' \<Longrightarrow>
    history s (\<lparr>tr_From = s, tr_To = s', tr_Reason = reason\<rparr> # ts) s''"
| finish: "\<not> terminalState s \<Longrightarrow> terminalState s' \<Longrightarrow> reason \<noteq> [] \<Longrightarrow>
    history s [\<lparr>tr_From = s, tr_To = s', tr_Reason = reason\<rparr>] s'"

inductive_cases history_endE: "history s ts s''"

lemma legal_states: "legalTransition s s' \<Longrightarrow> validState s \<and> \<not> terminalState s \<and> validState s' \<and> \<not> terminalState s'"
  by (auto simp: legalTransition_def validState_def terminalState_def split: if_splits)

lemma machine_step_cases:
  assumes "validState (sm_state m)"
  obtains (refused) e where "machine_step c (Some m) = (Some m, Inl e)"
  | (moved) s' reason where "legalTransition (sm_state m) s'"
      "machine_step c (Some m) = (Some \<lparr>sm_state = s'\<rparr>, Inr \<lparr>tr_From = sm_state m, tr_To = s', tr_Reason = reason\<rparr>)"
  | (finished) s' reason where "\<not> terminalState (sm_state m)" "terminalState s'" "reason \<noteq> []"
      "machine_step c (Some m) = (Some \<lparr>sm_state = s'\<rparr>, Inr \<lparr>tr_From = sm_state m, tr_To = s', tr_Reason = reason\<rparr>)"
proof -
  have upd: "m\<lparr>sm_state := s\<rparr> = \<lparr>sm_state = s\<rparr>" for s by (cases m) simp
  have tr: "(\<exists>e. Transition (Some m) to reason = (Some m, Inl e)) \<or>
      ((legalTransition (sm_state m) to \<or> \<not> terminalState (sm_state m) \<and> terminalState to \<and> reason \<noteq> []) \<and>
       Transition (Some m) to reason = (Some \<lparr>sm_state = to\<rparr>, Inr \<lparr>tr_From = sm_state m, tr_To = to, tr_Reason = reason\<rparr>))"
    for to reason
    using assms by (auto simp: Transition_def apply_to_def upd terminalState_def)
  have "(\<exists>e. machine_step c (Some m) = (Some m, Inl e)) \<or> (\<exists>to reason.
      (legalTransition (sm_state m) to \<or> \<not> terminalState (sm_state m) \<and> terminalState to \<and> reason \<noteq> []) \<and>
      machine_step c (Some m) = (Some \<lparr>sm_state = to\<rparr>, Inr \<lparr>tr_From = sm_state m, tr_To = to, tr_Reason = reason\<rparr>))"
  proof (cases c)
    case (CallTransition to reason)
    then show ?thesis using tr [of to reason] by auto
  next
    case (CallEnd reason)
    then show ?thesis using tr [of "''ended''" reason] by (auto simp: End_def)
  next
    case (CallError reason)
    then show ?thesis using tr [of "''error''" reason] by (auto simp: Error_to_def)
  qed
  then show thesis using refused moved finished by blast
qed

lemma terminal_run: "validState s \<Longrightarrow> terminalState s \<Longrightarrow> machine_run cs (Some \<lparr>sm_state = s\<rparr>) = (Some \<lparr>sm_state = s\<rparr>, [])"
proof (induction cs)
  case (Cons c cs)
  have valid: "validState (sm_state \<lparr>sm_state = s\<rparr>)" using Cons.prems(1) by simp
  from valid show ?case
    using Cons legal_states [of s] by (cases rule: machine_step_cases [where c = c]) auto
qed simp

lemma terminal_valid: "terminalState s \<Longrightarrow> validState s"
  by (auto simp: terminalState_def validState_def)

section \<open>Properties\<close>

text \<open>
  C25: a session's life follows the state machine. Whatever sequence of transitions, ends and errors is
  asked of a machine in a known state, the transitions it reports form a connected path of legal moves
  from that state to the state it is in, in which only the last may enter a terminal state, and then
  with a reason; a refused call changes nothing.
\<close>

theorem session_history:
  assumes "validState s" "machine_run cs (Some \<lparr>sm_state = s\<rparr>) = (p, ts)"
  shows "\<exists>s'. p = Some \<lparr>sm_state = s'\<rparr> \<and> validState s' \<and> history s ts s'"
  using assms
proof (induction cs arbitrary: s ts)
  case (Cons c cs)
  have valid: "validState (sm_state \<lparr>sm_state = s\<rparr>)" using Cons.prems(1) by simp
  from valid show ?case
  proof (cases rule: machine_step_cases [where c = c])
    case (refused e)
    then show ?thesis using Cons by simp
  next
    case (moved s' reason)
    obtain ts' where ts: "machine_run cs (Some \<lparr>sm_state = s'\<rparr>) = (p, ts')"
      "ts = \<lparr>tr_From = s, tr_To = s', tr_Reason = reason\<rparr> # ts'"
      using Cons.prems(2) moved(2) by (auto split: prod.splits)
    then show ?thesis using Cons.IH [OF _ ts(1)] legal_states [of s s'] moved(1) history.move by fastforce
  next
    case (finished s' reason)
    then have "ts = [\<lparr>tr_From = s, tr_To = s', tr_Reason = reason\<rparr>]" "p = Some \<lparr>sm_state = s'\<rparr>"
      using Cons.prems(2) terminal_run [OF terminal_valid, of s' cs] by auto
    then show ?thesis using finished(1-3) history.finish terminal_valid by auto
  qed
qed (auto intro: history.rest)

theorem session_history_witness:
  "\<exists>s'. fst (machine_run [CallTransition ''ready'' [], CallTransition ''busy'' [], CallEnd ''user_stop'', CallError ''late'']
       (Some \<lparr>sm_state = ''starting''\<rparr>)) = Some \<lparr>sm_state = s'\<rparr> \<and> s' = ''ended'' \<and>
     history ''starting'' [\<lparr>tr_From = ''starting'', tr_To = ''ready'', tr_Reason = []\<rparr>,
       \<lparr>tr_From = ''ready'', tr_To = ''busy'', tr_Reason = []\<rparr>,
       \<lparr>tr_From = ''busy'', tr_To = ''ended'', tr_Reason = ''user_stop''\<rparr>] s'"
proof -
  have run: "machine_run [CallTransition ''ready'' [], CallTransition ''busy'' [], CallEnd ''user_stop'', CallError ''late'']
      (Some \<lparr>sm_state = ''starting''\<rparr>) = (Some \<lparr>sm_state = ''ended''\<rparr>,
      [\<lparr>tr_From = ''starting'', tr_To = ''ready'', tr_Reason = []\<rparr>,
       \<lparr>tr_From = ''ready'', tr_To = ''busy'', tr_Reason = []\<rparr>,
       \<lparr>tr_From = ''busy'', tr_To = ''ended'', tr_Reason = ''user_stop''\<rparr>])" by code_simp
  have "validState ''starting''" by code_simp
  from session_history [OF this run] show ?thesis unfolding run by simp
qed

end
