(* ===== verification/Masking.thy ===== *)
theory Masking
  imports Wharf_Prelude "HOL-Library.Sublist"
begin

text \<open>
  Masking of secrets (\<^verbatim>\<open>masking/masking.go\<close>): the construction of a masker, the masking of a
  string, the streaming masker that keeps back what may be the beginning of a secret, and the reader
  and the writer around it. Go strings and byte slices are lists of bytes.
\<close>

section \<open>Data\<close>

record Masker =
  mk_secrets :: "string list"
  mk_replacement :: string
  mk_keepTail :: nat

definition DefaultReplacement :: string where "DefaultReplacement = ''[MASKED]''"

definition MinSecretLength :: nat where "MinSecretLength = 4"

fun filter_secrets :: "string list \<Rightarrow> string list \<Rightarrow> string list" where
  "filter_secrets [] filtered = filtered"
| "filter_secrets (secret # secrets) filtered =
     (if length secret < MinSecretLength \<or> secret \<in> set filtered then filter_secrets secrets filtered
      else filter_secrets secrets (filtered @ [secret]))"

definition max_length :: "string list \<Rightarrow> nat" where
  "max_length secrets = foldl (\<lambda>m s. if length s > m then length s else m) 0 secrets"

definition NewWithReplacement :: "string list \<Rightarrow> string \<Rightarrow> Masker" where
  "NewWithReplacement secrets replacement =
     (let replacement = (if replacement = [] then DefaultReplacement else replacement);
          filtered = filter_secrets secrets [];
          maxLen = max_length filtered
      in \<lparr>mk_secrets = filtered, mk_replacement = replacement, mk_keepTail = (if maxLen > 1 then maxLen - 1 else 0)\<rparr>)"

definition New :: "string list \<Rightarrow> Masker" where
  "New secrets = NewWithReplacement secrets DefaultReplacement"

section \<open>Matches\<close>

text \<open>\<^verbatim>\<open>strings.Index\<close>: the first position at which a string occurs.\<close>

fun index_from :: "nat \<Rightarrow> string \<Rightarrow> string \<Rightarrow> nat option" where
  "index_from n [] sub = (if sub = [] then Some n else None)"
| "index_from n (c # text) sub = (if prefix sub (c # text) then Some n else index_from (Suc n) text sub)"

definition strings_Index :: "string \<Rightarrow> string \<Rightarrow> nat option" where
  "strings_Index text sub = index_from 0 text sub"

fun best_match :: "string \<Rightarrow> string list \<Rightarrow> (nat \<times> string) option \<Rightarrow> (nat \<times> string) option" where
  "best_match text [] best = best"
| "best_match text (secret # secrets) best =
     best_match text secrets
       (case strings_Index text secret of
          None \<Rightarrow> best
        | Some i \<Rightarrow>
            (case best of
               None \<Rightarrow> Some (i, secret)
             | Some (bi, bs) \<Rightarrow>
                 if i < bi \<or> (i = bi \<and> length secret > length bs) then Some (i, secret) else best))"

definition nextMatch :: "Masker \<Rightarrow> string \<Rightarrow> (nat \<times> string) option" where
  "nextMatch m data = best_match data (mk_secrets m) None"

section \<open>The streaming masker\<close>

text \<open>
  The loop of \<^verbatim>\<open>maskStreamChunk\<close>: the output and the bytes kept back. The test for an empty
  secret only serves termination: the secrets of a masker have at least four bytes.
\<close>

function mask_loop :: "Masker \<Rightarrow> bool \<Rightarrow> string \<Rightarrow> string \<times> string" where
  "mask_loop m flush data =
     (if data = [] then ([], [])
      else case nextMatch m data of
        Some (i, secret) \<Rightarrow>
          if secret = [] then ([], data)
          else (case mask_loop m flush (drop (i + length secret) data) of
            (out, rest) \<Rightarrow> (take i data @ mk_replacement m @ out, rest))
      | None \<Rightarrow>
          if flush then (data, [])
          else let keep = min (mk_keepTail m) (length data)
               in (take (length data - keep) data, drop (length data - keep) data))"
  by pat_completeness auto
termination
  by (relation "measure (\<lambda>(m, flush, data). length data)") (auto split: if_splits)

definition maskStreamChunk :: "Masker \<Rightarrow> string \<Rightarrow> string \<Rightarrow> bool \<Rightarrow> string \<times> string" where
  "maskStreamChunk m pending chunk flush =
     (if mk_secrets m = [] then (pending @ chunk, []) else mask_loop m flush (pending @ chunk))"

declare mask_loop.simps [simp del]

fun replace_all :: "nat \<Rightarrow> string \<Rightarrow> string \<Rightarrow> string \<Rightarrow> string" where
  "replace_all k [] old new = []"
| "replace_all (Suc k) (c # text) old new = replace_all k text old new"
| "replace_all 0 (c # text) old new =
     (if prefix old (c # text) then new @ replace_all (length old - 1) text old new
      else c # replace_all 0 text old new)"

definition MaskString :: "Masker \<Rightarrow> string \<Rightarrow> string" where
  "MaskString m text = foldl (\<lambda>text secret. replace_all 0 text secret (mk_replacement m)) text (mk_secrets m)"

section \<open>The writer\<close>

record 'w Writer =
  wt_writer :: 'w
  wt_masker :: Masker
  wt_pending :: string
  wt_closed :: bool

text \<open>The underlying writer is a parameter: it takes bytes into its state and may fail.\<close>

type_synonym 'w sink = "'w \<Rightarrow> string \<Rightarrow> 'w \<times> err option"

definition NewWriter :: "'w \<Rightarrow> string list \<Rightarrow> 'w Writer" where
  "NewWriter w secrets = \<lparr>wt_writer = w, wt_masker = New secrets, wt_pending = [], wt_closed = False\<rparr>"

definition emit :: "'w sink \<Rightarrow> string \<Rightarrow> 'w Writer \<Rightarrow> 'w Writer \<times> err option" where
  "emit sink masked w =
     (if masked = [] then (w, None)
      else case sink (wt_writer w) masked of (x, e) \<Rightarrow> (w\<lparr>wt_writer := x\<rparr>, e))"

definition Write :: "'w sink \<Rightarrow> string \<Rightarrow> 'w Writer \<Rightarrow> 'w Writer \<times> nat res" where
  "Write sink p w =
     (if wt_closed w then (w, Inl (Fail ''io: read/write on closed pipe''))
      else case maskStreamChunk (wt_masker w) (wt_pending w) p False of (masked, pending) \<Rightarrow>
        (case emit sink masked (w\<lparr>wt_pending := pending\<rparr>) of
           (w, Some e) \<Rightarrow> (w, Inl e)
         | (w, None) \<Rightarrow> (w, Inr (length p))))"

definition Close :: "'w sink \<Rightarrow> ('w \<Rightarrow> 'w \<times> err option) option \<Rightarrow> 'w Writer \<Rightarrow> 'w Writer \<times> unit res" where
  "Close sink closer w =
     (if wt_closed w then (w, Inr ())
      else case maskStreamChunk (wt_masker w) (wt_pending w) [] True of (masked, pending) \<Rightarrow>
        (case emit sink masked (w\<lparr>wt_closed := True, wt_pending := pending\<rparr>) of
           (w, Some e) \<Rightarrow> (w, Inl e)
         | (w, None) \<Rightarrow>
             (case closer of
                None \<Rightarrow> (w, Inr ())
              | Some close \<Rightarrow>
                  (case close (wt_writer w) of
                     (x, Some e) \<Rightarrow> (w\<lparr>wt_writer := x\<rparr>, Inl e)
                   | (x, None) \<Rightarrow> (w\<lparr>wt_writer := x\<rparr>, Inr ())))))"

text \<open>What a sequence of writes followed by a close hands to a writer that accepts everything.\<close>

definition collect :: "string sink" where
  "collect w p = (w @ p, None)"

definition written :: "string list \<Rightarrow> string list \<Rightarrow> string" where
  "written secrets chunks =
     wt_writer (fst (Close collect None (foldl (\<lambda>w p. fst (Write collect p w)) (NewWriter [] secrets) chunks)))"

section \<open>The reader\<close>

text \<open>
  The underlying reader is the list of what its calls return: the bytes read, and whether the call
  also reported the end of the input or failed. A reader that has nothing more to return is at its end.
\<close>

datatype read_end = ReadOk | ReadEOF | ReadFail string

datatype read_error = AtEOF | ReadFailed string

record Reader =
  rd_reader :: "(string \<times> read_end) list"
  rd_masker :: Masker
  rd_pending :: string
  rd_out :: string
  rd_eof :: bool

definition NewReader :: "(string \<times> read_end) list \<Rightarrow> string list \<Rightarrow> Reader" where
  "NewReader reader secrets =
     \<lparr>rd_reader = reader, rd_masker = New secrets, rd_pending = [], rd_out = [], rd_eof = False\<rparr>"

text \<open>The loop of \<^verbatim>\<open>Read\<close>, entered with nothing to hand out; it returns an error of the reader at once.\<close>

fun fill :: "Masker \<Rightarrow> string \<Rightarrow> (string \<times> read_end) list \<Rightarrow> Reader \<times> string option" where
  "fill m pending [] =
     (case maskStreamChunk m pending [] True of (out, pending) \<Rightarrow>
        (\<lparr>rd_reader = [], rd_masker = m, rd_pending = pending, rd_out = out, rd_eof = True\<rparr>, None))"
| "fill m pending ((buf, e) # reader) =
     (case (if buf = [] then ([], pending) else maskStreamChunk m pending buf False) of (out, pending) \<Rightarrow>
        (case e of
           ReadEOF \<Rightarrow>
             (case maskStreamChunk m pending [] True of (rest, pending) \<Rightarrow>
                (\<lparr>rd_reader = reader, rd_masker = m, rd_pending = pending, rd_out = out @ rest, rd_eof = True\<rparr>, None))
         | ReadFail x \<Rightarrow>
             (\<lparr>rd_reader = reader, rd_masker = m, rd_pending = pending, rd_out = out, rd_eof = False\<rparr>, Some x)
         | ReadOk \<Rightarrow>
             if out = [] then fill m pending reader
             else (\<lparr>rd_reader = reader, rd_masker = m, rd_pending = pending, rd_out = out, rd_eof = False\<rparr>, None)))"

text \<open>A call with room for \<open>n\<close> bytes: the bytes copied, or an error.\<close>

definition Read :: "nat \<Rightarrow> Reader \<Rightarrow> Reader \<times> (read_error + string)" where
  "Read n r =
     (if n = 0 then (r, Inr [])
      else case (if rd_out r = [] \<and> \<not> rd_eof r then fill (rd_masker r) (rd_pending r) (rd_reader r) else (r, None)) of
        (r, Some x) \<Rightarrow> (r, Inl (ReadFailed x))
      | (r, None) \<Rightarrow>
          if rd_out r = [] \<and> rd_eof r then (r, Inl AtEOF)
          else (r\<lparr>rd_out := drop n (rd_out r)\<rparr>, Inr (take n (rd_out r))))"

section \<open>Matches, characterised\<close>

definition hit :: "Masker \<Rightarrow> nat \<Rightarrow> string \<Rightarrow> bool" where
  "hit m j data \<longleftrightarrow> (\<exists>s \<in> set (mk_secrets m). prefix s (drop j data))"

definition clean :: "Masker \<Rightarrow> string \<Rightarrow> bool" where
  "clean m t \<longleftrightarrow> (\<forall>s \<in> set (mk_secrets m). \<not> sublist s t)"

definition masker_ok :: "Masker \<Rightarrow> bool" where
  "masker_ok m \<longleftrightarrow> (\<forall>s \<in> set (mk_secrets m). s \<noteq> [] \<and> length s \<le> Suc (mk_keepTail m))"

lemma filter_secrets_set:
  "s \<in> set (filter_secrets secrets acc) \<longleftrightarrow> s \<in> set acc \<or> s \<in> set secrets \<and> MinSecretLength \<le> length s"
proof (induction secrets arbitrary: acc)
  case (Cons x xs)
  consider "x \<in> set acc" | "length x < MinSecretLength" | "x \<notin> set acc" "MinSecretLength \<le> length x" by linarith
  then show ?case
  proof cases
    case 1
    then show ?thesis by (simp add: Cons.IH) blast
  next
    case 2
    then show ?thesis by (simp add: Cons.IH) (metis leD)
  next
    case 3
    then show ?thesis by (simp add: Cons.IH not_less [symmetric] del: not_less) blast
  qed
qed simp

lemma longest_ge:
  fixes xs :: "string list"
  defines "longer \<equiv> \<lambda>m s. if length s > m then length s else m"
  shows "k \<le> foldl longer k xs \<and> (\<forall>s \<in> set xs. length s \<le> foldl longer k xs)"
proof (induction xs arbitrary: k)
  case (Cons x xs)
  have "k \<le> longer k x" "length x \<le> longer k x" by (simp_all add: longer_def)
  with Cons.IH [of "longer k x"] show ?case by (auto intro: order_trans)
qed simp

lemma max_length_ge: "s \<in> set secrets \<Longrightarrow> length s \<le> max_length secrets"
  using longest_ge [of 0 secrets] by (simp add: max_length_def)

lemma New_ok: "masker_ok (NewWithReplacement secrets r)"
proof -
  have "s \<noteq> [] \<and> length s \<le> Suc (mk_keepTail (NewWithReplacement secrets r))"
    if "s \<in> set (filter_secrets secrets [])" for s
    using that max_length_ge [OF that] filter_secrets_set [of s secrets "[]"]
    by (auto simp: NewWithReplacement_def Let_def MinSecretLength_def)
  then show ?thesis by (simp add: masker_ok_def) (simp add: NewWithReplacement_def Let_def)
qed

lemma index_from_Some:
  "index_from n t sub = Some i \<Longrightarrow>
   n \<le> i \<and> prefix sub (drop (i - n) t) \<and> i - n \<le> length t \<and> (\<forall>j. n + j < i \<longrightarrow> \<not> prefix sub (drop j t))"
proof (induction t arbitrary: n)
  case (Cons c t)
  show ?case
  proof (cases "prefix sub (c # t)")
    case True
    then show ?thesis using Cons.prems by auto
  next
    case False
    then have ih: "Suc n \<le> i \<and> prefix sub (drop (i - Suc n) t) \<and> i - Suc n \<le> length t \<and>
        (\<forall>j. Suc n + j < i \<longrightarrow> \<not> prefix sub (drop j t))"
      using Cons.IH [of "Suc n"] Cons.prems by simp
    have "\<not> prefix sub (drop j (c # t))" if "n + j < i" for j
      using ih False that by (cases j) auto
    then show ?thesis using ih by (auto simp: drop_Cons' Suc_diff_Suc)
  qed
qed (auto split: if_splits)

lemma index_from_None: "sub \<noteq> [] \<Longrightarrow> index_from n t sub = None \<Longrightarrow> \<not> prefix sub (drop j t)"
proof (induction t arbitrary: n j)
  case (Cons c t)
  then show ?case by (cases j) (auto split: if_splits)
qed simp

lemma best_match_spec:
  assumes "\<forall>s \<in> set secrets. s \<noteq> []"
    and "best = None \<or> (\<exists>i s. best = Some (i, s) \<and> prefix s (drop i t) \<and> i \<le> length t)"
  shows "case best_match t secrets best of
      None \<Rightarrow> best = None \<and> (\<forall>s \<in> set secrets. \<forall>j. \<not> prefix s (drop j t))
    | Some (i, s) \<Rightarrow> (s \<in> set secrets \<or> best = Some (i, s)) \<and> prefix s (drop i t) \<and> i \<le> length t \<and>
        (\<forall>s' \<in> set secrets. \<forall>j < i. \<not> prefix s' (drop j t)) \<and>
        (\<forall>s' \<in> set secrets. prefix s' (drop i t) \<longrightarrow> length s' \<le> length s) \<and>
        (\<forall>bi bs. best = Some (bi, bs) \<longrightarrow> i < bi \<or> i = bi \<and> length bs \<le> length s)"
  using assms
proof (induction secrets arbitrary: best)
  case (Cons x secrets)
  define best' where "best' = (case strings_Index t x of None \<Rightarrow> best
      | Some i \<Rightarrow> (case best of None \<Rightarrow> Some (i, x)
        | Some (bi, bs) \<Rightarrow> if i < bi \<or> i = bi \<and> length x > length bs then Some (i, x) else best))"
  have step: "best_match t (x # secrets) best = best_match t secrets best'" by (simp add: best'_def)
  show ?case
  proof (cases "strings_Index t x")
    case None
    then have none: "\<not> prefix x (drop j t)" for j
      using index_from_None [of x 0 t j] Cons.prems(1) by (simp add: strings_Index_def)
    have "best' = best" using None by (simp add: best'_def)
    then show ?thesis unfolding step using Cons.IH [of best] Cons.prems none
      by (auto split: option.splits)
  next
    case (Some k)
    have k: "prefix x (drop k t)" "k \<le> length t" "\<And>j. j < k \<Longrightarrow> \<not> prefix x (drop j t)"
      using index_from_Some [of 0 t x k] Some by (simp_all add: strings_Index_def)
    have ok: "best' = None \<or> (\<exists>i s. best' = Some (i, s) \<and> prefix s (drop i t) \<and> i \<le> length t)"
      using Cons.prems(2) k(1,2) Some by (auto simp: best'_def split: option.splits if_splits)
    have le: "\<exists>bi bs. best' = Some (bi, bs) \<and> (bi < k \<or> bi = k \<and> length x \<le> length bs) \<and>
        (best' = Some (k, x) \<or> best' = best) \<and>
        (\<forall>ci cs. best = Some (ci, cs) \<longrightarrow> bi < ci \<or> bi = ci \<and> length cs \<le> length bs)"
      using Some by (cases best) (auto simp: best'_def)
    obtain bi bs where b: "best' = Some (bi, bs)" "bi < k \<or> bi = k \<and> length x \<le> length bs"
      "best' = Some (k, x) \<or> best' = best"
      "\<And>ci cs. best = Some (ci, cs) \<Longrightarrow> bi < ci \<or> bi = ci \<and> length cs \<le> length bs" using le by blast
    have "\<forall>s \<in> set secrets. s \<noteq> []" using Cons.prems(1) by simp
    note ih = Cons.IH [OF this ok]
    obtain i s where r: "best_match t secrets best' = Some (i, s)"
      using ih b(1) by (cases "best_match t secrets best'") auto
    have spec: "s \<in> set secrets \<or> best' = Some (i, s)" "prefix s (drop i t)" "i \<le> length t"
      "\<forall>s' \<in> set secrets. \<forall>j < i. \<not> prefix s' (drop j t)"
      "\<forall>s' \<in> set secrets. prefix s' (drop i t) \<longrightarrow> length s' \<le> length s"
      "i < bi \<or> i = bi \<and> length bs \<le> length s"
      using ih [unfolded r option.case prod.case] b(1) by blast+
    have "i \<le> k" using b(2) spec(6) by linarith
    then have x1: "\<forall>j < i. \<not> prefix x (drop j t)" using k(3) by simp
    have x2: "length x \<le> length s" if "prefix x (drop i t)"
    proof -
      have "\<not> i < k" using k(3) that by blast
      then show ?thesis using b(2) spec(6) \<open>i \<le> k\<close> by linarith
    qed
    have "s \<in> set (x # secrets) \<or> best = Some (i, s)" using spec(1) b(3) by auto
    moreover have "\<forall>ci cs. best = Some (ci, cs) \<longrightarrow> i < ci \<or> i = ci \<and> length cs \<le> length s"
      using b(4) spec(6) by fastforce
    ultimately show ?thesis unfolding step r using spec(2-5) x1 x2 by simp
  qed
qed (auto split: option.splits)

lemma nextMatch_None: "masker_ok m \<Longrightarrow> nextMatch m t = None \<Longrightarrow> \<not> hit m j t"
  using best_match_spec [of "mk_secrets m" None t] by (auto simp: nextMatch_def masker_ok_def hit_def)

lemma nextMatch_Some:
  assumes "masker_ok m" "nextMatch m t = Some (i, s)"
  shows "s \<in> set (mk_secrets m)" "prefix s (drop i t)" "s \<noteq> []" "i + length s \<le> length t"
    "\<And>j. j < i \<Longrightarrow> \<not> hit m j t" "\<And>s'. s' \<in> set (mk_secrets m) \<Longrightarrow> prefix s' (drop i t) \<Longrightarrow> length s' \<le> length s"
proof -
  have spec: "s \<in> set (mk_secrets m) \<and> prefix s (drop i t) \<and> i \<le> length t \<and>
      (\<forall>s' \<in> set (mk_secrets m). \<forall>j < i. \<not> prefix s' (drop j t)) \<and>
      (\<forall>s' \<in> set (mk_secrets m). prefix s' (drop i t) \<longrightarrow> length s' \<le> length s)"
    using best_match_spec [of "mk_secrets m" None t] assms by (simp add: nextMatch_def masker_ok_def)
  then show "s \<in> set (mk_secrets m)" "prefix s (drop i t)"
    "\<And>j. j < i \<Longrightarrow> \<not> hit m j t" "\<And>s'. s' \<in> set (mk_secrets m) \<Longrightarrow> prefix s' (drop i t) \<Longrightarrow> length s' \<le> length s"
    by (auto simp: hit_def)
  show "s \<noteq> []" using spec assms(1) by (auto simp: masker_ok_def)
  show "i + length s \<le> length t" using spec prefix_length_le [of s "drop i t"] by auto
qed

lemma nextMatch_hit: "masker_ok m \<Longrightarrow> hit m j t \<Longrightarrow> \<exists>i s. nextMatch m t = Some (i, s) \<and> i \<le> j"
  using nextMatch_None nextMatch_Some(5) by (cases "nextMatch m t") (auto simp: not_less [symmetric])

section \<open>What the masker lets through\<close>

text \<open>\<open>masks m input output\<close>: the output is the input with secrets replaced and nothing else changed, and
  no piece that is let through contains a secret.\<close>

inductive masks :: "Masker \<Rightarrow> string \<Rightarrow> string \<Rightarrow> bool" for m where
  last_piece: "clean m t \<Longrightarrow> masks m t t"
| replaced: "clean m t \<Longrightarrow> s \<in> set (mk_secrets m) \<Longrightarrow> masks m rest out \<Longrightarrow>
    masks m (t @ s @ rest) (t @ mk_replacement m @ out)"

text \<open>No secret can start in the piece \<open>open_piece\<close> that was let through, whatever follows the bytes kept back.\<close>

definition boundary :: "Masker \<Rightarrow> string \<Rightarrow> string \<Rightarrow> bool" where
  "boundary m open_piece kept \<longleftrightarrow> (\<forall>j < length open_piece. \<forall>tail. \<not> hit m j (open_piece @ kept @ tail))"

lemma clean_hit: "clean m t \<longleftrightarrow> (\<forall>j. \<not> hit m j t)"
proof -
  have "sublist s t \<longleftrightarrow> (\<exists>j. prefix s (drop j t))" for s
  proof
    assume "sublist s t"
    then obtain ps ss where "t = ps @ s @ ss" by (auto simp: sublist_def)
    then show "\<exists>j. prefix s (drop j t)" by (intro exI [of _ "length ps"]) simp
  next
    assume "\<exists>j. prefix s (drop j t)"
    then obtain j ss where "drop j t = s @ ss" by (auto simp: prefix_def)
    then have "t = take j t @ s @ ss" by (metis append_take_drop_id)
    then show "sublist s t" unfolding sublist_def by blast
  qed
  then show ?thesis by (auto simp: clean_def hit_def)
qed

lemma hit_append: "hit m j t \<Longrightarrow> hit m j (t @ u)"
  by (auto simp: hit_def intro: prefix_prefix)

lemma hit_shift: "hit m (length a + j) (a @ t) \<longleftrightarrow> hit m j t"
  by (simp add: hit_def)

lemma hit_bound: "masker_ok m \<Longrightarrow> hit m j t \<Longrightarrow> j < length t"
  by (rule ccontr) (auto simp: hit_def masker_ok_def)

lemma hit_inside:
  assumes "masker_ok m" "hit m j (t @ u)" "j + Suc (mk_keepTail m) \<le> length t"
  shows "hit m j t"
proof -
  obtain s where s: "s \<in> set (mk_secrets m)" "prefix s (drop j (t @ u))" "length s \<le> Suc (mk_keepTail m)"
    using assms(1,2) by (auto simp: hit_def masker_ok_def)
  then have "length s \<le> length (drop j t)" "drop j (t @ u) = drop j t @ u" using assms(3) by simp_all
  then have "prefix s (drop j t)"
    using prefix_length_prefix [of s "drop j t @ u" "drop j t"] s(2) by simp
  then show ?thesis using s(1) by (auto simp: hit_def)
qed

lemma boundary_Nil [simp]: "boundary m [] kept"
  by (simp add: boundary_def)

lemma boundary_more: "boundary m cl data \<Longrightarrow> boundary m cl (data @ rest)"
  by (simp add: boundary_def)

lemma match_split:
  assumes "masker_ok m" "nextMatch m t = Some (i, s)"
  shows "t = take i t @ s @ drop (i + length s) t"
proof -
  obtain u where u: "drop i t = s @ u" using nextMatch_Some(2) [OF assms] by (auto simp: prefix_def)
  then have "drop (i + length s) t = u" by (metis add.commute append_eq_conv_conj drop_drop)
  then show ?thesis using u by (metis append_take_drop_id)
qed

lemma piece_clean:
  assumes ok: "masker_ok m" and "boundary m cl t" and before: "\<And>j. j < i \<Longrightarrow> \<not> hit m j t"
  shows "clean m (cl @ take i t)"
proof -
  have "\<not> hit m j (cl @ take i t)" for j
  proof (cases "j < length cl")
    case True
    then have "\<not> hit m j (cl @ t @ [])" using assms(2) unfolding boundary_def by blast
    then show ?thesis using hit_append [of m j "cl @ take i t" "drop i t"] by auto
  next
    case False
    then obtain k where k: "j = length cl + k" using le_Suc_ex not_less by blast
    show ?thesis
    proof
      assume "hit m j (cl @ take i t)"
      then have "hit m k (take i t)" by (simp add: k hit_shift)
      then have "k < i" "hit m k (take i t @ drop i t)" using hit_bound [OF ok] hit_append by fastforce+
      then show False using before by simp
    qed
  qed
  then show ?thesis by (simp add: clean_hit)
qed

lemma kept_boundary:
  assumes ok: "masker_ok m" and "boundary m cl t" and none: "nextMatch m t = None"
  defines "n \<equiv> length t - min (mk_keepTail m) (length t)"
  shows "boundary m (cl @ take n t) (drop n t)"
  unfolding boundary_def
proof (intro allI impI)
  fix j tail
  assume j: "j < length (cl @ take n t)"
  have eq: "(cl @ take n t) @ drop n t @ tail = cl @ t @ tail" by (metis append_assoc append_take_drop_id)
  have "\<not> hit m j (cl @ t @ tail)"
  proof (cases "j < length cl")
    case True
    then show ?thesis using assms(2) by (simp add: boundary_def)
  next
    case False
    then obtain k where k: "j = length cl + k" using le_Suc_ex not_less by blast
    then have "k + Suc (mk_keepTail m) \<le> length t" using j by (auto simp: n_def)
    then have "\<not> hit m k (t @ tail)" using hit_inside [OF ok] nextMatch_None [OF ok none] by blast
    then show ?thesis by (simp add: k hit_shift)
  qed
  then show "\<not> hit m j ((cl @ take n t) @ drop n t @ tail)" unfolding eq .
qed

lemma mask_loop_cases:
  assumes "masker_ok m"
  obtains (empty) "t = []" "mask_loop m flush t = ([], [])"
  | (hit) i s out kept where "nextMatch m t = Some (i, s)" "s \<noteq> []" "i + length s \<le> length t"
      "mask_loop m flush (drop (i + length s) t) = (out, kept)"
      "mask_loop m flush t = (take i t @ mk_replacement m @ out, kept)"
  | (flush) "nextMatch m t = None" "flush" "mask_loop m flush t = (t, [])"
  | (keep) "nextMatch m t = None" "\<not> flush"
      "mask_loop m flush t = (take (length t - min (mk_keepTail m) (length t)) t,
         drop (length t - min (mk_keepTail m) (length t)) t)"
proof (cases "t = []")
  case True
  then show thesis using empty by (simp add: mask_loop.simps)
next
  case False
  show thesis
  proof (cases "nextMatch m t")
    case None
    then show thesis using flush keep False by (cases flush) (simp_all add: mask_loop.simps [of m _ t] Let_def)
  next
    case (Some x)
    then obtain i s where m: "nextMatch m t = Some (i, s)" by (cases x) auto
    obtain out kept where r: "mask_loop m flush (drop (i + length s) t) = (out, kept)" by force
    show thesis
      using hit [OF m nextMatch_Some(3,4) [OF assms m] r] False m r nextMatch_Some(3) [OF assms m]
      by (simp add: mask_loop.simps [of m flush t])
  qed
qed

text \<open>One chunk: if every continuation of what is kept back is masked, so is every continuation of the chunk.\<close>

lemma chunk_masks:
  assumes ok: "masker_ok m"
    and rest: "\<And>cl. boundary m cl kept \<Longrightarrow> masks m (cl @ kept @ tail) (cl @ rest)"
  shows "boundary m cl t \<Longrightarrow> mask_loop m False t = (out, kept) \<Longrightarrow> masks m (cl @ t @ tail) (cl @ out @ rest)"
proof (induction t arbitrary: cl out rule: length_induct)
  case (1 t)
  from ok show ?case
  proof (cases rule: mask_loop_cases [where t = t and flush = False])
    case empty
    then show ?thesis using 1(2,3) rest by auto
  next
    case (hit i s out' kept')
    then have r: "kept' = kept" "out = take i t @ mk_replacement m @ out'" using 1(3) by auto
    have "length (drop (i + length s) t) < length t" using hit(2,3) by (cases s) auto
    then have "masks m ([] @ drop (i + length s) t @ tail) ([] @ out' @ rest)"
      using 1(1) hit(4) r(1) by (metis boundary_Nil)
    moreover have "clean m (cl @ take i t)"
      by (rule piece_clean [OF ok 1(2) nextMatch_Some(5) [OF ok hit(1)]])
    ultimately have "masks m ((cl @ take i t) @ s @ drop (i + length s) t @ tail)
        ((cl @ take i t) @ mk_replacement m @ out' @ rest)"
      using masks.replaced nextMatch_Some(1) [OF ok hit(1)] by fastforce
    then show ?thesis using r(2) match_split [OF ok hit(1)] by (metis append_assoc)
  next
    case keep
    define n where "n = length t - min (mk_keepTail m) (length t)"
    have "out = take n t" "kept = drop n t" using 1(3) keep(3) by (simp_all add: n_def)
    moreover have "boundary m (cl @ take n t) (drop n t)"
      using kept_boundary [OF ok 1(2) keep(1)] by (simp add: n_def)
    ultimately show ?thesis using rest [of "cl @ out"] by (metis append_assoc append_take_drop_id)
  qed simp
qed

lemma last_chunk_masks:
  assumes ok: "masker_ok m"
  shows "boundary m cl t \<Longrightarrow> masks m (cl @ t) (cl @ fst (mask_loop m True t))"
proof (induction t arbitrary: cl rule: length_induct)
  case (1 t)
  have all_clean: "clean m (cl @ t)" if "\<And>j. \<not> hit m j t"
    using piece_clean [OF ok 1(2), of "length t"] that by simp
  from ok show ?case
  proof (cases rule: mask_loop_cases [where t = t and flush = True])
    case empty
    then have "\<not> hit m j t" for j using hit_bound [OF ok, of j t] by auto
    then show ?thesis using all_clean masks.last_piece empty by fastforce
  next
    case (hit i s out kept)
    have "length (drop (i + length s) t) < length t" using hit(2,3) by (cases s) auto
    then have "masks m (drop (i + length s) t) out"
      using 1(1) hit(4) by (metis append_Nil boundary_Nil fst_conv)
    moreover have "clean m (cl @ take i t)"
      by (rule piece_clean [OF ok 1(2) nextMatch_Some(5) [OF ok hit(1)]])
    ultimately have "masks m ((cl @ take i t) @ s @ drop (i + length s) t) ((cl @ take i t) @ mk_replacement m @ out)"
      using masks.replaced nextMatch_Some(1) [OF ok hit(1)] by blast
    then show ?thesis using hit(5) match_split [OF ok hit(1)] by (metis append_assoc fst_conv)
  next
    case flush
    then show ?thesis using all_clean nextMatch_None [OF ok] masks.last_piece by fastforce
  qed simp
qed

section \<open>Streams\<close>

fun mask_stream :: "Masker \<Rightarrow> string \<Rightarrow> string list \<Rightarrow> string" where
  "mask_stream m pending [] = fst (maskStreamChunk m pending [] True)"
| "mask_stream m pending (chunk # chunks) =
     (case maskStreamChunk m pending chunk False of (out, pending) \<Rightarrow> out @ mask_stream m pending chunks)"

lemma no_secrets_stream: "mk_secrets m = [] \<Longrightarrow> mask_stream m pending chunks = pending @ concat chunks"
  by (induction chunks arbitrary: pending) (simp_all add: maskStreamChunk_def)

lemma stream_masks:
  assumes ok: "masker_ok m" and ne: "mk_secrets m \<noteq> []"
  shows "boundary m cl pending \<Longrightarrow> masks m (cl @ pending @ concat chunks) (cl @ mask_stream m pending chunks)"
proof (induction chunks arbitrary: cl pending)
  case Nil
  then show ?case using last_chunk_masks [OF ok Nil] ne by (simp add: maskStreamChunk_def)
next
  case (Cons chunk chunks)
  obtain out kept where r: "mask_loop m False (pending @ chunk) = (out, kept)" by force
  have "masks m (cl @ (pending @ chunk) @ concat chunks) (cl @ out @ mask_stream m kept chunks)"
    by (rule chunk_masks [OF ok _ boundary_more [OF Cons.prems] r]) (rule Cons.IH)
  then show ?case using r ne by (simp add: maskStreamChunk_def)
qed

lemma masks_stream:
  assumes "masker_ok m"
  shows "masks m (concat chunks) (mask_stream m [] chunks)"
proof (cases "mk_secrets m = []")
  case True
  then show ?thesis using no_secrets_stream [OF True, of "[]" chunks] by (auto simp: clean_def intro: masks.last_piece)
next
  case False
  then show ?thesis using stream_masks [OF assms False, of "[]" "[]" chunks] by simp
qed

text \<open>The writer hands exactly the masked stream to the writer below it.\<close>

lemma emit_collect: "emit collect masked w = (w\<lparr>wt_writer := wt_writer w @ masked\<rparr>, None)"
  by (simp add: emit_def collect_def)

lemma written_from:
  assumes "\<not> wt_closed w"
  shows "wt_writer (fst (Close collect None (foldl (\<lambda>w p. fst (Write collect p w)) w chunks))) =
    wt_writer w @ mask_stream (wt_masker w) (wt_pending w) chunks"
  using assms
proof (induction chunks arbitrary: w)
  case Nil
  then show ?case by (simp add: Close_def emit_collect split: prod.splits)
next
  case (Cons p chunks)
  obtain out pending where r: "maskStreamChunk (wt_masker w) (wt_pending w) p False = (out, pending)" by force
  have "fst (Write collect p w) = w\<lparr>wt_pending := pending, wt_writer := wt_writer w @ out\<rparr>"
    using Cons.prems r by (simp add: Write_def emit_collect)
  then show ?case using Cons.IH [of "fst (Write collect p w)"] Cons.prems r by simp
qed

lemma written_stream: "written secrets chunks = mask_stream (New secrets) [] chunks"
  by (simp add: written_def written_from) (simp add: NewWriter_def written_from)

text \<open>What a reader whose input does not fail still has to hand out.\<close>

fun input_chunks :: "(string \<times> read_end) list \<Rightarrow> string list" where
  "input_chunks [] = []"
| "input_chunks ((buf, e) # reader) = (if buf = [] then [] else [buf]) @ (if e = ReadEOF then [] else input_chunks reader)"

definition input_sound :: "(string \<times> read_end) list \<Rightarrow> bool" where
  "input_sound reader \<longleftrightarrow> (\<forall>(buf, e) \<in> set reader. \<forall>x. e \<noteq> ReadFail x)"

definition remaining :: "Reader \<Rightarrow> string" where
  "remaining r =
     rd_out r @ (if rd_eof r then [] else mask_stream (rd_masker r) (rd_pending r) (input_chunks (rd_reader r)))"

lemma fill_remaining:
  "input_sound reader \<Longrightarrow> fill m pending reader = (r, e) \<Longrightarrow>
   e = None \<and> remaining r = mask_stream m pending (input_chunks reader) \<and> (rd_out r = [] \<longrightarrow> rd_eof r) \<and>
   input_sound (rd_reader r) \<and> rd_masker r = m"
proof (induction m pending reader rule: fill.induct)
  case (1 m pending)
  then show ?case by (auto simp: remaining_def input_sound_def split: prod.splits)
next
  case (2 m pending buf e' reader)
  obtain out kept where c: "(if buf = [] then ([], pending) else maskStreamChunk m pending buf False) = (out, kept)" by force
  have step: "mask_stream m pending (input_chunks ((buf, e') # reader)) =
      out @ mask_stream m kept (if e' = ReadEOF then [] else input_chunks reader)"
    using c by (cases "buf = []") auto
  have sound: "input_sound reader" "\<And>x. e' \<noteq> ReadFail x" using 2(2) by (auto simp: input_sound_def)
  show ?case
  proof (cases e')
    case ReadOk
    then show ?thesis
      using 2(1) [OF c [symmetric] ReadOk] 2(3) c step sound(1)
      by (cases "out = []") (auto simp: remaining_def)
  next
    case ReadEOF
    then show ?thesis using 2(3) c step sound(1) by (auto simp: remaining_def split: prod.splits)
  qed (use sound(2) in auto)
qed

section \<open>Independence of the chunks\<close>

definition mask_whole :: "Masker \<Rightarrow> string \<Rightarrow> string" where
  "mask_whole m t = fst (maskStreamChunk m [] t True)"

definition infix_free :: "string list \<Rightarrow> bool" where
  "infix_free secrets \<longleftrightarrow> (\<forall>s \<in> set secrets. \<forall>s' \<in> set secrets. sublist s s' \<longrightarrow> s = s')"

lemma nextMatch_unique:
  assumes ok: "masker_ok m" and "infix_free (mk_secrets m)" and "s \<in> set (mk_secrets m)" "prefix s (drop i t)"
    and first: "\<And>j. j < i \<Longrightarrow> \<not> hit m j t"
  shows "nextMatch m t = Some (i, s)"
proof -
  have "hit m i t" using assms(3,4) by (auto simp: hit_def)
  then obtain k s' where k: "nextMatch m t = Some (k, s')" "k \<le> i" using nextMatch_hit [OF ok] by blast
  note spec = nextMatch_Some [OF ok k(1)]
  have "k = i" using k(2) first [of k] spec(1,2) by (auto simp: hit_def le_less)
  moreover have "prefix s s'"
    using prefix_length_prefix [OF assms(4)] spec(2,6) assms(3,4) \<open>k = i\<close> by blast
  ultimately show ?thesis using k(1) assms(2,3) spec(1) by (auto simp: infix_free_def)
qed

text \<open>A match stays the next one however the data continues.\<close>

lemma nextMatch_extend:
  assumes ok: "masker_ok m" and free: "infix_free (mk_secrets m)" and m: "nextMatch m t = Some (i, s)"
  shows "nextMatch m (t @ u) = Some (i, s)"
proof (rule nextMatch_unique [OF ok free])
  note spec = nextMatch_Some [OF ok m]
  show "s \<in> set (mk_secrets m)" by (rule spec(1))
  show "prefix s (drop i (t @ u))" using spec(2) by (simp add: prefix_prefix)
  fix j
  assume j: "j < i"
  show "\<not> hit m j (t @ u)"
  proof
    assume "hit m j (t @ u)"
    then obtain s' where s': "s' \<in> set (mk_secrets m)" "prefix s' (drop j (t @ u))" by (auto simp: hit_def)
    have eq: "drop j (t @ u) = drop j t @ u" using j spec(4) by simp
    consider "length s' \<le> length (drop j t)" | "length (drop j t) \<le> length s'" by linarith
    then show False
    proof cases
      case 1
      then have "prefix s' (drop j t)" using prefix_length_prefix [of s' "drop j t @ u" "drop j t"] s'(2) eq by simp
      then show False using spec(5) [OF j] s'(1) by (auto simp: hit_def)
    next
      case 2
      then have pre: "prefix (drop j t) s'" using prefix_length_prefix [of "drop j t" "drop j t @ u" s'] s'(2) eq by simp
      have "drop (i - j) (drop j t) = drop i t" using j by simp
      then have "sublist s (drop j t)" using spec(2)
        by (metis prefix_imp_sublist sublist_drop sublist_order.order_trans)
      then have "sublist s s'" using pre by (meson prefix_imp_sublist sublist_order.order_trans)
      then have "s = s'" using free spec(1) s'(1) by (auto simp: infix_free_def)
      then show False using 2 spec(4) j by simp
    qed
  qed
qed

lemma mask_whole_match:
  assumes "masker_ok m" "nextMatch m t = Some (i, s)"
  shows "mask_whole m t = take i t @ mk_replacement m @ mask_whole m (drop (i + length s) t)"
proof -
  have "mk_secrets m \<noteq> []" using nextMatch_Some(1) [OF assms] by auto
  moreover have "t \<noteq> []" using nextMatch_Some(3,4) [OF assms] by auto
  ultimately show ?thesis using assms(2) nextMatch_Some(3) [OF assms]
    by (simp add: mask_whole_def maskStreamChunk_def mask_loop.simps [of m True t] split: prod.splits)
qed

lemma mask_whole_None: "nextMatch m t = None \<Longrightarrow> mask_whole m t = t"
  by (simp add: mask_whole_def maskStreamChunk_def mask_loop.simps [of m True t])

text \<open>A piece in which no secret starts passes unchanged.\<close>

lemma mask_whole_piece:
  assumes ok: "masker_ok m" and free: "infix_free (mk_secrets m)" and none: "\<And>j. j < length a \<Longrightarrow> \<not> hit m j (a @ t)"
  shows "mask_whole m (a @ t) = a @ mask_whole m t"
proof (cases "nextMatch m t")
  case None
  have "\<not> hit m j (a @ t)" for j
  proof (cases "j < length a")
    case False
    then obtain k where "j = length a + k" using le_Suc_ex not_less by blast
    then show ?thesis using nextMatch_None [OF ok None] by (simp add: hit_shift)
  qed (rule none)
  then have "nextMatch m (a @ t) \<noteq> Some x" for x
    using nextMatch_Some(1,2) [OF ok, of "a @ t" "fst x" "snd x"] unfolding hit_def by auto
  then have "nextMatch m (a @ t) = None" by (cases "nextMatch m (a @ t)") auto
  then show ?thesis using None by (simp add: mask_whole_None)
next
  case (Some x)
  then obtain i s where m: "nextMatch m t = Some (i, s)" by (cases x) auto
  note spec = nextMatch_Some [OF ok m]
  have "nextMatch m (a @ t) = Some (length a + i, s)"
  proof (rule nextMatch_unique [OF ok free spec(1)])
    show "prefix s (drop (length a + i) (a @ t))" using spec(2) by simp
    show "\<not> hit m j (a @ t)" if "j < length a + i" for j
    proof (cases "j < length a")
      case False
      then obtain k where "j = length a + k" using le_Suc_ex not_less by blast
      then show ?thesis using spec(5) that by (simp add: hit_shift)
    qed (rule none)
  qed
  from mask_whole_match [OF ok this] mask_whole_match [OF ok m] show ?thesis by (simp add: add.assoc)
qed

lemma chunk_whole:
  assumes ok: "masker_ok m" and free: "infix_free (mk_secrets m)"
  shows "mask_loop m False t = (out, kept) \<Longrightarrow> mask_whole m (t @ u) = out @ mask_whole m (kept @ u)"
proof (induction t arbitrary: out rule: length_induct)
  case (1 t)
  from ok show ?case
  proof (cases rule: mask_loop_cases [where t = t and flush = False])
    case empty
    then show ?thesis using 1(2) by simp
  next
    case (hit i s out' kept')
    have "length (drop (i + length s) t) < length t" using hit(2,3) by (cases s) auto
    then have ih: "mask_whole m (drop (i + length s) t @ u) = out' @ mask_whole m (kept @ u)"
      using 1 hit(4,5) by auto
    have "drop (i + length s) (t @ u) = drop (i + length s) t @ u" "take i (t @ u) = take i t" using hit(3) by simp_all
    then have "mask_whole m (t @ u) = take i t @ mk_replacement m @ out' @ mask_whole m (kept @ u)"
      by (simp only: mask_whole_match [OF ok nextMatch_extend [OF ok free hit(1)]] ih)
    then show ?thesis using 1(2) hit(5) by simp
  next
    case keep
    define n where "n = length t - min (mk_keepTail m) (length t)"
    have r: "out = take n t" "kept = drop n t" using 1(2) keep(3) by (simp_all add: n_def)
    have b: "boundary m (take n t) (drop n t)"
      using kept_boundary [OF ok boundary_Nil keep(1)] by (simp add: n_def)
    have "mask_whole m (take n t @ drop n t @ u) = take n t @ mask_whole m (drop n t @ u)"
      using b by (intro mask_whole_piece [OF ok free]) (simp add: boundary_def)
    then show ?thesis unfolding r by (metis append_assoc append_take_drop_id)
  qed simp
qed

lemma stream_whole:
  assumes ok: "masker_ok m" and free: "infix_free (mk_secrets m)"
  shows "mask_stream m pending chunks = mask_whole m (pending @ concat chunks)"
proof (cases "mk_secrets m = []")
  case True
  then show ?thesis by (simp add: no_secrets_stream mask_whole_def maskStreamChunk_def)
next
  case False
  show ?thesis
  proof (induction chunks arbitrary: pending)
    case (Cons chunk chunks)
    obtain out kept where "mask_loop m False (pending @ chunk) = (out, kept)" by force
    with chunk_whole [OF ok free this, of "concat chunks"] Cons.IH [of kept] False
    show ?case by (simp add: maskStreamChunk_def)
  qed (simp add: mask_whole_def maskStreamChunk_def)
qed

section \<open>Properties\<close>

text \<open>
  C5: nothing secret passes the masking writer. Whatever the writes are, and wherever they cut the
  data, the bytes handed on are the written bytes with occurrences of secrets replaced and nothing
  else changed, and no piece that passes unchanged contains a secret of at least four bytes.
\<close>

theorem writer_masks_secrets:
  "masks (New secrets) (concat chunks) (written secrets chunks)"
  using masks_stream [OF New_ok] by (simp add: written_stream New_def)

text \<open>
  C26: the masking reader hands out exactly the masked input. For an input that does not fail, what the
  reader has to hand out at first is the input with secrets replaced and no secret let through; a call
  with room hands out the next bytes of it, at least one, or reports the end when nothing is left.
\<close>

theorem reader_delivers_masked:
  assumes "input_sound (rd_reader r)" "0 < n" "Read n r = (r', res)"
  shows "(case res of
       Inr bytes \<Rightarrow> bytes \<noteq> [] \<and> length bytes \<le> n \<and> remaining r = bytes @ remaining r'
     | Inl e \<Rightarrow> e = AtEOF \<and> remaining r = []) \<and> input_sound (rd_reader r') \<and>
    masks (New secrets) (concat (input_chunks reader)) (remaining (NewReader reader secrets))"
proof -
  have first: "masks (New secrets) (concat (input_chunks reader)) (remaining (NewReader reader secrets))"
    using masks_stream [OF New_ok] by (simp add: remaining_def NewReader_def New_def)
  obtain q e where f: "(if rd_out r = [] \<and> \<not> rd_eof r then fill (rd_masker r) (rd_pending r) (rd_reader r) else (r, None)) = (q, e)"
    by force
  have q: "e = None \<and> remaining q = remaining r \<and> (rd_out q = [] \<longrightarrow> rd_eof q) \<and> input_sound (rd_reader q)"
  proof (cases "rd_out r = [] \<and> \<not> rd_eof r")
    case True
    then show ?thesis
      using fill_remaining [OF assms(1), of "rd_masker r" "rd_pending r" q e] f by (auto simp: remaining_def [of r])
  next
    case False
    then show ?thesis using f assms(1) by auto
  qed
  have r: "Read n r = (if rd_out q = [] \<and> rd_eof q then (q, Inl AtEOF)
      else (q\<lparr>rd_out := drop n (rd_out q)\<rparr>, Inr (take n (rd_out q))))"
    unfolding Read_def f using q assms(2) by simp
  show ?thesis
  proof (cases "rd_out q = []")
    case True
    then show ?thesis using r q assms(3) first by (auto simp: remaining_def [of q])
  next
    case False
    then have "r' = q\<lparr>rd_out := drop n (rd_out q)\<rparr>" "res = Inr (take n (rd_out q))" using r assms(3) by auto
    moreover have "remaining q = take n (rd_out q) @ remaining (q\<lparr>rd_out := drop n (rd_out q)\<rparr>)"
      by (simp add: remaining_def)
    ultimately show ?thesis using False q assms(2) first by simp
  qed
qed

theorem reader_delivers_masked_witness:
  "\<exists>r'. Read 64 (NewReader [(''my tok'', ReadOk), (''en'', ReadEOF)] [''token'']) = (r', Inr ''my'') \<and>
     remaining (NewReader [(''my tok'', ReadOk), (''en'', ReadEOF)] [''token'']) = ''my'' @ remaining r'"
proof -
  let ?r = "NewReader [(''my tok'', ReadOk), (''en'', ReadEOF)] [''token'']"
  have "snd (Read 64 ?r) = Inr ''my''" by code_simp
  then obtain r' where run: "Read 64 ?r = (r', Inr ''my'')" by (metis prod.collapse)
  have "input_sound (rd_reader ?r)" by (simp add: input_sound_def NewReader_def)
  then show ?thesis using reader_delivers_masked [OF _ _ run] run by auto
qed

text \<open>
  C27: the cuts do not show. When no secret contains another, the writer hands on the same bytes for
  every way of cutting the data into writes, namely those of masking the whole data at once.
\<close>

theorem writer_chunk_independent:
  assumes "infix_free (mk_secrets (New secrets))" "concat chunks = concat chunks'"
  shows "written secrets chunks = mask_whole (New secrets) (concat chunks) \<and> written secrets chunks = written secrets chunks'"
  using stream_whole [OF New_ok assms(1) [unfolded New_def], of "[]"] assms(2) by (simp add: written_stream New_def)

theorem writer_chunk_independent_witness:
  "written [''token''] [''my tok'', ''en is'', '' here''] = ''my [MASKED] is here''"
proof -
  have "infix_free (mk_secrets (New [''token'']))" by code_simp
  moreover have "mask_whole (New [''token'']) (concat [''my tok'', ''en is'', '' here'']) = ''my [MASKED] is here''" by code_simp
  ultimately show ?thesis
    using writer_chunk_independent [of "[''token'']" "[''my tok'', ''en is'', '' here'']" "[''my tok'', ''en is'', '' here'']"] by simp
qed

text \<open>Without that condition they do: a secret that extends another is cut short.\<close>

lemma chunks_show:
  "written [''pass'', ''password''] [''password''] = ''[MASKED]''"
  "written [''pass'', ''password''] [''pass'', ''word''] = ''[MASKED]word''"
  by code_simp+

text \<open>\<open>MaskString\<close> replaces in the order of the list and leaves the rest of the longer secret in place.\<close>

lemma MaskString_order: "MaskString (New [''pass'', ''password'']) ''password'' = ''[MASKED]word''"
  by code_simp

end
