(* ===== verification/Spec2Isabelle.thy ===== *)
theory Spec2Isabelle
  imports Store_Runs Adapter_Authority Client_Stream Activity_Dispatcher Publication_Gates Session_State Masking
begin

text \<open>
  AgentWharf connects coding agents (providers, run by an adapter next to them) with clients through a
  hub. The hub keeps what must survive a crash in an event store: the numbered event log of every
  session, the attention summaries derived from it, the authority of adapter connections, and ledgers
  of commands, attachments and workspace leases. This development models that durable core as the
  SQLite store implements it, how the hub admits adapters and batches, fences and publishes their events on
  top of it, how it replays and streams them to clients, its scan for activity, the encrypted carriers that commands and events may have, the
  adapter's session state machine, and the masking of secrets on their way out.

  \<^bold>\<open>Parts and theories.\<close> File names are below \<^verbatim>\<open>src/\<close>.

  \<^item> \<open>Wharf_Prelude\<close>: errors and results, Go times in nanoseconds, transactions that roll back, the
    sequencing of store programs, and the rules that turn chains of early returns into conjunctions.
  \<^item> \<open>Go_Json\<close>: printing and parsing of the JSON the store writes and reads.
  \<^item> \<open>Store_Types\<close>: the database as a record of tables (\<^verbatim>\<open>store/sqlite/store.go\<close>, schema), its
    rows, its checks as failing writes, and the types of \<^verbatim>\<open>store/store.go\<close>.
  \<^item> \<open>Attention\<close>: the projection of events into attention summaries and its backfill.
  \<^item> \<open>Events\<close>: \<^verbatim>\<open>Append\<close>, \<^verbatim>\<open>Replay\<close>, \<^verbatim>\<open>LatestSeq\<close>, \<^verbatim>\<open>History\<close>, \<^verbatim>\<open>Bootstrap\<close>.
  \<^item> \<open>Store_Step\<close>: well-formed databases and the relation \<open>store_step\<close> that every operation respects:
    logs are only extended, connections, ledgers, attachments and leases only move forward, and a
    well-formed database stays well formed.
  \<^item> \<open>Connections\<close>: adapter connections, their epochs, fences and credentials, and the binding of a
    live writer. \<open>Dispatch\<close>: the append of adapter events under an admission
    (\<^verbatim>\<open>store/sqlite/adapter_dispatch.go\<close>). \<open>Proposals\<close>: proposed events.
  \<^item> \<open>Encrypted_Packet\<close>: the carriers of \<^verbatim>\<open>protocol/encrypted_packet.go\<close> and
    \<^verbatim>\<open>protocol/encrypted_file.go\<close>.
  \<^item> \<open>Ledgers\<close>, \<open>Run_Control\<close>, \<open>File_References\<close>, \<open>Settings\<close>, \<open>Commands\<close>: the command ledgers.
  \<^item> \<open>Attachments\<close>, \<open>Workspace_Leases\<close>, \<open>Attach_Attempts\<close>, \<open>Warm_Attach\<close>, \<open>Provider_Start\<close>: how a
    session is attached to a running adapter and a provider is started in a workspace.
  \<^item> \<open>Event_Log\<close>: the abstract log and the proof that the store implements it. \<open>Event_Batcher\<close>:
    the batcher of \<^verbatim>\<open>hub/event_batcher.go\<close> as a step relation over it. \<open>Publication_Gates\<close>: the
    gates of the same file that keep the publications of a session apart.
  \<^item> \<open>Adapter_Authority\<close>: admission, registration and effects of adapters in the hub
    (\<^verbatim>\<open>hub/connection_dispatch.go\<close> and their callers in \<^verbatim>\<open>hub/websocket.go\<close>), on top of the
    store's connections and the batcher.
  \<^item> \<open>Client_Stream\<close>: the delivery of events to clients (\<^verbatim>\<open>clientConnection\<close> and
    \<^verbatim>\<open>replayAccepted\<close> in \<^verbatim>\<open>hub/websocket.go\<close>, \<^verbatim>\<open>hub/bootstrap.go\<close> and
    \<^verbatim>\<open>hub/encrypted_replay.go\<close>) as a step relation.
  \<^item> \<open>Activity_Dispatcher\<close>: the scan of \<^verbatim>\<open>hub/activity_dispatcher.go\<close>. \<open>Session_State\<close>:
    \<^verbatim>\<open>adapter/core/state.go\<close>.
  \<^item> \<open>Masking\<close>: \<^verbatim>\<open>masking/masking.go\<close>.
  \<^item> \<open>Store_Runs\<close>: the writing operations of the store as the steps of one transition system.

  \<^bold>\<open>Correspondence.\<close> A definition has the name of the Go function it translates. An operation takes
  its arguments, the readings of the store's clock in the order the code takes them, and the database,
  and returns the database and a result; a definition with the suffix \<open>_tx\<close> is the body of a
  transaction. A statement that violates a constraint of the schema is a failing write. The pieces of a
  long function that the code does not name have names of their own. Parameters stand for callbacks,
  for the reader and the writer below the masking ones, for the authenticator, and for what other callers
  do to the store between two calls of the hub.

  \<^bold>\<open>What is shown.\<close> Of the whole store: every reachable database is well formed, lost authority never
  returns, settled outcomes are permanent, and a reader that resumes gets exactly what it missed. Of
  the log: it refines an abstract append-only log; pages and bootstraps are complete. Of connections: a
  hello replaces the writer and rotations activate. Of the ledgers: a command is
  reserved, claimed and settled at most once, recovery succeeds, retries return what was stored. Of
  attachments and leases: updates apply to the version they name, a workspace has one owner, starts
  need authority, warm attach is atomic. Of the batcher: under every interleaving only stored events
  are broadcast, in order and under their own numbers. Of the hub: only the newest adapter of a session
  can act, what it sends is broadcast only once stored, an admission ends all earlier ones, publications
  take turns, a client gets replayed and live events once and in order if broadcasts follow the log, in
  required content mode it gets only sealed carriers and closed lifecycle records, and a scan for
  activity reports every live session once and ends. Of the state machine:
  reported transitions are a path of legal moves. Of masking: no secret passes, wherever the data is cut,
  and the reader hands out exactly the masked input. Contracts between components are the locales
  \<open>one_shot_ledger\<close> and \<open>versioned_table\<close> (in \<open>Ledgers\<close>), \<open>event_log\<close> (in \<open>Event_Log\<close>),
  \<open>flushing\<close> (in \<open>Event_Batcher\<close>, for the plain batcher and for that of an adapter) and
  \<open>page_store\<close> (in \<open>Activity_Dispatcher\<close>), each interpreted on the definitions of the model.

  \<^bold>\<open>Bounds and fuel.\<close> Integers of the code are unbounded integers of the model; the counters concerned
  grow by one per operation. The reader of history pages in \<open>Events\<close> takes fuel, one unit per
  page; the theorem about it shows that one unit more than there are events is enough. The scan in
  \<open>Activity_Dispatcher\<close> takes one unit per page; one more than there are live sessions is enough. The
  loop of the streaming masker is total: each round removes a secret of at least four bytes.

  \<^bold>\<open>Not modelled.\<close> Failures of the database itself (I/O errors, a busy database and its retries) and
  cancelled contexts, except that a flush of the batcher and the effects of an adapter fail under one.
  Transactions run one at a time, as SQLite serialises writers. Opening the database and the migrations
  of old schemas. The grouping of several connection operations into one transaction is a definition
  (\<^verbatim>\<open>WithAdapterConnectionTransaction\<close>) but not a call of \<open>Store_Runs\<close>. The ticker and the shared refresh of the activity dispatcher. The PostgreSQL store,
  which would need a model of concurrent transactions, with its reopening of ended sessions, which the
  SQLite store does not have, and its contract tests. The rest of the hub's
  socket server and the program's command line, processes and terminals, which are mostly I/O.
  The wire codec beyond the parts used here, the provider mappers, the adapter's supervision
  and the event coalescer. Authentication and the experimental key management,
  which rest on cryptographic libraries.
\<close>

section \<open>Stores that can be reached\<close>

text \<open>
  C1: every store that a sequence of calls can reach from an empty one is well formed: the events of
  every session are numbered from one without gaps; the rows of the attention summaries, adapter
  connections, attachments, leases, attach attempts, proposals and the four command ledgers have unique
  keys and pass their checks, and where they refer to events these exist; fences are below their
  counters; the ledgers of settings, run controls and file references have at most one active row per
  session. (The tables of live writers and of announced capabilities are not part of it.)
\<close>

theorem reachable_well_formed:
  assumes "reachable d"
  shows "wf d \<and> map ev_seq (log_of d sid) = [1..int (length (log_of d sid))]"
  using reachable_wf [OF assms] by (simp add: wf_def numbered_log_def)

lemma reachable_perform: "reachable d \<Longrightarrow> reachable (perform c clk d)"
  unfolding reachable_def by (rule store_run.call)

lemma reachable_initial: "reachable initial_db"
  unfolding reachable_def by (rule store_run.idle)

theorem reachable_well_formed_witness:
  "wf demo_bound \<and> map ev_seq (log_of demo_bound ''s'') = [1..int (length (log_of demo_bound ''s''))]"
proof -
  have "reachable demo_bound"
    using reachable_perform [OF reachable_perform [OF reachable_initial,
      of "CallInitialize demo_initialize" "\<lambda>_. 5"], of "CallHello ''s'' demo_hello" "\<lambda>_. 6"]
    by (simp add: demo_bound_def demo_connected_def)
  then show ?thesis by (rule reachable_well_formed)
qed

text \<open>
  C2: lost authority never comes back. Once a session's connection has moved to a later epoch than an
  admission names, or is terminal or revoked, then after any sequence of store calls that admission is
  refused at every reading of the clock: no events are appended under it, plain or encrypted, and no
  provider is started under it; the refused calls change nothing and the start callback does not run.
\<close>

theorem lost_authority_final:
  assumes "store_run d d'" "map_of (session_adapter_connections d) sid = Some c" "stale a c"
  shows "(\<nexists>x. ValidateAdapterAdmission sid a now d' = Inr x) \<and>
    (\<exists>e. appendAdapterEvents sid a evs enc clk d' = (d', Inl e)) \<and>
    (ps_SessionID q = sid \<longrightarrow> ps_Admission q = a \<longrightarrow>
       (\<exists>e. WithProviderStartAdmission q callback clk d' s = (s, d', Inl e)))"
proof -
  note step = store_run_step [OF assms(1)]
  have no: "ValidateAdapterAdmission sid a now d1 \<noteq> Inr x" if "store_step d' d1" for now d1 x
    by (rule stale_stays [OF store_step_trans [OF step that] assms(2,3)])
  have "\<exists>e. appendAdapterEvents sid a evs enc clk d' = (d', Inl e)"
    by (rule append_needs_admission [OF no])
  moreover have "\<exists>e. WithProviderStartAdmission q callback clk d' s = (s, d', Inl e)"
    if "ps_SessionID q = sid" "ps_Admission q = a"
    by (rule stale_start) (use no [OF store_step_refl] that in blast)
  ultimately show ?thesis using no [OF store_step_refl] by blast
qed

definition demo_replaced :: db where
  "demo_replaced = fst (AcceptAdapterHello ''s'' demo_hello (\<lambda>_. 9) demo_granted)"

theorem lost_authority_final_witness:
  "is_ok (ValidateAdapterAdmission ''s'' demo_admission 8 demo_granted) \<and>
   (\<nexists>x. ValidateAdapterAdmission ''s'' demo_admission 8 (perform CallGrantFence (\<lambda>_. 9) demo_replaced) = Inr x)"
proof -
  obtain c where c: "map_of (session_adapter_connections demo_replaced) ''s'' = Some c" "stale demo_admission c"
  proof -
    have "case map_of (session_adapter_connections demo_replaced) ''s'' of None \<Rightarrow> False | Some c \<Rightarrow> stale demo_admission c"
      by code_simp
    then show thesis using that by (auto split: option.splits)
  qed
  have "is_ok (ValidateAdapterAdmission ''s'' demo_admission 8 demo_granted)" by code_simp
  then show ?thesis
    by (rule conjI [OF _ conjunct1 [OF lost_authority_final [OF store_run.call [OF store_run.idle] c]]])
qed

text \<open>
  C9: settled outcomes are permanent. After any sequence of store calls, a run control, a file
  reference command or a settings command that has settled is found unchanged, together with the
  terminal event it refers to.
\<close>

theorem outcomes_permanent:
  assumes "wf d" "store_run d d'"
  shows "(\<forall>r. map_of (session_run_controls d) k = Some r \<and> \<not> run_active r \<longrightarrow>
      (\<exists>n. rc_terminal_seq r = Some n \<and> map_of (session_run_controls d') k = Some r \<and> has_event d' (fst k) n)) \<and>
    (\<forall>r. map_of (session_file_reference_commands d) k = Some r \<and> \<not> file_active r \<longrightarrow>
      (\<exists>n. fr_terminal_seq r = Some n \<and> map_of (session_file_reference_commands d') k = Some r \<and> has_event d' (fst k) n)) \<and>
    (\<forall>r. map_of (session_settings_commands d) k = Some r \<and> \<not> settings_active r \<longrightarrow>
      (\<exists>n. st_terminal_seq r = Some n \<and> map_of (session_settings_commands d') k = Some r \<and> has_event d' (fst k) n))"
proof -
  note kept = runs.outcome_kept files.outcome_kept settings.outcome_kept
  note step = store_run_step [OF assms(2)]
  show ?thesis
    by (intro conjI allI impI; elim conjE)
      (rule kept(1) [OF assms(1) step], assumption+, rule kept(2) [OF assms(1) step], assumption+,
       rule kept(3) [OF assms(1) step], assumption+)
qed

definition demo_settled :: db where
  "demo_settled = perform (CallFinalizeRun ''s'' ''c'' demo_completed) (\<lambda>_. 10) demo_reserved"

lemma demo_settled_wf: "wf demo_settled"
  unfolding demo_settled_def by (rule store_step_wf [OF perform_step demo_run_wf(3)])

theorem outcomes_permanent_witness:
  "\<exists>r. map_of (session_run_controls (perform (CallAppend ''s'' [demo_event]) (\<lambda>_. 11) demo_settled)) (''s'', ''c'') = Some r \<and>
     rc_terminal_seq r = Some 4"
proof -
  have "case map_of (session_run_controls demo_settled) (''s'', ''c'') of
      None \<Rightarrow> False | Some r \<Rightarrow> \<not> run_active r \<and> rc_terminal_seq r = Some 4" by code_simp
  then obtain r where "map_of (session_run_controls demo_settled) (''s'', ''c'') = Some r" "\<not> run_active r"
    "rc_terminal_seq r = Some 4" by (auto split: option.splits)
  then show ?thesis
    using conjunct1 [OF outcomes_permanent [OF demo_settled_wf store_run.call [OF store_run.idle], of "(''s'', ''c'')"]]
    by blast
qed

text \<open>
  C8: a reader that resumes misses nothing and sees nothing twice. Whatever calls happened since it
  read the latest sequence number of a session, the log is the old log followed by new events, and a
  replay from that number delivers exactly the new ones, in order.
\<close>

theorem resume_exact:
  assumes "wf d" "store_run d d'" "LatestSeq sid d = Inr n"
  shows "\<exists>rest. event_log_of d' sid = event_log_of d sid @ rest \<and> map e_Seq rest = [n + 1..n + int (length rest)] \<and>
    (\<forall>f s. Replay sid n (Some f) d' (s :: 's) = deliver f rest s)"
proof -
  have wf': "wf d'" by (rule store_step_wf [OF store_run_step [OF assms(2)] assms(1)])
  obtain rest where rest: "event_log_of d' sid = event_log_of d sid @ rest"
    using store_step_prefix [OF store_run_step [OF assms(2)], of sid] by (auto simp: prefix_def)
  have n: "n = int (length (event_log_of d sid))"
    using store_log.latest_length [OF assms(1), of sid] assms(3) by simp
  have seqs: "map e_Seq (event_log_of e sid) = [1..int (length (event_log_of e sid))]" if "wf e" for e
    using that by (simp add: wf_def numbered_log_def event_log_of_def row_event_def comp_def)
  have "map e_Seq (event_log_of d sid @ rest) = [1..n] @ [n + 1..n + int (length rest)]"
    using seqs [OF wf'] upto_append [of n "length rest"] by (simp add: rest n)
  then have "map e_Seq rest = [n + 1..n + int (length rest)]" using seqs [OF assms(1)] n by simp
  moreover have "Replay sid n (Some f) d' s = deliver f rest s" for f and s :: 's
    using store_log.replay_drop [OF wf', of sid n f s] rest n by simp
  ultimately show ?thesis using rest by blast
qed

theorem resume_exact_witness:
  "\<exists>rest. event_log_of (perform (CallAppend ''s'' [demo_event]) (\<lambda>_. 8) demo_db) ''s'' = event_log_of demo_db ''s'' @ rest \<and>
     map e_Seq rest = [4..3 + int (length rest)]"
proof -
  have "wf demo_db" unfolding demo_db_def by (rule store_step_wf [OF Append_step wf_initial])
  moreover have "LatestSeq ''s'' demo_db = Inr 3" by code_simp
  ultimately show ?thesis
    using resume_exact [OF _ store_run.call [OF store_run.idle], of demo_db "''s''" 3 "CallAppend ''s'' [demo_event]" "\<lambda>_. 8"]
    by auto
qed

end
